(* ===== verification/Prelude.thy ===== *)
theory Prelude
  imports Complex_Main "HOL-Library.Word"
begin

text \<open>
  Shared vocabulary of the development: Go's 64-bit integers with their wrap-around written
  out, truncating division, the \<open>error + value\<close> results of fallible Go functions, and the
  collections of rewrite rules the component theories add to.
\<close>

section \<open>Collections\<close>

named_theorems go_arith \<open>facts about Go integers and durations\<close>
named_theorems f64_simps \<open>facts about binary64 arithmetic\<close>
named_theorems store_simps \<open>unfolding rules of the data-access layers\<close>
named_theorems inv_intros \<open>invariant preservation rules\<close>

section \<open>Go integers\<close>

text \<open>
  \<open>int\<close> and \<open>int64\<close> are 64 bits wide on every platform the services are built for.  A value is
  an Isabelle \<open>int\<close> in the range below; an operation that may leave the range is wrapped.
\<close>

definition min_int64 :: int where "min_int64 = - (2 ^ 63)"

definition max_int64 :: int where "max_int64 = 2 ^ 63 - 1"

definition is_int64 :: "int \<Rightarrow> bool" where
  "is_int64 n \<longleftrightarrow> min_int64 \<le> n \<and> n \<le> max_int64"

definition wrap64 :: "int \<Rightarrow> int" where
  "wrap64 n = (n + 2 ^ 63) mod 2 ^ 64 - 2 ^ 63"

lemma wrap64_id [go_arith]: "is_int64 n \<Longrightarrow> wrap64 n = n"
  by (simp add: wrap64_def is_int64_def min_int64_def max_int64_def)

lemma wrap64_range [go_arith]: "is_int64 (wrap64 n)"
proof -
  have "0 \<le> (n + 2 ^ 63) mod 2 ^ 64" and "(n + 2 ^ 63) mod 2 ^ 64 < (2 ^ 64 :: int)"
    by simp_all
  then show ?thesis
    unfolding is_int64_def wrap64_def min_int64_def max_int64_def by simp
qed

lemma wrap64_cong [go_arith]: "wrap64 n mod 2 ^ 64 = n mod 2 ^ 64"
proof -
  have "wrap64 n mod 2 ^ 64 = ((n + 2 ^ 63) mod 2 ^ 64 - 2 ^ 63) mod 2 ^ 64"
    by (simp only: wrap64_def)
  also have "\<dots> = (n + 2 ^ 63 - 2 ^ 63) mod 2 ^ 64"
    by (rule mod_diff_left_eq)
  finally show ?thesis by simp
qed

text \<open>The same value as two's complement: the word library agrees with the arithmetic.\<close>

lemma wrap64_sint: "wrap64 n = sint (word_of_int n :: 64 word)"
proof -
  have "sint (word_of_int n :: 64 word) = signed_take_bit 63 n"
    by (simp add: sint_uint unsigned_of_int signed_take_bit_take_bit)
  also have "\<dots> = wrap64 n"
    by (simp add: signed_take_bit_eq_take_bit_shift take_bit_eq_mod wrap64_def)
  finally show ?thesis by simp
qed

lemma wrap64_plus: "wrap64 (wrap64 a + wrap64 b) = wrap64 (a + b)"
  by (simp only: wrap64_sint of_int_add of_int_sint scast_id)

text \<open>Go's \<open>/\<close> and \<open>%\<close> truncate towards zero.\<close>

definition go_div :: "int \<Rightarrow> int \<Rightarrow> int" where
  "go_div a b = sgn a * sgn b * (\<bar>a\<bar> div \<bar>b\<bar>)"

definition go_mod :: "int \<Rightarrow> int \<Rightarrow> int" where
  "go_mod a b = a - b * go_div a b"

lemma go_div_nonneg [go_arith]: "0 \<le> a \<Longrightarrow> 0 < b \<Longrightarrow> go_div a b = a div b"
  by (cases "a = 0") (simp_all add: go_div_def)

lemma go_mod_nonneg [go_arith]: "0 \<le> a \<Longrightarrow> 0 < b \<Longrightarrow> go_mod a b = a mod b"
  by (simp add: go_mod_def go_div_nonneg minus_mult_div_eq_mod)

section \<open>Results\<close>

text \<open>
  A Go function returning \<open>(T, error)\<close> yields a value of \<open>'e + 't\<close>: \<open>Inl\<close> the error, \<open>Inr\<close> the
  value that goes with a nil error.
\<close>

type_synonym ('e, 'a) result = "'e + 'a"

abbreviation is_ok :: "('e, 'a) result \<Rightarrow> bool" where
  "is_ok r \<equiv> \<not> isl r"

section \<open>Lists and maps\<close>

lemma length_filter_le_take:
  "length (filter P (take n xs)) \<le> length (filter P xs)"
proof -
  have "length (filter P xs) = length (filter P (take n xs @ drop n xs))" by simp
  also have "\<dots> = length (filter P (take n xs)) + length (filter P (drop n xs))"
    by (simp only: filter_append length_append)
  finally show ?thesis by simp
qed

lemma sum_fun_upd_Suc:
  fixes f :: "'a \<Rightarrow> int"
  assumes "finite A" and "k \<in> A"
  shows "(\<Sum>x\<in>A. (f(k := v)) x) = (\<Sum>x\<in>A. f x) - f k + v"
proof -
  have "(\<Sum>x\<in>A. (f(k := v)) x) = v + (\<Sum>x\<in>A - {k}. f x)"
    using assms by (simp add: sum.remove)
  moreover have "(\<Sum>x\<in>A. f x) = f k + (\<Sum>x\<in>A - {k}. f x)"
    using assms by (simp add: sum.remove)
  ultimately show ?thesis by simp
qed

end
