(* ===== verification/Float64.thy ===== *)
theory Float64
  imports Prelude
begin

text \<open>
  Binary64 arithmetic.  The rate limiters keep token counts and window fractions in Go
  \<open>float64\<close> values, so every arithmetic operation rounds.  A finite float is its exact value, a
  rational; an operation is the exact result rounded to the nearest value with 53 significant
  binary digits, ties to even, which is what IEEE 754 prescribes for the default mode.  The same
  rounding in base ten with 14 digits is what Lua's \<open>tostring\<close> does to a number.

  The exponent range is not bounded: the quantities of the limiters lie far inside the normal
  range, and neither infinities nor NaN arise (no division by zero is reached).
\<close>

section \<open>Digits and magnitude\<close>

function ndigits :: "nat \<Rightarrow> int \<Rightarrow> nat" where
  "ndigits b n = (if b \<le> 1 \<or> n \<le> 0 then 0 else Suc (ndigits b (n div int b)))"
  by pat_completeness auto
termination
proof (relation "measure (\<lambda>(b, n). nat n)")
  fix b :: nat and n :: int
  assume "\<not> (b \<le> 1 \<or> n \<le> 0)"
  then have "n div int b < n" by (intro int_div_less_self) auto
  then show "((b, n div int b), b, n) \<in> measure (\<lambda>(b, n). nat n)"
    using \<open>\<not> (b \<le> 1 \<or> n \<le> 0)\<close> by simp
qed simp

declare ndigits.simps [simp del]

lemma ndigits_bounds:
  assumes "1 < b" and "0 < n"
  shows "0 < ndigits b n \<and> int b ^ (ndigits b n - 1) \<le> n \<and> n < int b ^ ndigits b n"
  using assms
proof (induction b n rule: ndigits.induct)
  case (1 b n)
  show ?case
  proof (cases "n < int b")
    case True
    with "1.prems" have "ndigits b n = 1" by (simp add: ndigits.simps)
    with True "1.prems" show ?thesis by simp
  next
    case False
    with "1.prems" have pos: "0 < n div int b" by (simp add: pos_imp_zdiv_pos_iff)
    let ?k = "ndigits b (n div int b)"
    from "1.prems" have eq: "ndigits b n = Suc ?k" by (subst ndigits.simps) simp
    from "1.IH" "1.prems" pos
    have IH: "0 < ?k \<and> int b ^ (?k - 1) \<le> n div int b \<and> n div int b < int b ^ ?k" by auto
    have dm: "n = n div int b * int b + n mod int b" by simp
    have md: "0 \<le> n mod int b" "n mod int b < int b" using "1.prems" by simp_all
    have "int b ^ ?k = int b ^ (?k - 1) * int b" using IH by (cases ?k) simp_all
    also have "\<dots> \<le> n div int b * int b" using IH by (intro mult_right_mono) simp_all
    also have "\<dots> \<le> n" using dm md by linarith
    finally have lo: "int b ^ ?k \<le> n" .
    have "n < n div int b * int b + int b" using dm md by linarith
    then have "n < (n div int b + 1) * int b" by (simp add: distrib_right)
    also have "\<dots> \<le> int b ^ ?k * int b" using IH by (intro mult_right_mono) simp_all
    finally show ?thesis using lo eq by (simp add: mult.commute)
  qed
qed

text \<open>\<open>mag b x\<close> is the exponent of the leading base-\<open>b\<close> digit of a positive \<open>x\<close>.\<close>

definition mag :: "nat \<Rightarrow> rat \<Rightarrow> int" where
  "mag b x = (if 1 \<le> x then int (ndigits b \<lfloor>x\<rfloor>) - 1
              else - int (ndigits b (\<lceil>1 / x\<rceil> - 1)))"

lemma mag_bounds:
  assumes b: "1 < b" and x: "0 < x"
  shows "of_nat b powi (mag b x) \<le> x \<and> x < of_nat b powi (mag b x + 1)"
proof (cases "1 \<le> x")
  case True
  define n where "n = \<lfloor>x\<rfloor>"
  have n: "0 < n" using True by (simp add: n_def)
  define k where "k = ndigits b n"
  have nb: "0 < k" "int b ^ (k - 1) \<le> n" "n < int b ^ k"
    using ndigits_bounds [OF b n] by (auto simp: k_def)
  have m: "mag b x = int (k - 1)" using True nb by (simp add: mag_def n_def k_def)
  have "of_nat b powi (mag b x) = (of_int (int b ^ (k - 1)) :: rat)"
    by (simp add: m power_int_def)
  also have "\<dots> \<le> of_int n" using nb by (simp only: of_int_le_iff)
  also have "\<dots> \<le> x" by (simp add: n_def)
  finally have lo: "of_nat b powi (mag b x) \<le> x" .
  have "x < of_int (n + 1)" unfolding n_def by linarith
  also have "\<dots> \<le> of_int (int b ^ k)" using nb by (simp only: of_int_le_iff)
  also have "\<dots> = of_nat b powi (mag b x + 1)"
    using nb by (simp add: m power_int_def)
  finally show ?thesis using lo by blast
next
  case False
  have inv: "1 < 1 / x" using False x by simp
  define n where "n = \<lceil>1 / x\<rceil> - 1"
  have n: "0 < n" using inv by (simp add: n_def less_ceiling_iff)
  define k where "k = ndigits b n"
  have nb: "0 < k" "int b ^ (k - 1) \<le> n" "n < int b ^ k"
    using ndigits_bounds [OF b n] by (auto simp: k_def)
  have m: "mag b x = - int k" using False by (simp add: mag_def n_def k_def)
  have bpos: "0 < (of_nat b :: rat)" using b by simp
  have "1 / x \<le> of_int (n + 1)" unfolding n_def by simp
  also have "\<dots> \<le> of_int (int b ^ k)" using nb by (simp only: of_int_le_iff)
  finally have "1 \<le> x * of_nat b ^ k" using x by (simp add: field_simps)
  then have lo: "of_nat b powi (mag b x) \<le> x"
    using bpos by (simp add: m power_int_minus field_simps)
  have "of_int (int b ^ (k - 1)) \<le> (of_int n :: rat)" using nb by (simp only: of_int_le_iff)
  also have "\<dots> < 1 / x" unfolding n_def by linarith
  finally have "x * of_nat b ^ (k - 1) < 1" using x by (simp add: field_simps)
  then have "x < 1 / of_nat b ^ (k - 1)" using bpos by (simp add: field_simps)
  also have "\<dots> = of_nat b powi (mag b x + 1)"
  proof -
    have "mag b x + 1 = - int (k - 1)" using nb by (simp add: m)
    then show ?thesis by (simp only: power_int_minus power_int_of_nat inverse_eq_divide)
  qed
  finally show ?thesis using lo by blast
qed

section \<open>Rounding\<close>

definition rne :: "rat \<Rightarrow> int" where
  "rne y = (let f = \<lfloor>y\<rfloor>; d = y - of_int f in
            if d < 1 / 2 then f else if 1 / 2 < d then f + 1 else if even f then f else f + 1)"

lemma rne_of_int [simp]: "rne (of_int n) = n"
  by (simp add: rne_def)

lemma rne_of_nat_power [simp]: "rne (of_nat b ^ k) = int b ^ k"
  by (metis of_int_of_nat_eq of_int_power rne_of_int)

lemma rne_between: "\<lfloor>y\<rfloor> \<le> rne y \<and> rne y \<le> \<lfloor>y\<rfloor> + 1"
  by (simp add: rne_def Let_def)

lemma rne_err: "\<bar>of_int (rne y) - y\<bar> \<le> 1 / 2"
proof -
  have "of_int \<lfloor>y\<rfloor> \<le> y" and "y < of_int \<lfloor>y\<rfloor> + 1" by linarith+
  then show ?thesis by (auto simp: rne_def Let_def)
qed

lemma rne_mono:
  assumes "y \<le> z"
  shows "rne y \<le> rne z"
proof (cases "\<lfloor>y\<rfloor> = \<lfloor>z\<rfloor>")
  case True
  with assms show ?thesis by (auto simp: rne_def Let_def)
next
  case False
  with assms have "\<lfloor>y\<rfloor> + 1 \<le> \<lfloor>z\<rfloor>" using floor_mono [OF assms] by linarith
  then show ?thesis using rne_between [of y] rne_between [of z] by linarith
qed

lemma rne_minus: "rne (- y) = - rne y"
proof (cases "y \<in> \<int>")
  case True
  then obtain n where "y = of_int n" by (auto elim: Ints_cases)
  then show ?thesis by (metis of_int_minus rne_of_int)
next
  case False
  then have c: "\<lfloor>- y\<rfloor> = - \<lfloor>y\<rfloor> - 1"
    by (simp add: floor_minus ceiling_altdef) (metis Ints_of_int)
  show ?thesis by (auto simp: rne_def Let_def c field_simps)
qed

text \<open>\<open>sig_round b p x\<close> keeps \<open>p\<close> significant base-\<open>b\<close> digits of \<open>x\<close>.\<close>

definition sig_ulp :: "nat \<Rightarrow> nat \<Rightarrow> rat \<Rightarrow> rat" where
  "sig_ulp b p x = of_nat b powi (mag b \<bar>x\<bar> - (int p - 1))"

definition sig_round :: "nat \<Rightarrow> nat \<Rightarrow> rat \<Rightarrow> rat" where
  "sig_round b p x =
     (if x = 0 then 0 else of_int (rne (x / sig_ulp b p x)) * sig_ulp b p x)"

locale sig_format =
  fixes b p :: nat
  assumes base: "1 < b" and prec: "0 < p"
begin

lemma b_pos: "0 < (of_nat b :: rat)" and b_gt1: "1 < (of_nat b :: rat)"
  using base by simp_all

lemma ulp_pos: "0 < sig_ulp b p x"
  using b_pos by (simp add: sig_ulp_def zero_less_power_int)

lemma powi_le: "i \<le> j \<Longrightarrow> of_nat b powi i \<le> (of_nat b powi j :: rat)"
  using b_gt1 by (intro power_int_increasing) auto

lemma powi_less_imp: "of_nat b powi i < (of_nat b powi j :: rat) \<Longrightarrow> i < j"
  using powi_le [of j i] by (meson leD leI)

lemma powi_add: "of_nat b powi (i + j) = (of_nat b powi i * of_nat b powi j :: rat)"
  using b_pos by (simp add: power_int_add)

lemma round_0 [simp]: "sig_round b p 0 = 0"
  by (simp add: sig_round_def)

lemma round_minus: "sig_round b p (- x) = - sig_round b p x"
  by (simp add: sig_round_def sig_ulp_def rne_minus)

text \<open>Scaled by the unit in the last place, a value has exactly \<open>p\<close> digits before the point.\<close>

lemma scaled_bounds:
  assumes "0 < x"
  shows "of_nat b ^ (p - 1) \<le> x / sig_ulp b p x \<and> x / sig_ulp b p x < of_nat b ^ p"
proof -
  define s where "s = sig_ulp b p x"
  define e where "e = mag b x"
  have s: "0 < s" by (simp add: s_def ulp_pos)
  have se: "s = of_nat b powi (e - (int p - 1))" using assms by (simp add: s_def sig_ulp_def e_def)
  have mb: "of_nat b powi e \<le> x" "x < of_nat b powi (e + 1)"
    using mag_bounds [OF base assms] by (auto simp: e_def)
  have "of_nat b powi e = of_nat b powi (int (p - 1)) * s"
    unfolding se powi_add [symmetric] using prec by simp
  moreover have "of_nat b powi (e + 1) = of_nat b powi (int p) * s"
    unfolding se powi_add [symmetric] by simp
  ultimately show ?thesis using mb s
    by (simp add: s_def [symmetric] pos_le_divide_eq pos_divide_less_eq)
qed

lemma round_ge_pow:
  assumes "0 < x"
  shows "of_nat b powi (mag b x) \<le> sig_round b p x"
proof -
  have "of_int (int (b ^ (p - 1))) \<le> x / sig_ulp b p x"
    using scaled_bounds [OF assms] by simp
  from rne_mono [OF this] have "of_nat b ^ (p - 1) \<le> (of_int (rne (x / sig_ulp b p x)) :: rat)"
    by (metis of_int_le_iff of_int_of_nat_eq of_nat_power rne_of_int)
  then have "of_nat b ^ (p - 1) * sig_ulp b p x \<le> sig_round b p x"
    using assms ulp_pos [of x] by (simp add: sig_round_def mult_right_mono)
  moreover have "of_nat b ^ (p - 1) * sig_ulp b p x = of_nat b powi (mag b x)"
  proof -
    have "of_nat b ^ (p - 1) * sig_ulp b p x = of_nat b powi (int (p - 1) + (mag b x - (int p - 1)))"
      using assms by (simp add: sig_ulp_def powi_add del: of_nat_diff)
    then show ?thesis using prec by simp
  qed
  ultimately show ?thesis by simp
qed

lemma round_le_pow:
  assumes "0 < x"
  shows "sig_round b p x \<le> of_nat b powi (mag b x + 1)"
proof -
  have "x / sig_ulp b p x \<le> of_int (int (b ^ p))"
    using scaled_bounds [OF assms] by simp
  from rne_mono [OF this] have "of_int (rne (x / sig_ulp b p x)) \<le> (of_nat b ^ p :: rat)"
    by (metis of_int_le_iff of_int_of_nat_eq of_nat_power rne_of_int)
  then have "sig_round b p x \<le> of_nat b ^ p * sig_ulp b p x"
    using assms ulp_pos [of x] by (simp add: sig_round_def mult_right_mono)
  also have "\<dots> = of_nat b powi (int p + (mag b x - (int p - 1)))"
    unfolding powi_add using assms by (simp add: sig_ulp_def)
  finally show ?thesis by simp
qed

lemma round_pos: "0 < x \<Longrightarrow> 0 < sig_round b p x"
  using round_ge_pow [of x] b_pos by (meson less_le_trans zero_less_power_int)

lemma round_nonneg: "0 \<le> x \<Longrightarrow> 0 \<le> sig_round b p x"
  using round_pos [of x] by (cases "x = 0") auto

lemma mag_mono: "0 < x \<Longrightarrow> x \<le> y \<Longrightarrow> mag b x \<le> mag b y"
proof -
  assume x: "0 < x" "x \<le> y"
  have "of_nat b powi (mag b x) < (of_nat b powi (mag b y + 1) :: rat)"
    using mag_bounds [OF base x(1)] mag_bounds [OF base, of y] x by linarith
  then show ?thesis using powi_less_imp by fastforce
qed

lemma round_mono_pos:
  assumes "0 < x" and "x \<le> y"
  shows "sig_round b p x \<le> sig_round b p y"
proof (cases "mag b x = mag b y")
  case True
  have u: "sig_ulp b p x = sig_ulp b p y" using assms True by (simp add: sig_ulp_def)
  have "x / sig_ulp b p x \<le> y / sig_ulp b p x"
    using assms ulp_pos [of x] by (simp add: divide_right_mono)
  from rne_mono [OF this] show ?thesis
    using assms ulp_pos [of x] by (simp add: sig_round_def u [symmetric] mult_right_mono)
next
  case False
  with mag_mono [OF assms] have "mag b x + 1 \<le> mag b y" by simp
  then have "of_nat b powi (mag b x + 1) \<le> (of_nat b powi (mag b y) :: rat)" by (rule powi_le)
  then show ?thesis
    using round_le_pow [OF assms(1)] round_ge_pow [of y] assms by linarith
qed

lemma round_mono:
  assumes "x \<le> y"
  shows "sig_round b p x \<le> sig_round b p y"
proof -
  consider "0 < x" | "y < 0" | "x \<le> 0" "0 \<le> y" by linarith
  then show ?thesis
  proof cases
    case 1
    with assms show ?thesis by (simp add: round_mono_pos)
  next
    case 2
    with assms have "sig_round b p (- y) \<le> sig_round b p (- x)" by (simp add: round_mono_pos)
    then show ?thesis by (simp add: round_minus)
  next
    case 3
    have "0 \<le> sig_round b p (- x)" using 3 by (simp add: round_nonneg)
    then show ?thesis using 3 round_nonneg [of y] by (simp add: round_minus)
  qed
qed


text \<open>A value with at most \<open>p\<close> digits is represented exactly.\<close>

lemma round_exact_aux:
  assumes "0 < m" and "m \<le> int b ^ p"
  shows "sig_round b p (of_int m * of_nat b powi k) = of_int m * of_nat b powi k"
proof -
  define x where "x = (of_int m * of_nat b powi k :: rat)"
  have x: "0 < x" using assms b_pos by (simp add: x_def zero_less_power_int)
  define e where "e = mag b x"
  have ub: "x \<le> of_nat b powi (int p + k)"
  proof -
    have "of_int m \<le> (of_nat b ^ p :: rat)"
      using assms(2) by (metis of_int_le_iff of_int_of_nat_eq of_int_power)
    then have "x \<le> of_nat b ^ p * of_nat b powi k"
      unfolding x_def using b_pos by (intro mult_right_mono) (simp_all add: zero_less_power_int less_imp_le)
    then show ?thesis by (simp add: powi_add)
  qed
  have eb: "of_nat b powi e \<le> x" using mag_bounds [OF base x] by (simp add: e_def)
  have "of_nat b powi e < (of_nat b powi (int p + k + 1) :: rat)"
    using eb ub b_gt1 by (meson le_less_trans less_add_one order_trans power_int_strict_increasing)
  then have "e \<le> int p + k" using powi_less_imp by fastforce
  then consider "e \<le> int p - 1 + k" | "e = int p + k" by linarith
  then have "\<exists>n. x / sig_ulp b p x = of_int n"
  proof cases
    case 1
    then obtain j where j: "k = e - (int p - 1) + int j"
      using zle_iff_zadd [of "e - (int p - 1)" k] by (auto simp: algebra_simps)
    have "x = of_int m * (of_nat b powi (e - (int p - 1)) * of_nat b powi int j)"
      unfolding x_def powi_add [symmetric] using j by simp
    then have "x = of_int (m * int b ^ j) * sig_ulp b p x"
      using x by (simp add: sig_ulp_def e_def ac_simps)
    then have "x / sig_ulp b p x = of_int (m * int b ^ j)"
      using ulp_pos [of x] by (metis less_irrefl nonzero_mult_div_cancel_right)
    then show ?thesis by blast
  next
    case 2
    with eb ub have "x = of_nat b powi e" by simp
    also have "\<dots> = of_nat b powi (int (p - 1)) * sig_ulp b p x"
      using x prec by (simp add: sig_ulp_def e_def powi_add [symmetric])
    finally have "x / sig_ulp b p x = of_int (int b ^ (p - 1))"
      using ulp_pos [of x] by (simp add: field_simps)
    then show ?thesis by blast
  qed
  then obtain n where n: "x / sig_ulp b p x = of_int n" ..
  then have "sig_round b p x = of_int n * sig_ulp b p x" using x by (simp add: sig_round_def)
  also have "\<dots> = x" using n ulp_pos [of x] by (simp add: field_simps)
  finally have "sig_round b p x = x" .
  then show ?thesis by (simp add: x_def)
qed

lemma round_exact:
  assumes "\<bar>m\<bar> \<le> int b ^ p"
  shows "sig_round b p (of_int m * of_nat b powi k) = of_int m * of_nat b powi k"
proof -
  consider "m = 0" | "0 < m" | "m < 0" by linarith
  then show ?thesis
  proof cases
    case 2
    with assms show ?thesis by (simp add: round_exact_aux)
  next
    case 3
    with assms have "sig_round b p (of_int (- m) * of_nat b powi k) = of_int (- m) * of_nat b powi k"
      by (intro round_exact_aux) auto
    then show ?thesis using round_minus [of "of_int m * of_nat b powi k"] by simp
  qed simp
qed

lemma round_int: "\<bar>m\<bar> \<le> int b ^ p \<Longrightarrow> sig_round b p (of_int m) = of_int m"
  using round_exact [of m 0] by simp

lemma round_form:
  assumes "sig_round b p x = x" and "0 < x"
  shows "\<exists>m. x = of_int m * of_nat b powi (mag b x - (int p - 1)) \<and> 0 < m \<and> m \<le> int b ^ p"
proof -
  define m where "m = rne (x / sig_ulp b p x)"
  have eq: "x = of_int m * sig_ulp b p x" using assms by (simp add: sig_round_def m_def)
  have "x / sig_ulp b p x \<le> of_int (int (b ^ p))" using scaled_bounds [OF assms(2)] by simp
  from rne_mono [OF this] have "m \<le> int b ^ p" by (simp add: m_def)
  moreover have "0 < m"
  proof (rule ccontr)
    assume "\<not> 0 < m"
    then have "x \<le> 0" using eq ulp_pos [of x] by (metis mult_nonpos_nonneg less_imp_le not_le of_int_0 of_int_le_iff)
    with assms show False by simp
  qed
  ultimately show ?thesis using eq assms by (auto simp: sig_ulp_def)
qed

lemma round_round: "sig_round b p (sig_round b p x) = sig_round b p x"
proof -
  have pos: "sig_round b p (sig_round b p y) = sig_round b p y" if "0 < y" for y
  proof -
    define m where "m = rne (y / sig_ulp b p y)"
    have "y / sig_ulp b p y \<le> of_int (int (b ^ p))" using scaled_bounds [OF that] by simp
    from rne_mono [OF this] have "m \<le> int b ^ p" by (simp add: m_def)
    moreover have "0 \<le> y / sig_ulp b p y" using that ulp_pos [of y] by simp
    then have "0 \<le> m" using rne_mono [of 0 "y / sig_ulp b p y"] by (simp add: m_def rne_def)
    ultimately have "\<bar>m\<bar> \<le> int b ^ p" by simp
    moreover have "sig_round b p y = of_int m * of_nat b powi (mag b \<bar>y\<bar> - (int p - 1))"
      using that by (simp add: sig_round_def m_def sig_ulp_def)
    ultimately show ?thesis using round_exact by metis
  qed
  consider "x = 0" | "0 < x" | "0 < - x" by linarith
  then show ?thesis
  proof cases
    case 3
    from pos [OF this] show ?thesis by (simp add: round_minus)
  qed (simp_all add: pos)
qed

lemma round_err_ulp:
  assumes "0 < x"
  shows "\<bar>sig_round b p x - x\<bar> \<le> 1 / 2 * sig_ulp b p x"
proof -
  define s where "s = sig_ulp b p x"
  have s: "0 < s" by (simp add: s_def ulp_pos)
  have "sig_round b p x - x = (of_int (rne (x / s)) - x / s) * s"
    using assms s by (simp add: sig_round_def s_def algebra_simps)
  then show ?thesis
    using rne_err [of "x / s"] s by (simp only: s_def abs_mult abs_of_pos) (rule mult_right_mono, auto)
qed

lemma ulp_le:
  assumes "0 < x" and "x < of_nat b powi (e + 1)"
  shows "sig_ulp b p x \<le> of_nat b powi (e - (int p - 1))"
proof -
  have "of_nat b powi (mag b x) < (of_nat b powi (e + 1) :: rat)"
    using mag_bounds [OF base assms(1)] assms(2) by linarith
  then have "mag b x \<le> e" using powi_less_imp by fastforce
  then show ?thesis using assms(1) by (simp add: sig_ulp_def powi_le)
qed

lemma round_err:
  assumes "0 < x"
  shows "\<bar>sig_round b p x - x\<bar> \<le> x / (2 * of_nat b ^ (p - 1))"
proof -
  define s where "s = sig_ulp b p x"
  have s: "0 < s" by (simp add: s_def ulp_pos)
  have "\<bar>sig_round b p x - x\<bar> \<le> 1 / 2 * s" using round_err_ulp [OF assms] by (simp add: s_def)
  moreover have "of_nat b ^ (p - 1) * s \<le> x"
    using scaled_bounds [OF assms] s by (simp add: s_def pos_le_divide_eq)
  moreover have "0 < (of_nat b ^ (p - 1) :: rat)" using b_pos by simp
  ultimately have B: "0 < (of_nat b ^ (p - 1) :: rat)" "of_nat b ^ (p - 1) * s \<le> x"
    and err: "\<bar>sig_round b p x - x\<bar> \<le> 1 / 2 * s" by blast+
  have "of_nat b ^ (p - 1) * \<bar>sig_round b p x - x\<bar> \<le> of_nat b ^ (p - 1) * (1 / 2 * s)"
    using err B(1) by (intro mult_left_mono) simp_all
  also have "\<dots> \<le> x / 2" using B(2) by simp
  finally show ?thesis using B(1) by (simp add: field_simps)
qed

end

section \<open>Binary64 operations\<close>

definition f64 :: "rat \<Rightarrow> rat" where "f64 = sig_round 2 53"

definition fint :: "int \<Rightarrow> rat" where "fint n = f64 (of_int n)"

definition fadd :: "rat \<Rightarrow> rat \<Rightarrow> rat" where "fadd x y = f64 (x + y)"

definition fsub :: "rat \<Rightarrow> rat \<Rightarrow> rat" where "fsub x y = f64 (x - y)"

definition fmul :: "rat \<Rightarrow> rat \<Rightarrow> rat" where "fmul x y = f64 (x * y)"

definition fdiv :: "rat \<Rightarrow> rat \<Rightarrow> rat" where "fdiv x y = f64 (x / y)"

lemmas f64_ops = fint_def fadd_def fsub_def fmul_def fdiv_def

interpretation b64: sig_format 2 53
  by unfold_locales simp_all

definition is_f64 :: "rat \<Rightarrow> bool" where "is_f64 x \<longleftrightarrow> f64 x = x"

lemma f64_0 [simp, f64_simps]: "f64 0 = 0"
  by (simp add: f64_def)

lemma f64_mono: "x \<le> y \<Longrightarrow> f64 x \<le> f64 y"
  by (simp add: f64_def b64.round_mono)

lemma f64_int: "\<bar>n\<bar> \<le> 2 ^ 53 \<Longrightarrow> f64 (of_int n) = of_int n"
  using b64.round_int [of n] by (simp add: f64_def)

lemma fint_exact [f64_simps]: "\<bar>n\<bar> \<le> 2 ^ 53 \<Longrightarrow> fint n = of_int n"
  by (simp add: fint_def f64_int)

lemma f64_nonneg: "0 \<le> x \<Longrightarrow> 0 \<le> f64 x"
  by (simp add: f64_def b64.round_nonneg)

lemma f64_pos: "0 < x \<Longrightarrow> 0 < f64 x"
  by (simp add: f64_def b64.round_pos)

lemma is_f64_f64 [simp, f64_simps]: "is_f64 (f64 x)"
  by (simp add: is_f64_def f64_def b64.round_round)

lemma is_f64_int: "\<bar>n\<bar> \<le> 2 ^ 53 \<Longrightarrow> is_f64 (of_int n)"
  by (simp add: is_f64_def f64_int)

lemma f64_le: "is_f64 y \<Longrightarrow> x \<le> y \<Longrightarrow> f64 x \<le> y"
  using f64_mono [of x y] by (simp add: is_f64_def)

lemma f64_ge: "is_f64 y \<Longrightarrow> y \<le> x \<Longrightarrow> y \<le> f64 x"
  using f64_mono [of y x] by (simp add: is_f64_def)

lemma f64_err: "0 \<le> x \<Longrightarrow> \<bar>f64 x - x\<bar> \<le> x / 2 ^ 53"
  using b64.round_err [of x] by (cases "x = 0") (simp_all add: f64_def)

lemma f64_upper_abs: "0 \<le> x \<Longrightarrow> f64 x \<le> x + x / 2 ^ 53"
  using f64_err [of x] by linarith

lemma f64_upper: "0 \<le> x \<Longrightarrow> f64 x \<le> x * (1 + 1 / 2 ^ 53)"
proof -
  assume "0 \<le> x"
  then have "f64 x - x \<le> x / 2 ^ 53" using f64_err [of x] by linarith
  then show ?thesis by (simp add: algebra_simps)
qed

lemma f64_lower: "0 \<le> x \<Longrightarrow> x * (1 - 1 / 2 ^ 53) \<le> f64 x"
proof -
  assume "0 \<le> x"
  then have "x - f64 x \<le> x / 2 ^ 53" using f64_err [of x] by linarith
  then show ?thesis by (simp add: algebra_simps)
qed

text \<open>
  Taking one token is exact: subtracting 1 from a float between 1 and \<open>2 ^ 53\<close> does not round.
\<close>

lemma fsub_one_exact:
  assumes "is_f64 t" and "1 \<le> t" and "t \<le> 2 ^ 53"
  shows "fsub t 1 = t - 1"
proof (cases "t = 2 ^ 53")
  case True
  then show ?thesis using f64_int [of "2 ^ 53 - 1"] by (simp add: fsub_def)
next
  case False
  have t: "0 < t" "sig_round 2 53 t = t" using assms by (simp_all add: is_f64_def f64_def)
  define k where "k = mag 2 t - 52"
  obtain m where m: "t = of_int m * 2 powi k" "0 < m" "m \<le> 2 ^ 53"
    using b64.round_form [OF t(2,1)] by (auto simp: k_def)
  have "2 powi (mag 2 t) < (2 powi 53 :: rat)"
    using mag_bounds [of 2 t] t False assms(3) by simp
  then have "k \<le> 0" using b64.powi_less_imp [of "mag 2 t" 53] by (simp add: k_def)
  then obtain j where j: "k = - int j" by (metis nonpos_int_cases)
  have two: "1 = (of_int (2 ^ j) * 2 powi k :: rat)"
    by (simp add: j power_int_minus)
  have "(2 powi k :: rat) * of_int (2 ^ j) \<le> 2 powi k * of_int m"
    using assms(2) m(1) two by (simp add: mult.commute)
  moreover have "0 < (2 powi k :: rat)" by (simp add: zero_less_power_int)
  ultimately have "(2 :: int) ^ j \<le> m"
    by (simp only: mult_le_cancel_left_pos of_int_le_iff)
  then have small: "\<bar>m - 2 ^ j\<bar> \<le> int 2 ^ 53"
  proof -
    have "0 < (2 :: int) ^ j" by simp
    with \<open>2 ^ j \<le> m\<close> m(3) show ?thesis by (simp del: zero_less_power) 
  qed
  from b64.round_exact [OF small, of k]
  have "f64 (of_int (m - 2 ^ j) * 2 powi k) = of_int (m - 2 ^ j) * 2 powi k"
    by (simp add: f64_def)
  moreover have "t - 1 = of_int (m - 2 ^ j) * 2 powi k"
    using m(1) two by (simp add: algebra_simps)
  ultimately show ?thesis by (simp add: fsub_def)
qed

text \<open>
  Conversion of a float to \<open>int64\<close> truncates.  Go leaves an out-of-range conversion to the
  implementation; the value below is the one of the amd64 instruction.
\<close>

definition trunc_rat :: "rat \<Rightarrow> int" where
  "trunc_rat x = (if 0 \<le> x then \<lfloor>x\<rfloor> else \<lceil>x\<rceil>)"

definition f2i :: "rat \<Rightarrow> int" where
  "f2i x = (let n = trunc_rat x in if is_int64 n then n else min_int64)"

lemma f2i_in_range: "0 \<le> x \<Longrightarrow> x \<le> 2 ^ 53 \<Longrightarrow> f2i x = \<lfloor>x\<rfloor>"
proof -
  assume x: "0 \<le> x" "x \<le> 2 ^ 53"
  then have "\<lfloor>x\<rfloor> \<le> 2 ^ 53" by (simp add: floor_le_iff) 
  with x show ?thesis
    by (simp add: f2i_def trunc_rat_def is_int64_def min_int64_def max_int64_def)
qed

text \<open>Go's \<open>math.Ceil\<close> is exact; \<open>math.Min\<close> on finite arguments is \<open>min\<close>.\<close>

definition fceil :: "rat \<Rightarrow> rat" where "fceil x = of_int \<lceil>x\<rceil>"

section \<open>Lua numbers as text\<close>

text \<open>
  Lua 5.1, which Redis embeds, prints a number with the C format \<open>%.14g\<close>: 14 significant decimal
  digits.  Reading the text back rounds to binary64 again.
\<close>

definition lua_num_of_text :: "rat \<Rightarrow> rat" where
  "lua_num_of_text x = f64 (sig_round 10 14 x)"

interpretation d14: sig_format 10 14
  by unfold_locales simp_all

lemma lua_text_mono: "x \<le> y \<Longrightarrow> lua_num_of_text x \<le> lua_num_of_text y"
  by (simp add: lua_num_of_text_def f64_mono d14.round_mono)

lemma lua_text_int: "\<bar>n\<bar> \<le> 10 ^ 14 \<Longrightarrow> lua_num_of_text (of_int n) = of_int n"
  using d14.round_int [of n] by (simp add: lua_num_of_text_def f64_int)

lemma lua_text_nonneg: "0 \<le> x \<Longrightarrow> 0 \<le> lua_num_of_text x"
  by (simp add: lua_num_of_text_def f64_nonneg d14.round_nonneg)

lemma lua_text_err:
  assumes "0 \<le> x"
  shows "\<bar>lua_num_of_text x - x\<bar> \<le> x / 10 ^ 13"
proof (cases "x = 0")
  case True
  then show ?thesis by (simp add: lua_num_of_text_def)
next
  case False
  with assms have x: "0 < x" by simp
  define y where "y = sig_round 10 14 x"
  have y: "\<bar>y - x\<bar> \<le> x / (2 * 10 ^ 13)" using d14.round_err [OF x] by (simp add: y_def)
  have "0 \<le> y" using d14.round_nonneg [OF assms] by (simp add: y_def)
  then have "\<bar>f64 y - y\<bar> \<le> y / 2 ^ 53" by (rule f64_err)
  then have "\<bar>f64 y - x\<bar> \<le> y / 2 ^ 53 + x / (2 * 10 ^ 13)" using y by linarith
  also have "y / 2 ^ 53 \<le> x * (1 + 1 / (2 * 10 ^ 13)) / 2 ^ 53"
    using abs_le_D1 [OF y] by (intro divide_right_mono) (simp_all add: field_simps)
  also have "x * (1 + 1 / (2 * 10 ^ 13)) / 2 ^ 53 + x / (2 * 10 ^ 13) \<le> x / 10 ^ 13"
    using x by (simp add: field_simps)
  finally show ?thesis by (simp add: lua_num_of_text_def y_def)
qed

text \<open>Below \<open>10 ^ 10\<close>, where Unix times lie, the text keeps four decimals.\<close>

lemma lua_text_time_err:
  assumes "0 \<le> x" and "x < 10 ^ 10"
  shows "\<bar>lua_num_of_text x - x\<bar> \<le> 52 / 1000000"
proof (cases "x = 0")
  case True
  then show ?thesis by (simp add: lua_num_of_text_def)
next
  case False
  with assms have x: "0 < x" by simp
  define y where "y = sig_round 10 14 x"
  have "sig_ulp 10 14 x \<le> 10 powi (- 4)" using d14.ulp_le [OF x, of 9] assms(2) by simp
  then have y: "\<bar>y - x\<bar> \<le> 1 / 20000" using d14.round_err_ulp [OF x] by (simp add: y_def power_int_def power_divide)
  have "0 \<le> y" using d14.round_nonneg [OF assms(1)] by (simp add: y_def)
  then have "\<bar>f64 y - y\<bar> \<le> y / 2 ^ 53" by (rule f64_err)
  moreover have "y / 2 ^ 53 \<le> (10 ^ 10 + 1) / 2 ^ 53"
    using abs_le_D1 [OF y] assms(2) by (intro divide_right_mono) simp_all
  ultimately have "\<bar>f64 y - x\<bar> \<le> (10 ^ 10 + 1) / 2 ^ 53 + 1 / 20000" using y by linarith
  also have "\<dots> \<le> 52 / 1000000" by simp
  finally show ?thesis by (simp add: lua_num_of_text_def y_def)
qed

end
