(* ===== verification/Limiter.thy ===== *)
theory Limiter
  imports Float64
begin

text \<open>
  Package \<open>ratelimiter\<close> (\<open>ratelimiter.go\<close>, \<open>testclock.go\<close>): the result every rate-limiting
  algorithm reports, Go's durations and instants, and the contract of the \<open>Limiter\<close> interface as
  a locale.  The clock of an algorithm is an argument of its \<open>Allow\<close>: the instant \<open>now\<close> that
  \<open>Clock.Now\<close> returned for that call, any integer, not necessarily later than the one before.
\<close>

section \<open>Instants and durations\<close>

text \<open>
  An instant is a number of nanoseconds, a duration an \<open>int64\<close> of nanoseconds.
  \<open>Time.Sub\<close> saturates at the ends of the duration range; \<open>Time.Add\<close> is exact.
\<close>

type_synonym time = int
type_synonym duration = int

abbreviation Second :: duration where "Second \<equiv> 1000000000"
abbreviation Millisecond :: duration where "Millisecond \<equiv> 1000000"

definition time_sub :: "time \<Rightarrow> time \<Rightarrow> duration" where
  "time_sub t u = max min_int64 (min max_int64 (t - u))"

definition time_add :: "time \<Rightarrow> duration \<Rightarrow> time" where
  "time_add t d = t + d"

lemma time_sub_exact [go_arith]: "is_int64 (t - u) \<Longrightarrow> time_sub t u = t - u"
  by (simp add: time_sub_def is_int64_def)

lemma time_sub_self [simp]: "time_sub t t = 0"
  by (simp add: time_sub_def min_int64_def max_int64_def)

lemma time_sub_pos_iff: "0 < time_sub t u \<longleftrightarrow> u < t"
  by (auto simp: time_sub_def min_int64_def max_int64_def max_def min_def)

lemma time_sub_int64: "is_int64 (time_sub t u)"
  by (simp add: time_sub_def is_int64_def min_int64_def max_int64_def)

lemma time_sub_le: "u \<le> t \<Longrightarrow> time_sub t u \<le> t - u"
  by (auto simp: time_sub_def min_int64_def max_int64_def)

text \<open>\<open>Duration.Seconds\<close>: whole seconds plus the remainder over \<open>1e9\<close>, in floating point.\<close>

definition seconds :: "duration \<Rightarrow> rat" where
  "seconds d = fadd (fint (go_div d Second)) (fdiv (fint (go_mod d Second)) 1000000000)"

lemma seconds_0 [simp]: "seconds 0 = 0"
  by (simp add: seconds_def go_div_def go_mod_def f64_ops)

lemma seconds_nonneg_form:
  assumes "0 \<le> d" and "is_int64 d"
  shows "seconds d = f64 (of_int (d div Second) + f64 (of_int (d mod Second) / 1000000000))"
proof -
  have "d div Second \<le> max_int64 div Second"
    using assms(2) by (intro zdiv_mono1) (simp_all add: is_int64_def)
  then have q: "0 \<le> d div Second" "d div Second \<le> 2 ^ 53"
    using assms(1) by (simp_all add: max_int64_def)
  have r: "0 \<le> d mod Second" "d mod Second \<le> 2 ^ 53"
    using pos_mod_bound [of Second d] by simp_all
  have "fint (d div Second) = of_int (d div Second)" "fint (d mod Second) = of_int (d mod Second)"
    using q r by (simp_all add: fint_exact)
  then show ?thesis using assms(1)
    by (simp add: seconds_def go_div_nonneg go_mod_nonneg fadd_def fdiv_def)
qed

lemma seconds_nonneg: "0 \<le> d \<Longrightarrow> is_int64 d \<Longrightarrow> 0 \<le> seconds d"
  by (simp add: seconds_nonneg_form f64_nonneg)

lemma seconds_split: "(of_int d :: rat) / 1000000000 = of_int (d div Second) + of_int (d mod Second) / 1000000000"
proof -
  have "(of_int d :: rat) = of_int (d div Second * Second + d mod Second)" by simp
  also have "\<dots> = of_int (d div Second) * 1000000000 + of_int (d mod Second)"
    by (simp only: of_int_add of_int_mult of_int_numeral)
  finally show ?thesis by (simp add: field_simps)
qed

text \<open>The two roundings of \<open>Seconds\<close> are relative errors of \<open>2 ^ -53\<close> each.\<close>

lemma seconds_bounds:
  assumes "0 \<le> d" and "is_int64 d"
  shows "of_int d / 1000000000 * (1 - 1 / 2 ^ 52) \<le> seconds d
       \<and> seconds d \<le> of_int d / 1000000000 * (1 + 1 / 2 ^ 51)"
proof -
  define a where "a = (of_int (d div Second) :: rat)"
  define r where "r = (of_int (d mod Second) / 1000000000 :: rat)"
  have a: "0 \<le> a" using assms(1) by (simp add: a_def)
  have r: "0 \<le> r" by (simp add: r_def)
  have sec: "seconds d = f64 (a + f64 r)" by (simp add: seconds_nonneg_form [OF assms] a_def r_def)
  have d: "of_int d / 1000000000 = a + r" using seconds_split [of d] by (simp add: a_def r_def)
  have fr: "r * (1 - 1 / 2 ^ 53) \<le> f64 r" "f64 r \<le> r * (1 + 1 / 2 ^ 53)"
    using f64_lower [OF r] f64_upper [OF r] by blast+
  have nn: "0 \<le> a + f64 r" using a f64_nonneg [OF r] by simp
  have "seconds d \<le> (a + f64 r) * (1 + 1 / 2 ^ 53)" unfolding sec by (rule f64_upper [OF nn])
  also have "\<dots> \<le> (a + r) * (1 + 1 / 2 ^ 53) * (1 + 1 / 2 ^ 53)"
    using fr(2) a by (intro mult_right_mono) (simp_all add: algebra_simps)
  also have "\<dots> = (a + r) * ((1 + 1 / 2 ^ 53) * (1 + 1 / 2 ^ 53))" by (simp only: mult.assoc)
  also have "\<dots> \<le> (a + r) * (1 + 1 / 2 ^ 51)" using a r by (intro mult_left_mono) simp_all
  finally have up: "seconds d \<le> (a + r) * (1 + 1 / 2 ^ 51)" .
  have "(a + r) * (1 - 1 / 2 ^ 52) \<le> (a + r) * ((1 - 1 / 2 ^ 53) * (1 - 1 / 2 ^ 53))"
    using a r by (intro mult_left_mono) simp_all
  also have "\<dots> = (a + r) * (1 - 1 / 2 ^ 53) * (1 - 1 / 2 ^ 53)" by (simp only: mult.assoc)
  also have "\<dots> \<le> (a + f64 r) * (1 - 1 / 2 ^ 53)"
    using fr(1) a by (intro mult_right_mono) (simp_all add: algebra_simps)
  also have "\<dots> \<le> seconds d" unfolding sec by (rule f64_lower [OF nn])
  finally show ?thesis using up by (simp add: d)
qed

lemma seconds_whole: "0 \<le> n \<Longrightarrow> n \<le> 2 ^ 33 \<Longrightarrow> seconds (n * Second) = of_int n"
  by (simp add: seconds_nonneg_form is_int64_def min_int64_def max_int64_def f64_int)

section \<open>Results\<close>

record Result =
  Allowed :: bool
  Limit :: int
  Remaining :: int
  ResetAfter :: duration
  RetryAfter :: duration

text \<open>Errors: a rejected configuration value, or a failed script evaluation.\<close>

datatype limiter_error =
    NonPositive string int
  | NilClient string
  | ScriptError string
  | BadReply string

text \<open>
  The contract of \<open>Allow\<close>: the ceiling is echoed, \<open>Remaining\<close> counts further requests and so is
  below the ceiling and zero on denial, \<open>RetryAfter\<close> is zero on success, durations are not
  negative.
\<close>

definition wf_result :: "int \<Rightarrow> Result \<Rightarrow> bool" where
  "wf_result limit r \<longleftrightarrow>
     Limit r = limit \<and> 0 \<le> Remaining r \<and> Remaining r < limit
     \<and> (\<not> Allowed r \<longrightarrow> Remaining r = 0) \<and> (Allowed r \<longrightarrow> RetryAfter r = 0)
     \<and> 0 \<le> RetryAfter r \<and> 0 \<le> ResetAfter r"

section \<open>Sequences of calls\<close>

text \<open>
  A limiter serialises its calls; \<open>run_calls\<close> makes them in that order.  \<open>admitted\<close> counts the
  calls for one key that were let through, \<open>calls_for\<close> all calls for it.
\<close>

type_synonym 's allow_fun = "'s \<Rightarrow> time \<Rightarrow> string \<Rightarrow> (limiter_error, Result) result \<times> 's"

fun run_calls ::
  "'s allow_fun \<Rightarrow> 's \<Rightarrow> (time \<times> string) list \<Rightarrow> (limiter_error, Result) result list \<times> 's" where
  "run_calls allow s [] = ([], s)"
| "run_calls allow s ((now, key) # reqs) =
     (let (r, s') = allow s now key; (rs, s'') = run_calls allow s' reqs in (r # rs, s''))"

lemma run_calls_Cons:
  "run_calls allow s ((now, key) # reqs) =
     (fst (allow s now key) # fst (run_calls allow (snd (allow s now key)) reqs),
      snd (run_calls allow (snd (allow s now key)) reqs))"
  by (simp add: split_def Let_def)

declare run_calls.simps(2) [simp del]

definition granted :: "(limiter_error, Result) result \<Rightarrow> bool" where
  "granted r = (case r of Inl _ \<Rightarrow> False | Inr res \<Rightarrow> Allowed res)"

definition admitted :: "'s allow_fun \<Rightarrow> string \<Rightarrow> 's \<Rightarrow> (time \<times> string) list \<Rightarrow> nat" where
  "admitted allow key s reqs =
     length (filter (\<lambda>((_, k), r). k = key \<and> granted r) (zip reqs (fst (run_calls allow s reqs))))"

definition calls_for :: "string \<Rightarrow> (time \<times> string) list \<Rightarrow> nat" where
  "calls_for key reqs = length (filter (\<lambda>(_, k). k = key) reqs)"

lemma admitted_Nil [simp]: "admitted allow key s [] = 0"
  by (simp add: admitted_def)

lemma admitted_Cons:
  "admitted allow key s ((now, k) # reqs) =
     (if k = key \<and> granted (fst (allow s now k)) then 1 else 0)
     + admitted allow key (snd (allow s now k)) reqs"
  by (auto simp: admitted_def run_calls_Cons)

lemma calls_for_simps [simp]:
  "calls_for key [] = 0"
  "calls_for key ((now, k) # reqs) = (if k = key then 1 else 0) + calls_for key reqs"
  by (simp_all add: calls_for_def)

lemma run_calls_length: "length (fst (run_calls allow s reqs)) = length reqs"
  by (induction reqs arbitrary: s) (auto simp: run_calls_Cons)

section \<open>The interface\<close>

text \<open>
  A limiter is a state with an \<open>Allow\<close> operation.  \<open>allow s now key\<close> is one call at the instant
  \<open>now\<close>; \<open>view s key\<close> is the part of the state that belongs to \<open>key\<close>; \<open>valid\<close> delimits the instants
  for which the contract is claimed.
\<close>

locale limiter =
  fixes allow :: "'s \<Rightarrow> time \<Rightarrow> string \<Rightarrow> (limiter_error, Result) result \<times> 's"
    and view :: "'s \<Rightarrow> string \<Rightarrow> 'v"
    and inv :: "'s \<Rightarrow> bool"
    and valid :: "time \<Rightarrow> bool"
    and limit :: int
  assumes allow_inv: "inv s \<Longrightarrow> valid now \<Longrightarrow> inv (snd (allow s now key))"
    and allow_wf: "inv s \<Longrightarrow> valid now \<Longrightarrow> fst (allow s now key) = Inr r \<Longrightarrow> wf_result limit r"
    and allow_frame: "key' \<noteq> key \<Longrightarrow> view (snd (allow s now key)) key' = view s key'"
begin

lemma run_inv:
  "inv s \<Longrightarrow> \<forall>(t, k) \<in> set reqs. valid t \<Longrightarrow> inv (snd (run_calls allow s reqs))"
proof (induction reqs arbitrary: s)
  case (Cons req reqs)
  obtain now key where req: "req = (now, key)" by (cases req)
  have "inv (snd (allow s now key))" using Cons.prems req by (intro allow_inv) auto
  from Cons.IH [OF this] Cons.prems(2) show ?case by (simp add: req run_calls_Cons)
qed simp

lemma run_wf:
  "inv s \<Longrightarrow> \<forall>(t, k) \<in> set reqs. valid t \<Longrightarrow> Inr r \<in> set (fst (run_calls allow s reqs)) \<Longrightarrow> wf_result limit r"
proof (induction reqs arbitrary: s)
  case (Cons req reqs)
  obtain now key where req: "req = (now, key)" by (cases req)
  have v: "valid now" "\<forall>(t, k) \<in> set reqs. valid t" using Cons.prems(2) req by auto
  have "inv (snd (allow s now key))" using Cons.prems(1) v(1) by (rule allow_inv)
  from Cons.IH [OF this v(2)]
  have IH: "Inr r \<in> set (fst (run_calls allow (snd (allow s now key)) reqs)) \<Longrightarrow> wf_result limit r" .
  show ?case using Cons.prems(3) IH allow_wf [OF Cons.prems(1) v(1), of key r]
    by (auto simp: req run_calls_Cons)
qed simp

text \<open>Other keys' calls neither see nor change a key's part of the state.\<close>

lemma run_frame:
  "key \<notin> snd ` set reqs \<Longrightarrow> view (snd (run_calls allow s reqs)) key = view s key"
proof (induction reqs arbitrary: s)
  case (Cons req reqs)
  obtain now k where req: "req = (now, k)" by (cases req)
  have "view (snd (allow s now k)) key = view s key"
    using Cons.prems by (intro allow_frame) (auto simp: req)
  moreover have "key \<notin> snd ` set reqs" using Cons.prems by auto
  ultimately show ?case
    using Cons.IH [of "snd (allow s now k)"] by (simp add: req run_calls_Cons)
qed simp

end

section \<open>The manual clock\<close>

text \<open>
  \<open>ManualClock\<close> (\<open>testclock.go\<close>): a clock that moves only when told to.  Its mutex makes each
  method one atomic step on the stored instant.
\<close>

record ManualClock = clock_now :: time

definition NewManualClock :: "time \<Rightarrow> ManualClock" where
  "NewManualClock start = \<lparr>clock_now = start\<rparr>"

definition ManualClock_Now :: "ManualClock \<Rightarrow> time" where
  "ManualClock_Now c = clock_now c"

definition ManualClock_Advance :: "ManualClock \<Rightarrow> duration \<Rightarrow> ManualClock" where
  "ManualClock_Advance c d = c\<lparr>clock_now := time_add (clock_now c) d\<rparr>"

definition ManualClock_Set :: "ManualClock \<Rightarrow> time \<Rightarrow> ManualClock" where
  "ManualClock_Set c t = c\<lparr>clock_now := t\<rparr>"

end
