(* ===== verification/TokenBucket.thy ===== *)
theory TokenBucket
  imports Limiter
begin

text \<open>
  The in-memory token bucket (\<open>ratelimiter/algorithms/tokenbucket.go\<close>).  The mutex of the Go type
  makes one \<open>Allow\<close> an atomic step on the map of buckets, so a call is a function from the state to
  the result and the new state.
\<close>

section \<open>The code\<close>

record bucketState =
  tokens :: rat
  lastSeen :: time

record TokenBucket =
  capacity :: int
  refillRate :: rat
  buckets :: "string \<rightharpoonup> bucketState"

definition NewTokenBucket :: "int \<Rightarrow> duration \<Rightarrow> (limiter_error, TokenBucket) result" where
  "NewTokenBucket cap interval =
     (if cap \<le> 0 then Inl (NonPositive ''token bucket: capacity'' cap)
      else if interval \<le> 0 then Inl (NonPositive ''token bucket: interval'' interval)
      else Inr \<lparr>capacity = cap, refillRate = fdiv (fint cap) (seconds interval), buckets = Map.empty\<rparr>)"

definition refill :: "TokenBucket \<Rightarrow> bucketState \<Rightarrow> time \<Rightarrow> bucketState" where
  "refill tb b now =
     (let elapsed = time_sub now (lastSeen b);
          b' = (if 0 < elapsed
                then b\<lparr>tokens := min (fint (capacity tb))
                                     (fadd (tokens b) (fmul (seconds elapsed) (refillRate tb)))\<rparr>
                else b)
      in b'\<lparr>lastSeen := now\<rparr>)"

definition durationFor :: "TokenBucket \<Rightarrow> rat \<Rightarrow> duration" where
  "durationFor tb n =
     (if n \<le> 0 then 0 else f2i (fmul (fdiv n (refillRate tb)) (fint Second)))"

definition TokenBucket_Allow ::
  "TokenBucket \<Rightarrow> time \<Rightarrow> string \<Rightarrow> (limiter_error, Result) result \<times> TokenBucket" where
  "TokenBucket_Allow tb now key =
     (let b = (case buckets tb key of
                 None \<Rightarrow> \<lparr>tokens = fint (capacity tb), lastSeen = now\<rparr>
               | Some b \<Rightarrow> refill tb b now);
          b' = (if 1 \<le> tokens b then b\<lparr>tokens := fsub (tokens b) 1\<rparr> else b);
          res = \<lparr>Allowed = (1 \<le> tokens b), Limit = capacity tb,
                 Remaining = (if 1 \<le> tokens b then f2i (tokens b') else 0),
                 ResetAfter = durationFor tb (fsub (fint (capacity tb)) (tokens b')),
                 RetryAfter = (if 1 \<le> tokens b then 0 else durationFor tb (fsub 1 (tokens b)))\<rparr>
      in (Inr res, tb\<lparr>buckets := (buckets tb)(key \<mapsto> b')\<rparr>))"

section \<open>The invariant\<close>

text \<open>
  Every bucket holds between nothing and \<open>capacity\<close> tokens, as a float.  The rate is the one the
  constructor computes from the interval.  The capacity is at most \<open>2 ^ 53\<close>, so that it is a float;
  the interval is at most \<open>2 ^ 62\<close> nanoseconds (146 years), so that no reported wait overflows.
\<close>

definition bucket_ok :: "int \<Rightarrow> bucketState \<Rightarrow> bool" where
  "bucket_ok cap b \<longleftrightarrow> is_f64 (tokens b) \<and> 0 \<le> tokens b \<and> tokens b \<le> of_int cap"

definition tb_inv :: "int \<Rightarrow> duration \<Rightarrow> TokenBucket \<Rightarrow> bool" where
  "tb_inv cap interval tb \<longleftrightarrow>
     0 < cap \<and> cap \<le> 2 ^ 53 \<and> 0 < interval \<and> interval \<le> 2 ^ 62
     \<and> capacity tb = cap \<and> refillRate tb = fdiv (fint cap) (seconds interval)
     \<and> (\<forall>key b. buckets tb key = Some b \<longrightarrow> bucket_ok cap b)"

lemma tb_invD:
  assumes "tb_inv cap interval tb"
  shows "0 < cap" "cap \<le> 2 ^ 53" "0 < interval" "interval \<le> 2 ^ 62" "capacity tb = cap"
    "fint cap = of_int cap" "is_f64 (of_int cap)" "is_int64 interval"
    "buckets tb key = Some b \<Longrightarrow> bucket_ok cap b"
  using assms by (auto simp: tb_inv_def fint_exact is_f64_int is_int64_def min_int64_def max_int64_def)

lemma NewTokenBucket_inv:
  assumes "NewTokenBucket cap interval = Inr tb" and "cap \<le> 2 ^ 53" and "interval \<le> 2 ^ 62"
  shows "tb_inv cap interval tb"
  using assms by (auto simp: NewTokenBucket_def tb_inv_def split: if_splits)

lemma seconds_pos:
  assumes "0 < d" and "is_int64 d"
  shows "0 < seconds d"
proof -
  have "0 < (of_int d :: rat) / 1000000000 * (1 - 1 / 2 ^ 52)" using assms(1) by simp
  then show ?thesis using seconds_bounds [of d] assms by linarith
qed

lemma tb_inv_rate: "tb_inv cap interval tb \<Longrightarrow> refillRate tb = f64 (of_int cap / seconds interval)"
  unfolding tb_inv_def fdiv_def by (simp add: fint_exact)

lemma rate_pos:
  assumes "tb_inv cap interval tb"
  shows "0 < refillRate tb"
proof -
  have "0 < seconds interval" using tb_invD(3,8) [OF assms] by (rule seconds_pos)
  moreover have "0 < (of_int cap :: rat)" using tb_invD(1) [OF assms] by simp
  ultimately have "0 < of_int cap / seconds interval" by (rule divide_pos_pos [rotated])
  then show ?thesis unfolding tb_inv_rate [OF assms] by (rule f64_pos)
qed

text \<open>Even a whole bucket refills in at most about twice the configured interval.\<close>

lemma durationFor_bound:
  assumes "tb_inv cap interval tb" and "x \<le> of_int cap"
  shows "0 \<le> durationFor tb x \<and> is_int64 (durationFor tb x)"
proof (cases "x \<le> 0")
  case True
  then show ?thesis by (simp add: durationFor_def is_int64_def min_int64_def max_int64_def)
next
  case False
  note inv = tb_invD [OF assms(1)]
  define s where "s = seconds interval"
  define r where "r = refillRate tb"
  define u where "u = (1 + 1 / 2 ^ 53 :: rat)"
  define v where "v = (1 - 1 / 2 ^ 53 :: rat)"
  have r: "0 < r" using rate_pos [OF assms(1)] by (simp add: r_def)
  have s: "0 < s" using inv seconds_pos by (simp add: s_def)
  have "of_int cap / s * v \<le> r"
    using inv(1) s f64_lower [of "of_int cap / s"]
    by (simp add: r_def tb_inv_rate [OF assms(1)] s_def v_def)
  then have rs: "of_int cap * v \<le> r * s" using s by (simp add: field_simps)
  have "x * v \<le> of_int cap * v" using assms(2) by (simp add: v_def mult_right_mono)
  with rs have "x * v \<le> r * s" by linarith
  then have q: "x / r \<le> s / v" using r by (simp add: v_def field_simps)
  have x: "0 < x" using False by simp
  have y: "fdiv x r \<le> s / v * u"
  proof -
    have "fdiv x r \<le> x / r * u" using x r f64_upper [of "x / r"] by (simp add: fdiv_def u_def)
    also have "\<dots> \<le> s / v * u" using q by (intro mult_right_mono) (simp_all add: u_def)
    finally show ?thesis .
  qed
  have y0: "0 \<le> fdiv x r" using x r by (simp add: fdiv_def f64_nonneg)
  have "fmul (fdiv x r) (fint Second) \<le> fdiv x r * 1000000000 * u"
    using y0 f64_upper [of "fdiv x r * 1000000000"] by (simp add: fmul_def fint_exact u_def)
  also have "\<dots> \<le> (s / v * u) * 1000000000 * u"
    using y by (intro mult_right_mono) (simp_all add: u_def)
  also have "\<dots> \<le> (of_int interval / 1000000000 * (1 + 1 / 2 ^ 51) / v * u) * 1000000000 * u"
    using seconds_bounds [of interval] inv
    by (intro mult_right_mono divide_right_mono) (simp_all add: s_def u_def v_def)
  also have "\<dots> = of_int interval * ((1 + 1 / 2 ^ 51) / v * u * u)" by (simp add: field_simps)
  also have "\<dots> \<le> of_int interval * (3 / 2)"
    using inv(3) by (intro mult_left_mono) (simp_all add: u_def v_def)
  also have "\<dots> \<le> of_int (2 ^ 62) * (3 / 2)"
    using inv(4) by (intro mult_right_mono of_int_le_iff [THEN iffD2]) simp_all
  finally have le: "fmul (fdiv x r) (fint Second) \<le> of_int (2 ^ 62) * (3 / 2)" .
  have ge: "0 \<le> fmul (fdiv x r) (fint Second)"
    using y0 by (simp add: fmul_def fint_exact f64_nonneg)
  have "\<lfloor>fmul (fdiv x r) (fint Second)\<rfloor> \<le> max_int64"
    using le by (simp add: max_int64_def floor_le_iff)
  with ge False show ?thesis
    by (simp add: durationFor_def r_def f2i_def trunc_rat_def is_int64_def min_int64_def Let_def)
qed

lemma refill_ok:
  assumes "tb_inv cap interval tb" and "bucket_ok cap b"
  shows "bucket_ok cap (refill tb b now)"
proof (cases "0 < time_sub now (lastSeen b)")
  case True
  note inv = tb_invD [OF assms(1)]
  define c where "c = fmul (seconds (time_sub now (lastSeen b))) (refillRate tb)"
  have "0 \<le> c"
    using True rate_pos [OF assms(1)] seconds_nonneg [of "time_sub now (lastSeen b)"] time_sub_int64
    by (simp add: c_def fmul_def f64_nonneg)
  with assms(2) have "0 \<le> fadd (tokens b) c" by (simp add: bucket_ok_def fadd_def f64_nonneg)
  moreover have "is_f64 (min (of_int cap) (fadd (tokens b) c))"
    using inv(7) by (simp add: min_def fadd_def)
  ultimately show ?thesis
    using True inv(1,5,6) by (simp add: refill_def Let_def bucket_ok_def c_def)
next
  case False
  with assms show ?thesis by (simp add: refill_def bucket_ok_def)
qed

text \<open>The bucket an \<open>Allow\<close> looks at: a fresh full one, or the refilled one.\<close>

definition current_bucket :: "TokenBucket \<Rightarrow> time \<Rightarrow> string \<Rightarrow> bucketState" where
  "current_bucket tb now key =
     (case buckets tb key of
        None \<Rightarrow> \<lparr>tokens = fint (capacity tb), lastSeen = now\<rparr>
      | Some b \<Rightarrow> refill tb b now)"

lemma current_bucket_ok: "tb_inv cap interval tb \<Longrightarrow> bucket_ok cap (current_bucket tb now key)"
  using tb_invD(1,5,6,7) [of cap interval tb] refill_ok tb_invD(9) [of cap interval tb]
  by (auto simp: current_bucket_def bucket_ok_def split: option.splits)

text \<open>Under the invariant a granted token is subtracted exactly, and \<open>Remaining\<close> is a floor.\<close>

lemma Allow_granted:
  assumes "tb_inv cap interval tb" and "b = current_bucket tb now key" and "1 \<le> tokens b"
  shows "TokenBucket_Allow tb now key =
    (Inr \<lparr>Allowed = True, Limit = cap, Remaining = \<lfloor>tokens b\<rfloor> - 1,
          ResetAfter = durationFor tb (fsub (of_int cap) (tokens b - 1)), RetryAfter = 0\<rparr>,
     tb\<lparr>buckets := (buckets tb)(key \<mapsto> b\<lparr>tokens := tokens b - 1\<rparr>)\<rparr>)"
proof -
  note inv = tb_invD [OF assms(1)]
  have ok: "bucket_ok cap b" using current_bucket_ok [OF assms(1)] assms(2) by simp
  have le: "tokens b \<le> 2 ^ 53"
  proof -
    have "tokens b \<le> of_int cap" using ok by (simp add: bucket_ok_def)
    also have "\<dots> \<le> of_int (2 ^ 53)" using inv(2) by (simp only: of_int_le_iff)
    finally show ?thesis by simp
  qed
  have sub: "fsub (tokens b) 1 = tokens b - 1"
    using ok assms(3) le by (intro fsub_one_exact) (simp_all add: bucket_ok_def)
  have "f2i (tokens b - 1) = \<lfloor>tokens b\<rfloor> - 1"
    using f2i_in_range [of "tokens b - 1"] assms(3) le by simp
  then show ?thesis using assms(2,3) inv(5,6) sub
    by (simp add: TokenBucket_Allow_def current_bucket_def Let_def)
qed

lemma Allow_denied:
  assumes "tb_inv cap interval tb" and "b = current_bucket tb now key" and "\<not> 1 \<le> tokens b"
  shows "TokenBucket_Allow tb now key =
    (Inr \<lparr>Allowed = False, Limit = cap, Remaining = 0,
          ResetAfter = durationFor tb (fsub (of_int cap) (tokens b)),
          RetryAfter = durationFor tb (fsub 1 (tokens b))\<rparr>,
     tb\<lparr>buckets := (buckets tb)(key \<mapsto> b)\<rparr>)"
  using assms tb_invD(5,6) [OF assms(1)]
  by (simp add: TokenBucket_Allow_def current_bucket_def Let_def)

lemma Allow_cases [consumes 1, case_names granted denied]:
  assumes "tb_inv cap interval tb"
  obtains (granted) b where "b = current_bucket tb now key" "1 \<le> tokens b" "bucket_ok cap b"
      "TokenBucket_Allow tb now key =
         (Inr \<lparr>Allowed = True, Limit = cap, Remaining = \<lfloor>tokens b\<rfloor> - 1,
               ResetAfter = durationFor tb (fsub (of_int cap) (tokens b - 1)), RetryAfter = 0\<rparr>,
          tb\<lparr>buckets := (buckets tb)(key \<mapsto> b\<lparr>tokens := tokens b - 1\<rparr>)\<rparr>)"
      "bucket_ok cap (b\<lparr>tokens := tokens b - 1\<rparr>)"
  | (denied) b where "b = current_bucket tb now key" "tokens b < 1" "bucket_ok cap b"
      "TokenBucket_Allow tb now key =
         (Inr \<lparr>Allowed = False, Limit = cap, Remaining = 0,
               ResetAfter = durationFor tb (fsub (of_int cap) (tokens b)),
               RetryAfter = durationFor tb (fsub 1 (tokens b))\<rparr>,
          tb\<lparr>buckets := (buckets tb)(key \<mapsto> b)\<rparr>)"
proof (cases "1 \<le> tokens (current_bucket tb now key)")
  case True
  let ?b = "current_bucket tb now key"
  have ok: "bucket_ok cap ?b" by (rule current_bucket_ok [OF assms])
  have "tokens ?b \<le> of_int (2 ^ 53)"
    using ok tb_invD(2) [OF assms] by (auto simp: bucket_ok_def intro: order_trans [of _ "of_int cap"])
  then have "fsub (tokens ?b) 1 = tokens ?b - 1"
    using ok True by (intro fsub_one_exact) (simp_all add: bucket_ok_def)
  then have "is_f64 (tokens ?b - 1)" by (metis fsub_def is_f64_f64)
  with ok True have "bucket_ok cap (?b\<lparr>tokens := tokens ?b - 1\<rparr>)" by (simp add: bucket_ok_def)
  with granted [of ?b] True ok Allow_granted [OF assms refl True] show ?thesis by simp
next
  case False
  with denied [of "current_bucket tb now key"] current_bucket_ok [OF assms]
    Allow_denied [OF assms refl False] show ?thesis by simp
qed


section \<open>The token bucket is a limiter\<close>

lemma Allow_inv:
  assumes "tb_inv cap interval tb"
  shows "tb_inv cap interval (snd (TokenBucket_Allow tb now key))"
  using assms
proof (cases rule: Allow_cases [of cap interval tb now key])
  case (granted b)
  with assms show ?thesis by (simp add: tb_inv_def)
next
  case (denied b)
  with assms show ?thesis by (simp add: tb_inv_def)
qed

lemma floor_token_bounds:
  assumes "bucket_ok cap b" and "1 \<le> tokens b"
  shows "0 \<le> \<lfloor>tokens b\<rfloor> - 1 \<and> \<lfloor>tokens b\<rfloor> - 1 < cap"
proof -
  have "tokens b \<le> of_int cap" using assms(1) by (simp add: bucket_ok_def)
  then have "\<lfloor>tokens b\<rfloor> \<le> cap" by linarith
  moreover have "1 \<le> \<lfloor>tokens b\<rfloor>" using assms(2) by linarith
  ultimately show ?thesis by simp
qed

lemma Allow_wf:
  assumes "tb_inv cap interval tb" and "fst (TokenBucket_Allow tb now key) = Inr r"
  shows "wf_result cap r"
proof -
  have reset: "0 \<le> durationFor tb (fsub (of_int cap) x)" if "0 \<le> x" for x
    using that tb_invD(7) [OF assms(1)]
    by (intro durationFor_bound [THEN conjunct1, OF assms(1)]) (simp add: fsub_def f64_le)
  have one: "1 \<le> (of_int cap :: rat)" using tb_invD(1) [OF assms(1)] by simp
  have retry: "0 \<le> durationFor tb (fsub 1 x)" if "0 \<le> x" for x
    using that one tb_invD(7) [OF assms(1)]
    by (intro durationFor_bound [THEN conjunct1, OF assms(1)]) (simp add: fsub_def f64_le)
  show ?thesis using assms(1)
  proof (cases rule: Allow_cases [of cap interval tb now key])
    case (granted b)
    then show ?thesis using assms(2) floor_token_bounds [of cap b] reset [of "tokens b - 1"]
      by (auto simp: wf_result_def)
  next
    case (denied b)
    then have "0 \<le> tokens b" by (simp add: bucket_ok_def)
    then show ?thesis using denied assms(2) tb_invD(1) [OF assms(1)] reset [of "tokens b"] retry [of "tokens b"]
      by (auto simp: wf_result_def)
  qed
qed

interpretation tb: limiter TokenBucket_Allow buckets "tb_inv cap interval" "\<lambda>_. True" cap for cap interval
proof unfold_locales
  show "tb_inv cap interval s \<Longrightarrow> tb_inv cap interval (snd (TokenBucket_Allow s now key))" for s now key
    by (rule Allow_inv)
  show "tb_inv cap interval s \<Longrightarrow> fst (TokenBucket_Allow s now key) = Inr r \<Longrightarrow> wf_result cap r"
    for s now key r
    by (rule Allow_wf)
  show "key' \<noteq> key \<Longrightarrow> buckets (snd (TokenBucket_Allow s now key)) key' = buckets s key'"
    for key' key s now
    by (simp add: TokenBucket_Allow_def Let_def)
qed

section \<open>Bursts\<close>

text \<open>At one instant a bucket grants exactly its whole tokens.\<close>

lemma refill_same_instant: "lastSeen b = now \<Longrightarrow> refill tb b now = b"
  by (simp add: refill_def)

lemma admitted_same_instant:
  assumes "tb_inv cap interval tb" and "\<forall>(t, k) \<in> set reqs. t = now"
    and "buckets tb key = Some b" and "lastSeen b = now"
  shows "admitted TokenBucket_Allow key tb reqs = min (calls_for key reqs) (nat \<lfloor>tokens b\<rfloor>)"
  using assms
proof (induction reqs arbitrary: tb b)
  case Nil
  then show ?case by simp
next
  case (Cons req reqs)
  obtain t k where req: "req = (t, k)" by (cases req)
  have t: "t = now" using Cons.prems(2) req by auto
  let ?tb' = "snd (TokenBucket_Allow tb now k)"
  have inv': "tb_inv cap interval ?tb'" using Cons.prems(1) by (rule Allow_inv)
  have rest: "\<forall>(t, k) \<in> set reqs. t = now" using Cons.prems(2) by auto
  show ?case
  proof (cases "k = key")
    case False
    have "buckets ?tb' key = Some b" using tb.allow_frame [of key k tb now] False Cons.prems(3) by simp
    from Cons.IH [OF inv' rest this Cons.prems(4)] show ?thesis
      using False by (simp add: req t admitted_Cons)
  next
    case True
    have cb: "current_bucket tb now key = b"
      using Cons.prems(3,4) by (simp add: current_bucket_def refill_same_instant)
    show ?thesis using Cons.prems(1)
    proof (cases rule: Allow_cases [of cap interval tb now key])
      case (granted b')
      then have b': "b' = b" using cb by simp
      have "buckets ?tb' key = Some (b\<lparr>tokens := tokens b - 1\<rparr>)" using granted b' True by simp
      from Cons.IH [OF inv' rest this] Cons.prems(4)
      have "admitted TokenBucket_Allow key ?tb' reqs = min (calls_for key reqs) (nat (\<lfloor>tokens b\<rfloor> - 1))"
        by simp
      moreover have "1 \<le> \<lfloor>tokens b\<rfloor>" using granted(2) b' by (simp add: le_floor_iff)
      then have "nat \<lfloor>tokens b\<rfloor> = Suc (nat (\<lfloor>tokens b\<rfloor> - 1))" by arith
      ultimately show ?thesis using True granted b' by (simp add: req t admitted_Cons granted_def)
    next
      case (denied b')
      then have b': "b' = b" using cb by simp
      have "buckets ?tb' key = Some b" using denied b' True by simp
      from Cons.IH [OF inv' rest this Cons.prems(4)]
      have "admitted TokenBucket_Allow key ?tb' reqs = min (calls_for key reqs) (nat \<lfloor>tokens b\<rfloor>)" .
      moreover have "nat \<lfloor>tokens b\<rfloor> = 0" using denied(2) b' by (simp add: floor_le_iff)
      ultimately show ?thesis using True denied b' by (simp add: req t admitted_Cons granted_def)
    qed
  qed
qed

text \<open>
  A burst on an unseen key is cut off exactly at the capacity: of any number of requests for
  the key that arrive at one instant, however they interleave with other keys' requests, the first
  \<open>capacity\<close> are admitted and the rest refused.
\<close>

theorem burst_exact:
  assumes "tb_inv cap interval tb" and "buckets tb key = None" and "\<forall>(t, k) \<in> set reqs. t = now"
  shows "admitted TokenBucket_Allow key tb reqs = min (calls_for key reqs) (nat cap)"
  using assms
proof (induction reqs arbitrary: tb)
  case Nil
  then show ?case by simp
next
  case (Cons req reqs)
  obtain t k where req: "req = (t, k)" by (cases req)
  have t: "t = now" using Cons.prems(3) req by auto
  let ?tb' = "snd (TokenBucket_Allow tb now k)"
  have inv': "tb_inv cap interval ?tb'" using Cons.prems(1) by (rule Allow_inv)
  have rest: "\<forall>(t, k) \<in> set reqs. t = now" using Cons.prems(3) by auto
  show ?case
  proof (cases "k = key")
    case False
    have "buckets ?tb' key = None" using tb.allow_frame [of key k tb now] False Cons.prems(2) by simp
    from Cons.IH [OF inv' this rest] False show ?thesis by (simp add: req t admitted_Cons)
  next
    case True
    let ?b = "\<lparr>tokens = of_int cap, lastSeen = now\<rparr>"
    have cap: "0 < cap" using tb_invD(1) [OF Cons.prems(1)] .
    have cb: "current_bucket tb now key = ?b"
      using Cons.prems(2) tb_invD(5,6) [OF Cons.prems(1)] by (simp add: current_bucket_def)
    have one: "1 \<le> tokens ?b" using cap by simp
    note step = Allow_granted [OF Cons.prems(1) cb [symmetric] one]
    have "buckets ?tb' key = Some (?b\<lparr>tokens := of_int cap - 1\<rparr>)" using step True by simp
    from admitted_same_instant [OF inv' rest this]
    have "admitted TokenBucket_Allow key ?tb' reqs = min (calls_for key reqs) (nat (cap - 1))"
      by simp
    then show ?thesis using True step cap by (simp add: req t admitted_Cons granted_def)
  qed
qed

lemma hundred_per_minute:
  obtains tb where "NewTokenBucket 100 (60 * Second) = Inr tb" and "tb_inv 100 (60 * Second) tb"
    and "\<And>key. buckets tb key = None"
proof -
  obtain tb where tb: "NewTokenBucket 100 (60 * Second) = Inr tb" by (simp add: NewTokenBucket_def)
  have "buckets tb key = None" for key using tb by (auto simp: NewTokenBucket_def)
  then show thesis using that [OF tb] NewTokenBucket_inv [OF tb] by simp
qed

theorem burst_exact_witness:
  "\<exists>tb. NewTokenBucket 100 (60 * Second) = Inr tb
     \<and> admitted TokenBucket_Allow ''a'' tb (replicate 500 (7, ''a'')) = 100"
proof -
  obtain tb where tb: "NewTokenBucket 100 (60 * Second) = Inr tb" "tb_inv 100 (60 * Second) tb"
    "buckets tb ''a'' = None" using hundred_per_minute by blast
  have "calls_for ''a'' (replicate 500 (7, ''a'')) = 500" by (simp add: calls_for_def)
  with burst_exact [OF tb(2,3), of "replicate 500 (7, ''a'')" 7] tb(1) show ?thesis by auto
qed

section \<open>The long-run rate\<close>

definition ideal_rate :: "int \<Rightarrow> duration \<Rightarrow> rat" where
  "ideal_rate cap interval = of_int cap / of_int interval"

text \<open>
  One refill adds at most the configured rate times the elapsed time, up to a relative error of
  \<open>2 ^ -49\<close> for the rounding of rate, seconds and product, plus \<open>cap / 2 ^ 53\<close> for the addition.
\<close>

lemma credit_bound:
  assumes "tb_inv cap interval tb" and "0 \<le> d" and "is_int64 d"
  shows "fmul (seconds d) (refillRate tb) \<le> of_int d * ideal_rate cap interval * (1 + 1 / 2 ^ 49)"
proof -
  note inv = tb_invD [OF assms(1)]
  define u where "u = (1 + 1 / 2 ^ 53 :: rat)"
  define w where "w = (1 + 1 / 2 ^ 51 :: rat)"
  define v where "v = (1 - 1 / 2 ^ 52 :: rat)"
  have I: "0 < (of_int interval :: rat)" and C: "0 < (of_int cap :: rat)" using inv by simp_all
  have Iv: "of_int interval / 1000000000 * v \<le> seconds interval"
    using seconds_bounds [of interval] inv by (simp add: v_def)
  have s: "seconds d \<le> of_int d / 1000000000 * w" "0 \<le> seconds d"
    using seconds_bounds [of d] seconds_nonneg [of d] assms by (simp_all add: w_def)
  have sp: "0 < seconds interval" using seconds_pos inv by simp
  have "refillRate tb \<le> of_int cap / seconds interval * u"
    using C sp f64_upper [of "of_int cap / seconds interval"]
    by (simp add: tb_inv_rate [OF assms(1)] u_def)
  also have "\<dots> \<le> of_int cap / (of_int interval / 1000000000 * v) * u"
    using Iv I C by (intro mult_right_mono divide_left_mono) (simp_all add: u_def v_def)
  finally have r: "refillRate tb \<le> of_int cap / (of_int interval / 1000000000 * v) * u" .
  have rp: "0 < refillRate tb" by (rule rate_pos [OF assms(1)])
  have "fmul (seconds d) (refillRate tb) \<le> seconds d * refillRate tb * u"
    using s rp f64_upper [of "seconds d * refillRate tb"] by (simp add: fmul_def u_def)
  also have "\<dots> \<le> (of_int d / 1000000000 * w) * (of_int cap / (of_int interval / 1000000000 * v) * u) * u"
    using s r rp assms(2) by (intro mult_right_mono mult_mono) (simp_all add: u_def w_def)
  also have "\<dots> = of_int d * ideal_rate cap interval * (w / v * u * u)"
    using I by (simp add: ideal_rate_def v_def field_simps)
  also have "\<dots> \<le> of_int d * ideal_rate cap interval * (1 + 1 / 2 ^ 49)"
    using assms(2) I C by (intro mult_left_mono) (simp_all add: ideal_rate_def u_def v_def w_def)
  finally show ?thesis .
qed

lemma refill_bound:
  assumes "tb_inv cap interval tb" and "bucket_ok cap b" and "lastSeen b \<le> now"
  shows "tokens (refill tb b now)
       \<le> tokens b + of_int (now - lastSeen b) * ideal_rate cap interval * (1 + 1 / 2 ^ 49)
         + of_int cap / 2 ^ 53"
proof (cases "0 < time_sub now (lastSeen b)")
  case False
  have "now = lastSeen b" using False assms(3) by (simp add: time_sub_pos_iff)
  moreover have "0 \<le> (of_int cap :: rat)" using tb_invD(1) [OF assms(1)] by simp
  ultimately show ?thesis by (simp add: refill_def)
next
  case True
  note inv = tb_invD [OF assms(1)]
  define el where "el = time_sub now (lastSeen b)"
  define c where "c = fmul (seconds el) (refillRate tb)"
  have el: "0 < el" "is_int64 el" "el \<le> now - lastSeen b"
    using True time_sub_int64 time_sub_le [OF assms(3)] by (simp_all add: el_def)
  have K: "0 \<le> ideal_rate cap interval * (1 + 1 / 2 ^ 49)" using inv by (simp add: ideal_rate_def)
  have "c \<le> of_int el * ideal_rate cap interval * (1 + 1 / 2 ^ 49)"
    using credit_bound [OF assms(1), of el] el by (simp add: c_def)
  also have "\<dots> = of_int el * (ideal_rate cap interval * (1 + 1 / 2 ^ 49))" by (simp only: mult.assoc)
  also have "\<dots> \<le> of_int (now - lastSeen b) * (ideal_rate cap interval * (1 + 1 / 2 ^ 49))"
    using el(3) K by (intro mult_right_mono of_int_le_iff [THEN iffD2]) simp_all
  finally have c: "c \<le> of_int (now - lastSeen b) * ideal_rate cap interval * (1 + 1 / 2 ^ 49)"
    by (simp only: mult.assoc)
  have c0: "0 \<le> c"
    using el rate_pos [OF assms(1)] seconds_nonneg [of el] by (simp add: c_def fmul_def f64_nonneg)
  have t0: "0 \<le> tokens b" using assms(2) by (simp add: bucket_ok_def)
  have "min (of_int cap) (f64 (tokens b + c)) \<le> tokens b + c + of_int cap / 2 ^ 53"
  proof (cases "tokens b + c \<le> of_int cap")
    case le: True
    have "f64 (tokens b + c) \<le> tokens b + c + (tokens b + c) / 2 ^ 53"
      using t0 c0 by (intro f64_upper_abs) simp
    also have "\<dots> \<le> tokens b + c + of_int cap / 2 ^ 53"
      using le by (intro add_left_mono divide_right_mono) simp_all
    finally show ?thesis by simp
  next
    case False
    have "0 \<le> (of_int cap :: rat) / 2 ^ 53" using inv(1) by simp
    with False show ?thesis by linarith
  qed
  then have "tokens (refill tb b now) \<le> tokens b + c + of_int cap / 2 ^ 53"
    using True inv(5,6) by (simp add: refill_def Let_def c_def el_def fadd_def)
  with c show ?thesis by linarith
qed

lemma admitted_rate:
  assumes "tb_inv cap interval tb" and "buckets tb key = Some b"
    and "sorted (map fst reqs)" and "\<forall>(t, k) \<in> set reqs. lastSeen b \<le> t \<and> t \<le> T" and "lastSeen b \<le> T"
  shows "of_nat (admitted TokenBucket_Allow key tb reqs)
       \<le> tokens b + of_int (T - lastSeen b) * ideal_rate cap interval * (1 + 1 / 2 ^ 49)
         + of_nat (calls_for key reqs) * (of_int cap / 2 ^ 53)"
  using assms
proof (induction reqs arbitrary: tb b)
  case Nil
  have "0 \<le> tokens b" using tb_invD(9) [OF Nil.prems(1,2)] by (simp add: bucket_ok_def)
  moreover have "0 \<le> of_int (T - lastSeen b) * ideal_rate cap interval * (1 + 1 / 2 ^ 49)"
    using Nil.prems(5) tb_invD(1,3) [OF Nil.prems(1)] by (simp add: ideal_rate_def)
  ultimately show ?case by simp
next
  case (Cons req reqs)
  obtain t k where req: "req = (t, k)" by (cases req)
  let ?tb' = "snd (TokenBucket_Allow tb t k)"
  define K where "K = ideal_rate cap interval * (1 + 1 / 2 ^ 49)"
  define e where "e = (of_int cap / 2 ^ 53 :: rat)"
  have inv': "tb_inv cap interval ?tb'" using Cons.prems(1) by (rule Allow_inv)
  have t: "lastSeen b \<le> t" "t \<le> T" and srt: "sorted (map fst reqs)"
    and rest: "\<forall>(t', k) \<in> set reqs. t \<le> t' \<and> t' \<le> T"
    using Cons.prems(3,4) req by auto
  show ?case
  proof (cases "k = key")
    case False
    have "buckets ?tb' key = Some b" using tb.allow_frame [of key k tb t] False Cons.prems(2) by simp
    moreover have "\<forall>(t', k) \<in> set reqs. lastSeen b \<le> t' \<and> t' \<le> T" using Cons.prems(4) by auto
    ultimately show ?thesis
      using Cons.IH [OF inv' _ srt _ Cons.prems(5)] False by (simp add: req admitted_Cons)
  next
    case True
    have ok: "bucket_ok cap b" using tb_invD(9) [OF Cons.prems(1,2)] .
    have cb: "current_bucket tb t key = refill tb b t" using Cons.prems(2) by (simp add: current_bucket_def)
    have ls: "lastSeen (refill tb b t) = t" by (simp add: refill_def Let_def)
    have step: "tokens (refill tb b t) \<le> tokens b + of_int (t - lastSeen b) * K + e"
      using refill_bound [OF Cons.prems(1) ok t(1)] by (simp only: mult.assoc K_def e_def)
    have time: "of_int (t - lastSeen b) * K + of_int (T - t) * K = of_int (T - lastSeen b) * K"
      by (simp only: distrib_right [symmetric] of_int_add [symmetric]) simp
    show ?thesis using Cons.prems(1)
    proof (cases rule: Allow_cases [of cap interval tb t key])
      case (granted b')
      have "buckets ?tb' key = Some (b'\<lparr>tokens := tokens b' - 1\<rparr>)" using granted True by simp
      from Cons.IH [OF inv' this srt] rest t(2) granted(1) cb ls
      have "of_nat (admitted TokenBucket_Allow key ?tb' reqs)
          \<le> tokens b' - 1 + of_int (T - t) * K + of_nat (calls_for key reqs) * e"
        by (simp only: mult.assoc K_def e_def) simp
      then have "of_nat (admitted TokenBucket_Allow key tb (req # reqs))
          \<le> tokens b + of_int (T - lastSeen b) * K + of_nat (calls_for key (req # reqs)) * e"
        using step time granted True cb by (simp add: req admitted_Cons granted_def distrib_right)
      then show ?thesis by (simp only: mult.assoc K_def e_def)
    next
      case (denied b')
      have "buckets ?tb' key = Some b'" using denied True by simp
      from Cons.IH [OF inv' this srt] rest t(2) denied(1) cb ls
      have "of_nat (admitted TokenBucket_Allow key ?tb' reqs)
          \<le> tokens b' + of_int (T - t) * K + of_nat (calls_for key reqs) * e"
        by (simp only: mult.assoc K_def e_def)
      then have "of_nat (admitted TokenBucket_Allow key tb (req # reqs))
          \<le> tokens b + of_int (T - lastSeen b) * K + of_nat (calls_for key (req # reqs)) * e"
        using step time denied True cb by (simp add: req admitted_Cons granted_def distrib_right)
      then show ?thesis by (simp only: mult.assoc K_def e_def)
    qed
  qed
qed



section \<open>Waits\<close>

text \<open>
  A clock that jumps backwards never drains a bucket: refilling only adds tokens.
\<close>

lemma refill_never_drains:
  assumes "tb_inv cap interval tb" and "bucket_ok cap b"
  shows "tokens b \<le> tokens (refill tb b now)"
proof (cases "0 < time_sub now (lastSeen b)")
  case True
  define c where "c = fmul (seconds (time_sub now (lastSeen b))) (refillRate tb)"
  have "0 \<le> c"
    using True rate_pos [OF assms(1)] seconds_nonneg [of "time_sub now (lastSeen b)"] time_sub_int64
    by (simp add: c_def fmul_def f64_nonneg)
  then have "tokens b \<le> fadd (tokens b) c"
    using assms(2) by (simp add: fadd_def bucket_ok_def f64_ge)
  then show ?thesis using True assms tb_invD(5,6) [OF assms(1)]
    by (simp add: refill_def Let_def c_def bucket_ok_def)
qed (simp add: refill_def)


text \<open>
  The wait of a denied request is truncated to whole nanoseconds, so it can end before the token
  is there.  The concrete run: capacity 3 per second, three requests spend the bucket, the fourth
  is told to wait 333333333 ns, and after exactly that wait a retry is refused again.
\<close>

lemma third_of_second: "f2i (fmul (fdiv 1 3) (fint Second)) = 333333333"
proof -
  have third: "1 / 3 * (1 - 1 / 2 ^ 53) \<le> fdiv 1 3" "fdiv 1 3 \<le> 1 / 3 * (1 + 1 / 2 ^ 53)"
    using f64_lower [of "1 / 3"] f64_upper [of "1 / 3"] by (simp_all add: fdiv_def)
  have lo: "of_int 333333333 \<le> f64 (fdiv 1 3 * 1000000000)"
    using third(1) by (intro f64_ge is_f64_int) simp_all
  have hi: "f64 (fdiv 1 3 * 1000000000) \<le> of_int 666666667 * 2 powi (- 1)"
    using third(2) b64.round_exact [of 666666667 "- 1"]
    by (intro f64_le) (simp_all add: is_f64_def f64_def power_int_minus)
  have "\<lfloor>f64 (fdiv 1 3 * 1000000000)\<rfloor> = 333333333"
    using lo hi by (simp add: floor_eq_iff power_int_minus)
  then show ?thesis using lo f2i_in_range [of "f64 (fdiv 1 3 * 1000000000)"] hi
    by (simp add: fmul_def fint_exact power_int_minus)
qed

lemma third_not_enough: "fadd 0 (fmul (seconds 333333333) 3) < 1"
proof -
  have "seconds 333333333 \<le> 333333333 / 1000000000 * (1 + 1 / 2 ^ 51)"
    using seconds_bounds [of 333333333] by (simp add: is_int64_def min_int64_def max_int64_def)
  then have "fmul (seconds 333333333) 3 \<le> of_int (2 ^ 30 - 1) * 2 powi (- 30)"
    unfolding fmul_def using b64.round_exact [of "2 ^ 30 - 1" "- 30"]
    by (intro f64_le) (simp_all add: is_f64_def f64_def power_int_minus)
  then have "fadd 0 (fmul (seconds 333333333) 3) \<le> of_int (2 ^ 30 - 1) * 2 powi (- 30)"
    unfolding fadd_def using b64.round_exact [of "2 ^ 30 - 1" "- 30"]
    by (intro f64_le) (simp_all add: is_f64_def f64_def power_int_minus)
  then show ?thesis by (simp add: power_int_minus)
qed

lemma three_per_second:
  "NewTokenBucket 3 Second = Inr \<lparr>capacity = 3, refillRate = 3, buckets = Map.empty\<rparr>"
  using seconds_whole [of 1] f64_int [of 3] by (simp add: NewTokenBucket_def fdiv_def fint_exact)

text \<open>
  \<open>RetryAfter\<close> of the token bucket is not always long enough: a client that waits exactly as
  long as a refused request was told to wait is refused again.
\<close>

theorem retry_after_truncated:
  "\<exists>tb. NewTokenBucket 3 Second = Inr tb
     \<and> (let rs = fst (run_calls TokenBucket_Allow tb
                        [(0, k), (0, k), (0, k), (0, k), (333333333, k)])
        in map granted rs = [True, True, True, False, False]
         \<and> RetryAfter (projr (rs ! 3)) = 333333333)"
proof -
  define st where "st t = \<lparr>capacity = 3, refillRate = 3,
    buckets = Map.empty(k \<mapsto> \<lparr>tokens = t, lastSeen = 0\<rparr>)\<rparr>" for t :: rat
  let ?tb = "\<lparr>capacity = 3, refillRate = 3, buckets = Map.empty\<rparr>"
  have inv: "tb_inv 3 Second ?tb" using NewTokenBucket_inv [OF three_per_second] by simp
  have invs: "tb_inv 3 Second (st (of_int n))" if "0 \<le> n" "n \<le> 3" for n
    using inv that is_f64_int [of n] by (simp add: tb_inv_def st_def bucket_ok_def)
  have cb: "current_bucket (st t) 0 k = \<lparr>tokens = t, lastSeen = 0\<rparr>" for t
    by (simp add: current_bucket_def st_def refill_def)
  have a0: "granted (fst (TokenBucket_Allow ?tb 0 k))" "snd (TokenBucket_Allow ?tb 0 k) = st 2"
    using Allow_granted [OF inv refl, of 0 k]
    by (simp_all add: current_bucket_def fint_exact granted_def st_def)
  have a1: "granted (fst (TokenBucket_Allow (st 2) 0 k))" "snd (TokenBucket_Allow (st 2) 0 k) = st 1"
    using Allow_granted [OF invs [of 2] refl, of 0 k] by (simp_all add: cb granted_def) (simp add: st_def)
  have a2: "granted (fst (TokenBucket_Allow (st 1) 0 k))" "snd (TokenBucket_Allow (st 1) 0 k) = st 0"
    using Allow_granted [OF invs [of 1] refl, of 0 k] by (simp_all add: cb granted_def) (simp add: st_def)
  have a3: "\<not> granted (fst (TokenBucket_Allow (st 0) 0 k))"
    "snd (TokenBucket_Allow (st 0) 0 k) = st 0"
    "RetryAfter (projr (fst (TokenBucket_Allow (st 0) 0 k))) = 333333333"
    using Allow_denied [OF invs [of 0] refl, of 0 k] third_of_second f64_int [of 1]
    by (simp_all add: cb granted_def durationFor_def fsub_def) (simp_all add: st_def)
  have cb4: "tokens (current_bucket (st 0) 333333333 k) < 1"
    using third_not_enough time_sub_exact [of 333333333 0]
    by (simp add: current_bucket_def st_def refill_def Let_def is_int64_def min_int64_def max_int64_def
        min_less_iff_disj)
  have a4: "\<not> granted (fst (TokenBucket_Allow (st 0) 333333333 k))"
    using Allow_denied [OF invs [of 0] refl, of 333333333 k] cb4 by (simp add: granted_def)
  show ?thesis using a0 a1 a2 a3 a4 by (simp add: three_per_second run_calls_Cons)
qed

text \<open>
  Crediting is not monotone in the clock: \<open>lastSeen\<close> follows the clock backwards, so after a
  backward jump the same stretch of time is credited a second time.  At capacity 1 per second a key
  that spent its token at second 5 is granted a second one at second 5, if a single (refused) call
  at second 4 comes between.
\<close>

theorem backward_jump_recredits:
  "\<exists>tb. NewTokenBucket 1 Second = Inr tb
     \<and> map granted (fst (run_calls TokenBucket_Allow tb
         [(5 * Second, k), (4 * Second, k), (5 * Second, k)])) = [True, False, True]"
proof -
  define st where "st t l = \<lparr>capacity = 1, refillRate = 1,
    buckets = Map.empty(k \<mapsto> \<lparr>tokens = t, lastSeen = l\<rparr>)\<rparr>" for t :: rat and l
  let ?tb = "\<lparr>capacity = 1, refillRate = 1, buckets = Map.empty\<rparr>"
  have new: "NewTokenBucket 1 Second = Inr ?tb"
    using seconds_whole [of 1] f64_int [of 1] by (simp add: NewTokenBucket_def fdiv_def fint_exact)
  have inv: "tb_inv 1 Second ?tb" using NewTokenBucket_inv [OF new] by simp
  have invs: "tb_inv 1 Second (st 0 l)" for l
    using inv by (simp add: tb_inv_def st_def bucket_ok_def is_f64_def)
  have a0: "granted (fst (TokenBucket_Allow ?tb (5 * Second) k))"
    "snd (TokenBucket_Allow ?tb (5 * Second) k) = st 0 (5 * Second)"
    using Allow_granted [OF inv refl, of "5 * Second" k]
    by (simp_all add: current_bucket_def fint_exact granted_def st_def)
  have neg: "\<not> 0 < time_sub (4 * Second) (5 * Second)" by (simp add: time_sub_pos_iff)
  have a1: "\<not> granted (fst (TokenBucket_Allow (st 0 (5 * Second)) (4 * Second) k))"
    "snd (TokenBucket_Allow (st 0 (5 * Second)) (4 * Second) k) = st 0 (4 * Second)"
    using Allow_denied [OF invs [of "5 * Second"] refl, of "4 * Second" k] neg
    by (simp_all add: current_bucket_def refill_def granted_def st_def)
  have ts: "time_sub (5 * Second) (4 * Second) = 1 * Second"
    by (simp add: time_sub_def min_int64_def max_int64_def)
  have a2: "granted (fst (TokenBucket_Allow (st 0 (4 * Second)) (5 * Second) k))"
    using Allow_granted [OF invs [of "4 * Second"] refl, of "5 * Second" k] ts seconds_whole [of 1] f64_int [of 1]
    by (simp add: current_bucket_def refill_def granted_def st_def fadd_def fmul_def fint_exact Let_def)
  show ?thesis using a0 a1 a2 by (simp add: new run_calls_Cons)
qed

end
