(* ===== verification/SlidingWindowCounter.thy ===== *)
theory SlidingWindowCounter
  imports Limiter
begin

text \<open>
  The in-memory sliding window counter (\<open>ratelimiter/algorithms/slidingwindowcounter.go\<close>): two
  fixed-window counters per key, the previous one charged with a weight that decays linearly.
\<close>

section \<open>The code\<close>

record counterState =
  windowStart :: time
  curr :: int
  prev :: int

record SlidingWindowCounter =
  swc_limit :: int
  swc_window :: duration
  windows :: "string \<rightharpoonup> counterState"

definition NewSlidingWindowCounter :: "int \<Rightarrow> duration \<Rightarrow> (limiter_error, SlidingWindowCounter) result" where
  "NewSlidingWindowCounter limit window =
     (if limit \<le> 0 then Inl (NonPositive ''sliding window counter: limit'' limit)
      else if window \<le> 0 then Inl (NonPositive ''sliding window counter: window'' window)
      else Inr \<lparr>swc_limit = limit, swc_window = window, windows = Map.empty\<rparr>)"

definition roll :: "SlidingWindowCounter \<Rightarrow> counterState \<Rightarrow> time \<Rightarrow> counterState" where
  "roll s st now =
     (let elapsed = time_sub now (windowStart st) in
      if elapsed < 0 then st\<lparr>windowStart := now\<rparr>
      else if elapsed < swc_window s then st
      else if elapsed < wrap64 (2 * swc_window s) then
        \<lparr>windowStart = time_add (windowStart st) (swc_window s), curr = 0, prev = curr st\<rparr>
      else
        (let skipped = go_div elapsed (swc_window s) in
         \<lparr>windowStart = time_add (windowStart st) (wrap64 (skipped * swc_window s)),
          curr = 0, prev = 0\<rparr>))"

definition retryAfter :: "SlidingWindowCounter \<Rightarrow> counterState \<Rightarrow> duration \<Rightarrow> duration" where
  "retryAfter s st elapsed =
     (let remainder = wrap64 (swc_window s - elapsed) in
      if prev st = 0 then
        if curr st = 0 then remainder
        else
          (let f = fdiv (fint (wrap64 (curr st - swc_limit s + 1))) (fint (curr st));
               f' = (if f < 0 then 0 else f)
           in wrap64 (remainder + f2i (fceil (fmul f' (fint (swc_window s))))))
      else
        (let target = fsub (fsub (fint (swc_limit s)) 1) (fint (curr st)) in
         if target < 0 then remainder
         else
           (let f = fsub 1 (fdiv target (fint (prev st))) in
            if 1 \<le> f then remainder
            else
              (let wait = wrap64 (f2i (fceil (fmul f (fint (swc_window s)))) - elapsed) in
               if wait \<le> 0 then Millisecond
               else if remainder < wait then remainder
               else wait))))"

text \<open>The weighted estimate of \<open>Allow\<close>: \<open>prev * (1 - f) + curr\<close> with \<open>f = elapsed / window\<close>.\<close>

definition swc_estimate :: "SlidingWindowCounter \<Rightarrow> counterState \<Rightarrow> duration \<Rightarrow> rat" where
  "swc_estimate s st elapsed =
     (let f = fdiv (fint elapsed) (fint (swc_window s))
      in fadd (fmul (fint (prev st)) (fsub 1 f)) (fint (curr st)))"

definition SlidingWindowCounter_Allow ::
  "SlidingWindowCounter \<Rightarrow> time \<Rightarrow> string \<Rightarrow> (limiter_error, Result) result \<times> SlidingWindowCounter" where
  "SlidingWindowCounter_Allow s now key =
     (let st0 = (case windows s key of
                   None \<Rightarrow> \<lparr>windowStart = now, curr = 0, prev = 0\<rparr> | Some st \<Rightarrow> st);
          st = roll s st0 now;
          elapsed = time_sub now (windowStart st);
          estimate = swc_estimate s st elapsed;
          ok = (fadd estimate 1 \<le> fint (swc_limit s));
          st' = (if ok then st\<lparr>curr := wrap64 (curr st + 1)\<rparr> else st);
          rem = fsub (fint (swc_limit s)) (fadd estimate 1);
          res = \<lparr>Allowed = ok, Limit = swc_limit s,
                 Remaining = (if ok \<and> 0 < rem then f2i rem else 0),
                 ResetAfter = wrap64 (swc_window s - elapsed),
                 RetryAfter = (if ok then 0 else retryAfter s st elapsed)\<rparr>
      in (Inr res, s\<lparr>windows := (windows s)(key \<mapsto> st')\<rparr>))"

section \<open>The invariant\<close>

text \<open>
  Both counts stay within the limit.  The claims are for limits up to \<open>2 ^ 52\<close>, windows up to
  \<open>2 ^ 53\<close> nanoseconds (104 days) and instants up to \<open>2 ^ 62\<close> nanoseconds after the epoch.
\<close>

definition swc_valid :: "time \<Rightarrow> bool" where
  "swc_valid t \<longleftrightarrow> 0 \<le> t \<and> t \<le> 2 ^ 62"

definition counter_ok :: "int \<Rightarrow> counterState \<Rightarrow> bool" where
  "counter_ok limit st \<longleftrightarrow>
     0 \<le> curr st \<and> curr st \<le> limit \<and> 0 \<le> prev st \<and> prev st \<le> limit \<and> swc_valid (windowStart st)"

definition swc_inv :: "int \<Rightarrow> duration \<Rightarrow> SlidingWindowCounter \<Rightarrow> bool" where
  "swc_inv limit window s \<longleftrightarrow>
     0 < limit \<and> limit \<le> 2 ^ 52 \<and> 0 < window \<and> window \<le> 2 ^ 53
     \<and> swc_limit s = limit \<and> swc_window s = window
     \<and> (\<forall>key st. windows s key = Some st \<longrightarrow> counter_ok limit st)"

lemma NewSlidingWindowCounter_inv:
  "NewSlidingWindowCounter limit window = Inr s \<Longrightarrow> limit \<le> 2 ^ 52 \<Longrightarrow> window \<le> 2 ^ 53
   \<Longrightarrow> swc_inv limit window s"
  by (auto simp: NewSlidingWindowCounter_def swc_inv_def split: if_splits)

lemma swc_invD:
  assumes "swc_inv limit window s"
  shows "0 < limit" "limit \<le> 2 ^ 52" "0 < window" "window \<le> 2 ^ 53"
    "swc_limit s = limit" "swc_window s = window"
    "windows s key = Some st \<Longrightarrow> counter_ok limit st"
  using assms by (auto simp: swc_inv_def)

lemma small_int64:
  assumes "\<bar>n\<bar> \<le> 2 ^ 62"
  shows "is_int64 n"
proof -
  have "- (2 ^ 62) \<le> n" "n \<le> 2 ^ 62" using assms by linarith+
  then show ?thesis by (simp add: is_int64_def min_int64_def max_int64_def)
qed

text \<open>Rolling leaves \<open>now\<close> inside the current fixed window.\<close>

lemma roll_ok:
  assumes "swc_inv limit window s" and "counter_ok limit st" and "swc_valid now"
  shows "counter_ok limit (roll s st now)
    \<and> windowStart (roll s st now) \<le> now \<and> now - windowStart (roll s st now) < window"
proof -
  note inv = swc_invD [OF assms(1)]
  define el where "el = now - windowStart st"
  have range: "\<bar>el\<bar> \<le> 2 ^ 62" using assms(2,3) unfolding el_def counter_ok_def swc_valid_def by linarith
  have ts: "time_sub now (windowStart st) = el"
    using time_sub_exact small_int64 [OF range] by (simp add: el_def)
  have w2: "wrap64 (2 * window) = 2 * window" using inv(3,4) by (intro wrap64_id small_int64) simp
  consider "el < 0" | "0 \<le> el" "el < window" | "window \<le> el" "el < 2 * window" | "2 * window \<le> el"
    by linarith
  then show ?thesis
  proof cases
    case 4
    have el0: "0 \<le> el" using 4 inv(3) by linarith
    have q: "el div window * window \<le> el" "el < el div window * window + window"
      using inv(3) div_mult_mod_eq [of el window] pos_mod_bound [of window el] pos_mod_sign [of window el]
      by linarith+
    have "0 \<le> el div window" using inv(3) el0 by (simp add: pos_imp_zdiv_nonneg_iff)
    then have q0: "0 \<le> el div window * window" using inv(3) by simp
    have "wrap64 (el div window * window) = el div window * window"
      using q q0 range by (intro wrap64_id small_int64) simp
    then have "roll s st now = \<lparr>windowStart = windowStart st + el div window * window, curr = 0, prev = 0\<rparr>"
      using 4 inv(3,6) w2 ts el0 by (simp add: roll_def Let_def time_add_def go_div_nonneg)
    then show ?thesis
      using q q0 assms(2,3) inv(1) by (simp add: counter_ok_def swc_valid_def el_def)
  qed (use assms(2,3) inv(1,3,6) w2 ts in
      \<open>auto simp: roll_def Let_def time_add_def counter_ok_def swc_valid_def el_def\<close>)
qed


section \<open>The estimate is accurate\<close>

text \<open>The estimate in exact arithmetic.\<close>

definition exact_estimate :: "duration \<Rightarrow> counterState \<Rightarrow> duration \<Rightarrow> rat" where
  "exact_estimate window st elapsed =
     of_int (prev st) * (1 - of_int elapsed / of_int window) + of_int (curr st)"

lemma f64_unit: "0 \<le> x \<Longrightarrow> x \<le> 1 \<Longrightarrow> 0 \<le> f64 x \<and> f64 x \<le> 1 \<and> \<bar>f64 x - x\<bar> \<le> 1 / 2 ^ 53"
proof -
  assume x: "0 \<le> x" "x \<le> 1"
  have "f64 x \<le> 1" using x f64_le [OF is_f64_int [of 1]] by simp
  moreover have "\<bar>f64 x - x\<bar> \<le> x / 2 ^ 53" by (rule f64_err [OF x(1)])
  moreover have "x / 2 ^ 53 \<le> 1 / 2 ^ 53" using x(2) by (intro divide_right_mono) simp_all
  ultimately show ?thesis using f64_nonneg [OF x(1)] by linarith
qed

lemma estimate_error:
  assumes "swc_inv limit window s" and "counter_ok limit st" and "0 \<le> el" and "el < window"
  shows "0 \<le> swc_estimate s st el
    \<and> \<bar>fadd (swc_estimate s st el) 1 - (exact_estimate window st el + 1)\<bar> \<le> of_int limit / 2 ^ 49"
proof -
  note inv = swc_invD [OF assms(1)]
  define L where "L = (of_int limit :: rat)"
  define P where "P = (of_int (prev st) :: rat)"
  define C where "C = (of_int (curr st) :: rat)"
  define u where "u = (1 / 2 ^ 53 :: rat)"
  have PC: "0 \<le> P" "P \<le> L" "0 \<le> C" "C \<le> L" "1 \<le> L"
    using assms(2) inv(1) by (simp_all add: P_def C_def L_def counter_ok_def)
  have fi: "fint (prev st) = P" "fint (curr st) = C" "fint el = of_int el" "fint window = of_int window"
    using assms(2-4) inv(1-4) by (simp_all add: fint_exact P_def C_def counter_ok_def)
  define x where "x = (of_int el / of_int window :: rat)"
  have x: "0 \<le> x" "x \<le> 1" using assms(3,4) inv(3) by (simp_all add: x_def)
  define f where "f = f64 x"
  define g where "g = f64 (1 - f)"
  define p where "p = f64 (P * g)"
  define e where "e = f64 (p + C)"
  have f: "0 \<le> f" "f \<le> 1" "\<bar>f - x\<bar> \<le> u" using f64_unit [OF x] by (simp_all add: f_def u_def)
  have g: "0 \<le> g" "g \<le> 1" "\<bar>g - (1 - f)\<bar> \<le> u"
    using f64_unit [of "1 - f"] f by (simp_all add: g_def u_def)
  have Pg: "0 \<le> P * g" "P * g \<le> P" using PC g mult_left_le [of g P] by simp_all
  have u: "0 \<le> u" by (simp add: u_def)
  have errmul: "y / 2 ^ 53 \<le> z * u" if "y \<le> z" for y z :: rat
    using that by (simp add: u_def divide_right_mono)
  have p: "0 \<le> p" "p \<le> P * g + L * u" "\<bar>p - P * g\<bar> \<le> L * u"
    using f64_err [OF Pg(1)] errmul [of "P * g" L] Pg PC f64_nonneg [OF Pg(1)]
    unfolding p_def by linarith+
  have Lu: "0 \<le> L * u" "L * u \<le> L" using PC(5) u by (simp_all add: u_def)
  have e: "0 \<le> e" "\<bar>e - (p + C)\<bar> \<le> 3 * L * u"
    using f64_err [of "p + C"] errmul [of "p + C" "3 * L"] p PC Pg Lu f64_nonneg [of "p + C"]
    unfolding e_def by linarith+
  have eub: "e + 1 \<le> 7 * L" using e(2) p PC Pg Lu by linarith
  have r: "\<bar>f64 (e + 1) - (e + 1)\<bar> \<le> 7 * L * u"
    using f64_err [of "e + 1"] errmul [OF eub] e(1) by simp
  have "\<bar>g - (1 - x)\<bar> \<le> 2 * u" using f(3) g(3) by linarith
  then have "P * \<bar>g - (1 - x)\<bar> \<le> L * (2 * u)" using PC u by (intro mult_mono) simp_all
  then have Pd: "\<bar>P * g - P * (1 - x)\<bar> \<le> 2 * L * u"
    using PC(1) by (simp add: right_diff_distrib [symmetric] abs_mult)
  have ex: "exact_estimate window st el = P * (1 - x) + C" by (simp add: exact_estimate_def P_def C_def x_def)
  have est: "swc_estimate s st el = e"
    using inv(6) by (simp add: swc_estimate_def fi fadd_def fmul_def fsub_def fdiv_def e_def p_def g_def f_def x_def)
  have "\<bar>f64 (e + 1) - (P * (1 - x) + C + 1)\<bar> \<le> 13 * (L * u)"
    using r e(2) p(3) Pd by linarith
  also have "\<dots> \<le> 16 * (L * u)" using Lu by simp
  finally show ?thesis using e(1) by (simp add: est ex fadd_def u_def L_def)
qed

section \<open>Waits are in range\<close>

lemma f2i_ceil_unit:
  assumes "0 \<le> x" and "x \<le> 1" and "0 < w" and "w \<le> 2 ^ 53"
  shows "0 \<le> f2i (fceil (fmul x (fint w))) \<and> f2i (fceil (fmul x (fint w))) \<le> w"
proof -
  have fw: "fint w = of_int w" using assms(3,4) by (simp add: fint_exact)
  have "x * of_int w \<le> of_int w" using assms(2,3) mult_right_mono [of x 1 "of_int w"] by simp
  then have "fmul x (fint w) \<le> of_int w"
    using assms(3,4) unfolding fw fmul_def by (intro f64_le is_f64_int) simp_all
  moreover have "0 \<le> fmul x (fint w)" using assms(1,3) by (simp add: fw fmul_def f64_nonneg)
  ultimately have "0 \<le> \<lceil>fmul x (fint w)\<rceil>" "\<lceil>fmul x (fint w)\<rceil> \<le> w" by linarith+
  moreover have "f2i (of_int n) = n" if "0 \<le> n" "n \<le> w" for n
    using that assms(4) by (simp add: f2i_def trunc_rat_def is_int64_def min_int64_def max_int64_def)
  ultimately show ?thesis by (simp add: fceil_def)
qed

lemma retryAfter_range:
  assumes "swc_inv limit window s" and "counter_ok limit st" and "0 \<le> el" and "el < window"
  shows "0 \<le> retryAfter s st el \<and> retryAfter s st el \<le> max (2 * window) Millisecond"
proof -
  note inv = swc_invD [OF assms(1)]
  define remainder where "remainder = window - el"
  have R: "0 < remainder" "remainder \<le> window" using assms(3,4) by (simp_all add: remainder_def)
  have wr: "wrap64 (window - el) = remainder"
    using R inv(4) by (simp add: remainder_def wrap64_id small_int64)
  have ok: "0 \<le> curr st" "curr st \<le> limit" "0 \<le> prev st" "prev st \<le> limit"
    using assms(2) by (simp_all add: counter_ok_def)
  show ?thesis
  proof (cases "prev st = 0")
    case True
    show ?thesis
    proof (cases "curr st = 0")
      case c0: True
      then show ?thesis using True R inv(5,6) by (simp add: retryAfter_def Let_def wr)
    next
      case False
      define f where "f = fdiv (fint (wrap64 (curr st - limit + 1))) (fint (curr st))"
      define f' where "f' = (if f < 0 then 0 else f)"
      have n: "\<bar>curr st - limit + 1\<bar> \<le> 2 ^ 53" using ok inv(2) by simp
      have "f = f64 (of_int (curr st - limit + 1) / of_int (curr st))"
        using n ok inv(2) by (simp add: f_def fdiv_def fint_exact wrap64_id small_int64)
      moreover have "of_int (curr st - limit + 1) / of_int (curr st) \<le> (1 :: rat)"
        using False ok by (simp add: divide_le_eq)
      ultimately have "f \<le> 1" using f64_mono [of _ 1] f64_int [of 1] by fastforce
      then have f': "0 \<le> f'" "f' \<le> 1" by (simp_all add: f'_def)
      note c = f2i_ceil_unit [OF f' inv(3,4)]
      have "wrap64 (remainder + f2i (fceil (fmul f' (fint window))))
          = remainder + f2i (fceil (fmul f' (fint window)))"
        using c R inv(4) by (intro wrap64_id small_int64) simp
      moreover have "retryAfter s st el = wrap64 (remainder + f2i (fceil (fmul f' (fint window))))"
        using True False inv(5,6) by (simp add: retryAfter_def Let_def wr f_def f'_def)
      ultimately show ?thesis using c R by linarith
    qed
  next
    case False
    have "retryAfter s st el \<in> {0..remainder} \<union> {Millisecond}"
      using False R inv(5,6) by (auto simp: retryAfter_def Let_def wr)
    then show ?thesis using R by auto
  qed
qed

section \<open>The counter is a limiter\<close>

text \<open>What one call does, under the invariant.\<close>

definition rolled :: "SlidingWindowCounter \<Rightarrow> time \<Rightarrow> string \<Rightarrow> counterState" where
  "rolled s now key =
     roll s (case windows s key of None \<Rightarrow> \<lparr>windowStart = now, curr = 0, prev = 0\<rparr> | Some st \<Rightarrow> st) now"

lemma rolled_ok:
  assumes "swc_inv limit window s" and "swc_valid now"
  shows "counter_ok limit (rolled s now key)"
    and "0 \<le> now - windowStart (rolled s now key)" and "now - windowStart (rolled s now key) < window"
    and "time_sub now (windowStart (rolled s now key)) = now - windowStart (rolled s now key)"
proof -
  have "counter_ok limit (case windows s key of None \<Rightarrow> \<lparr>windowStart = now, curr = 0, prev = 0\<rparr> | Some st \<Rightarrow> st)"
    using swc_invD(1,7) [OF assms(1)] assms(2) by (auto simp: counter_ok_def split: option.splits)
  from roll_ok [OF assms(1) this assms(2)]
  show ok: "counter_ok limit (rolled s now key)" and lo: "0 \<le> now - windowStart (rolled s now key)"
    and hi: "now - windowStart (rolled s now key) < window" by (auto simp: rolled_def)
  show "time_sub now (windowStart (rolled s now key)) = now - windowStart (rolled s now key)"
    using lo hi swc_invD(4) [OF assms(1)] by (intro time_sub_exact small_int64) simp
qed

lemma swc_Allow_eq:
  assumes "swc_inv limit window s" and "swc_valid now" and "st = rolled s now key"
    and "el = now - windowStart st" and "ok \<longleftrightarrow> fadd (swc_estimate s st el) 1 \<le> of_int limit"
  shows "SlidingWindowCounter_Allow s now key =
    (Inr \<lparr>Allowed = ok, Limit = limit,
          Remaining = (if ok \<and> 0 < fsub (of_int limit) (fadd (swc_estimate s st el) 1)
                       then f2i (fsub (of_int limit) (fadd (swc_estimate s st el) 1)) else 0),
          ResetAfter = window - el,
          RetryAfter = (if ok then 0 else retryAfter s st el)\<rparr>,
     s\<lparr>windows := (windows s)(key \<mapsto> (if ok then st\<lparr>curr := curr st + 1\<rparr> else st))\<rparr>)"
proof -
  note inv = swc_invD [OF assms(1)] and R = rolled_ok [OF assms(1,2), of key, folded assms(3), folded assms(4)]
  have "wrap64 (window - el) = window - el" using R(2,3) inv(4) by (intro wrap64_id small_int64) simp
  moreover have "wrap64 (curr st + 1) = curr st + 1"
    using R(1) inv(2) by (intro wrap64_id small_int64) (simp add: counter_ok_def)
  moreover have "fint limit = of_int limit" using inv(1,2) by (simp add: fint_exact)
  ultimately show ?thesis using R(4) inv(5,6) assms(3-5)
    by (simp add: SlidingWindowCounter_Allow_def rolled_def Let_def)
qed


text \<open>The estimate never undercounts the current window, so a granted call keeps \<open>curr \<le> limit\<close>.\<close>

lemma estimate_ge_curr:
  assumes "swc_inv limit window s" and "counter_ok limit st" and "0 \<le> el" and "el < window"
  shows "of_int (curr st + 1) \<le> fadd (swc_estimate s st el) 1"
proof -
  note inv = swc_invD [OF assms(1)]
  define x where "x = fdiv (fint el) (fint window)"
  have ints: "fint (prev st) = of_int (prev st)" "fint (curr st) = of_int (curr st)"
    "fint el = of_int el" "fint window = of_int window"
    using assms(2-4) inv(1-4) by (simp_all add: fint_exact counter_ok_def)
  have "0 \<le> (of_int el :: rat) / of_int window" "of_int el / of_int window \<le> (1 :: rat)"
    using assms(3,4) inv(3) by simp_all
  then have "x \<le> 1" using f64_unit by (simp only: x_def ints fdiv_def)
  then have fm: "0 \<le> fmul (fint (prev st)) (fsub 1 x)"
    using assms(2) by (simp add: ints fmul_def fsub_def counter_ok_def f64_nonneg)
  have est: "swc_estimate s st el = f64 (fmul (fint (prev st)) (fsub 1 x) + of_int (curr st))"
    unfolding swc_estimate_def Let_def inv(6) x_def [symmetric] ints(2) fadd_def ..
  from fm have "of_int (curr st) \<le> swc_estimate s st el"
    using assms(2) inv(1,2) unfolding est
    by (intro f64_ge is_f64_int) (simp_all add: counter_ok_def)
  then show ?thesis
    using assms(2) inv(1,2) unfolding fadd_def by (intro f64_ge is_f64_int) (simp_all add: counter_ok_def)
qed

lemma swc_step:
  assumes "swc_inv limit window s" and "swc_valid now"
  shows "swc_inv limit window (snd (SlidingWindowCounter_Allow s now key))
    \<and> wf_result limit (projr (fst (SlidingWindowCounter_Allow s now key)))
    \<and> is_ok (fst (SlidingWindowCounter_Allow s now key))"
proof -
  define st where "st = rolled s now key"
  define el where "el = now - windowStart st"
  define e1 where "e1 = fadd (swc_estimate s st el) 1"
  define ok where "ok \<longleftrightarrow> e1 \<le> of_int limit"
  note inv = swc_invD [OF assms(1)]
  have R: "counter_ok limit st" "0 \<le> el" "el < window"
    using rolled_ok [OF assms, of key] by (simp_all add: st_def el_def)
  note eq = swc_Allow_eq [OF assms st_def el_def ok_def [unfolded e1_def]]
  have lo: "of_int (curr st + 1) \<le> e1" using estimate_ge_curr [OF assms(1) R] by (simp add: e1_def)
  have "ok \<Longrightarrow> (of_int (curr st + 1) :: rat) \<le> of_int limit" using lo by (simp add: ok_def)
  then have "ok \<Longrightarrow> curr st + 1 \<le> limit" by (simp only: of_int_le_iff)
  then have "counter_ok limit (if ok then st\<lparr>curr := curr st + 1\<rparr> else st)"
    using R(1) by (auto simp: counter_ok_def)
  then have "swc_inv limit window (snd (SlidingWindowCounter_Allow s now key))"
    using assms(1) eq by (auto simp: swc_inv_def)
  moreover have "wf_result limit (projr (fst (SlidingWindowCounter_Allow s now key)))"
  proof -
    have "1 \<le> e1" using lo R(1) by (simp add: counter_ok_def)
    then have "fsub (of_int limit) e1 \<le> of_int (limit - 1)"
      using inv(1,2) unfolding fsub_def by (intro f64_le is_f64_int) simp_all
    moreover have "f2i x = \<lfloor>x\<rfloor>" if "0 \<le> x" "x \<le> of_int (limit - 1)" for x
    proof (rule f2i_in_range [OF that(1)])
      have "limit - 1 \<le> 2 ^ 53" using inv(2) by simp
      then have "(of_int (limit - 1) :: rat) \<le> of_int (2 ^ 53)" by (simp only: of_int_le_iff)
      then show "x \<le> 2 ^ 53" using that(2) by simp
    qed
    ultimately have rem: "0 \<le> f2i (fsub (of_int limit) e1) \<and> f2i (fsub (of_int limit) e1) < limit"
      if "0 < fsub (of_int limit) e1" using that by (simp add: floor_less_iff)
    show ?thesis using rem retryAfter_range [OF assms(1) R] R inv(1) eq
      by (auto simp: wf_result_def e1_def)
  qed
  ultimately show ?thesis using eq by simp
qed

interpretation swc: limiter SlidingWindowCounter_Allow windows "swc_inv limit window" swc_valid limit
  for limit window
proof unfold_locales
  show "swc_inv limit window s \<Longrightarrow> swc_valid now
    \<Longrightarrow> swc_inv limit window (snd (SlidingWindowCounter_Allow s now key))" for s now key
    using swc_step by blast
  show "swc_inv limit window s \<Longrightarrow> swc_valid now
    \<Longrightarrow> fst (SlidingWindowCounter_Allow s now key) = Inr r \<Longrightarrow> wf_result limit r" for s now key r
    using swc_step [of limit window s now key] by simp
  show "key' \<noteq> key \<Longrightarrow> windows (snd (SlidingWindowCounter_Allow s now key)) key' = windows s key'"
    for key' key s now by (simp add: SlidingWindowCounter_Allow_def Let_def)
qed

text \<open>
  The counter decides by its weighted estimate.  A granted request fits under the limit when
  the previous window's count is weighted in exact arithmetic, and a request that fits is granted,
  up to \<open>limit / 2 ^ 49\<close> for the rounding of the five float operations.
\<close>

theorem estimate_decides:
  assumes "swc_inv limit window s" and "swc_valid now"
    and "st = rolled s now key" and "x = exact_estimate window st (now - windowStart st) + 1"
  shows "(granted (fst (SlidingWindowCounter_Allow s now key)) \<longrightarrow> x \<le> of_int limit + of_int limit / 2 ^ 49)
    \<and> (x \<le> of_int limit - of_int limit / 2 ^ 49 \<longrightarrow> granted (fst (SlidingWindowCounter_Allow s now key)))"
proof -
  define el where "el = now - windowStart st"
  have R: "counter_ok limit st" "0 \<le> el" "el < window"
    using rolled_ok [OF assms(1,2), of key] by (simp_all add: assms(3) el_def)
  have "granted (fst (SlidingWindowCounter_Allow s now key)) \<longleftrightarrow> fadd (swc_estimate s st el) 1 \<le> of_int limit"
    using swc_Allow_eq [OF assms(1-3) el_def refl] by (simp add: granted_def)
  moreover have "\<bar>fadd (swc_estimate s st el) 1 - x\<bar> \<le> of_int limit / 2 ^ 49"
    using estimate_error [OF assms(1) R] unfolding assms(4) el_def by blast
  ultimately show ?thesis by linarith
qed

theorem estimate_decides_witness:
  "\<exists>s. NewSlidingWindowCounter 10 1000 = Inr s
    \<and> (granted (fst (SlidingWindowCounter_Allow s 5 ''a'')) \<longrightarrow> (1 :: rat) \<le> 10 + 10 / 2 ^ 49)
    \<and> granted (fst (SlidingWindowCounter_Allow s 5 ''a''))"
proof -
  obtain s where s: "NewSlidingWindowCounter 10 1000 = Inr s" by (simp add: NewSlidingWindowCounter_def)
  have inv: "swc_inv 10 1000 s" by (rule NewSlidingWindowCounter_inv [OF s]) simp_all
  have w: "windows s = Map.empty" "swc_window s = 1000"
    using s by (auto simp: NewSlidingWindowCounter_def)
  have r: "rolled s 5 ''a'' = \<lparr>windowStart = 5, curr = 0, prev = 0\<rparr>"
    by (simp add: rolled_def w roll_def)
  have "(1 :: rat) = exact_estimate 1000 (rolled s 5 ''a'') (5 - windowStart (rolled s 5 ''a'')) + 1"
    by (simp add: r exact_estimate_def)
  from estimate_decides [OF inv _ refl this] s show ?thesis by (simp add: swc_valid_def)
qed

text \<open>
  \<open>ResetAfter\<close> of the counter is not the time until the key is back at full capacity: when the
  reported time has passed, the count of the finished window is charged in full, and a key that
  used its whole limit is still refused.
\<close>

theorem reset_after_is_not_full_capacity:
  "\<exists>s. NewSlidingWindowCounter 1 (60 * Second) = Inr s
     \<and> (let (r, s') = SlidingWindowCounter_Allow s 0 key;
            (r', _) = SlidingWindowCounter_Allow s' (ResetAfter (projr r)) key
        in granted r \<and> ResetAfter (projr r) = 60 * Second \<and> \<not> granted r')"
proof -
  define st where "st w c p = \<lparr>swc_limit = 1, swc_window = 60 * Second,
    windows = Map.empty(key \<mapsto> \<lparr>windowStart = w, curr = c, prev = p\<rparr>)\<rparr>" for w c p
  define s0 where "s0 = \<lparr>swc_limit = 1, swc_window = 60 * Second, windows = Map.empty\<rparr>"
  define r0 where "r0 = \<lparr>windowStart = 0, curr = 0, prev = 0\<rparr>"
  define r1 where "r1 = \<lparr>windowStart = 60 * Second, curr = 0, prev = 1\<rparr>"
  have new: "NewSlidingWindowCounter 1 (60 * Second) = Inr s0"
    by (simp add: NewSlidingWindowCounter_def s0_def)
  have inv: "swc_inv 1 (60 * Second) s0" by (rule NewSlidingWindowCounter_inv [OF new]) simp_all
  have inv1: "swc_inv 1 (60 * Second) (st 0 1 0)"
    by (simp add: swc_inv_def st_def counter_ok_def swc_valid_def)
  have v: "swc_valid 0" "swc_valid (60 * Second)" by (simp_all add: swc_valid_def)
  have r0: "r0 = rolled s0 0 key" by (simp add: rolled_def roll_def s0_def r0_def)
  have r1: "r1 = rolled (st 0 1 0) (60 * Second) key"
    by (simp add: rolled_def roll_def st_def r1_def Let_def time_add_def time_sub_def min_int64_def
        max_int64_def wrap64_def)
  have one: "f64 1 = 1" "f64 2 = 2" using f64_int [of 1] f64_int [of 2] by simp_all
  have e0: "fadd (swc_estimate s0 r0 0) 1 \<le> of_int 1"
    by (simp add: r0_def swc_estimate_def f64_ops one)
  have e1: "\<not> fadd (swc_estimate (st 0 1 0) r1 0) 1 \<le> of_int 1"
    by (simp add: r1_def swc_estimate_def f64_ops one)
  have z: "0 = 0 - windowStart r0" "0 = 60 * Second - windowStart r1" by (simp_all add: r0_def r1_def)
  have a0: "granted (fst (SlidingWindowCounter_Allow s0 0 key))"
    "ResetAfter (projr (fst (SlidingWindowCounter_Allow s0 0 key))) = 60 * Second"
    "snd (SlidingWindowCounter_Allow s0 0 key) = st 0 1 0"
    using swc_Allow_eq [OF inv v(1) r0 z(1) refl] e0 by (simp_all add: granted_def r0_def st_def s0_def)
  have a1: "\<not> granted (fst (SlidingWindowCounter_Allow (st 0 1 0) (60 * Second) key))"
    using swc_Allow_eq [OF inv1 v(2) r1 z(2) refl] e1 by (simp add: granted_def)
  show ?thesis by (rule exI [of _ s0]) (simp only: new a0 a1 split_def Let_def simp_thms not_False_eq_True)
qed

end
