(* ===== verification/Programs.thy ===== *)
theory Programs
  imports Prelude
begin

text \<open>
  Handlers as programs.  A handler is a sequence of calls to the outside: SQL, HTTP, Kafka, the
  payment processor.  A call reads and changes the world in one step, in an environment that fixes
  what is not the program's choice (lost messages, clocks, random bytes).  A program can be run on
  its own, or one call at a time between the calls of other programs, or be abandoned at any call,
  as a crashed process is.
\<close>

datatype ('e, 'w, 'a) prog =
    Ret 'a
  | Act "'e \<Rightarrow> 'w \<Rightarrow> 'w \<times> ('e, 'w, 'a) prog"

definition call :: "('e \<Rightarrow> 'w \<Rightarrow> 'r \<times> 'w) \<Rightarrow> ('r \<Rightarrow> ('e, 'w, 'a) prog) \<Rightarrow> ('e, 'w, 'a) prog" where
  "call f k = Act (\<lambda>e w. case f e w of (r, w') \<Rightarrow> (w', k r))"

text \<open>Running alone: the \<open>i\<close>-th call meets the \<open>i\<close>-th environment.\<close>

primrec run :: "('e, 'w, 'a) prog \<Rightarrow> (nat \<Rightarrow> 'e) \<Rightarrow> 'w \<Rightarrow> 'a \<times> 'w" where
  "run (Ret a) = (\<lambda>es w. (a, w))"
| "run (Act f) = (\<lambda>es w. case map_prod id run (f (es 0) w) of (w', go) \<Rightarrow> go (\<lambda>i. es (Suc i)) w')"

lemma run_call: "run (call f k) es w = run (k (fst (f (es 0) w))) (\<lambda>i. es (Suc i)) (snd (f (es 0) w))"
  by (simp add: call_def split: prod.splits)

section \<open>Rely and guarantee\<close>

text \<open>
  \<open>safe I R G V p w\<close>: from the world \<open>w\<close>, whatever changes within \<open>R\<close> others make before each call,
  every call of \<open>p\<close> in an environment within \<open>V\<close> keeps the invariant \<open>I\<close> and stays within \<open>G\<close>.
\<close>

primrec safe :: "('w \<Rightarrow> bool) \<Rightarrow> ('w \<Rightarrow> 'w \<Rightarrow> bool) \<Rightarrow> ('w \<Rightarrow> 'w \<Rightarrow> bool) \<Rightarrow> ('e \<Rightarrow> bool)
    \<Rightarrow> ('e, 'w, 'a) prog \<Rightarrow> 'w \<Rightarrow> bool" where
  "safe I R G V (Ret a) = (\<lambda>w. True)"
| "safe I R G V (Act f) = (\<lambda>w. \<forall>w1 e. R w w1 \<and> I w1 \<and> V e \<longrightarrow>
     (case map_prod id (safe I R G V) (f e w1) of (w2, rest) \<Rightarrow> I w2 \<and> G w1 w2 \<and> rest w2))"

declare safe.simps(2) [simp del]

lemma safe_call:
  assumes "\<And>w1 e r w2. R w w1 \<Longrightarrow> I w1 \<Longrightarrow> V e \<Longrightarrow> f e w1 = (r, w2) \<Longrightarrow> I w2 \<and> G w1 w2 \<and> safe I R G V (k r) w2"
  shows "safe I R G V (call f k) w"
  using assms by (auto simp: call_def safe.simps(2) split: prod.splits)

lemma safe_rely:
  assumes "safe I R G V p w" and "R w w'" and "\<And>a b c. R a b \<Longrightarrow> R b c \<Longrightarrow> R a c"
  shows "safe I R G V p w'"
  using assms by (cases p) (auto simp: safe.simps(2) split: prod.splits)

lemma safe_step:
  assumes "safe I R G V (Act f) w" and "R w w" and "I w" and "V e" and "f e w = (w', p')"
  shows "I w' \<and> G w w' \<and> safe I R G V p' w'"
proof -
  have "case map_prod id (safe I R G V) (f e w) of (w2, rest) \<Rightarrow> I w2 \<and> G w w2 \<and> rest w2"
    by (rule assms(1) [unfolded safe.simps(2), rule_format]) (simp add: assms(2-4))
  then show ?thesis by (simp add: assms(5))
qed

section \<open>Systems of programs\<close>

text \<open>
  A system is a world and the programs in progress, each with an owner.  A step is a call of one of
  them, the crash or the end of one, or the start of a new one within \<open>start\<close>.
\<close>

type_synonym ('o, 'e, 'w) threads = "('o \<times> ('e, 'w, unit) prog) list"

inductive step ::
  "('w \<Rightarrow> ('o, 'e, 'w) threads \<Rightarrow> 'o \<Rightarrow> ('e, 'w, unit) prog \<Rightarrow> bool) \<Rightarrow> ('e \<Rightarrow> bool)
   \<Rightarrow> 'w \<times> ('o, 'e, 'w) threads \<Rightarrow> 'w \<times> ('o, 'e, 'w) threads \<Rightarrow> bool" for start V where
  step_call: "f e w = (w', p') \<Longrightarrow> V e \<Longrightarrow>
     step start V (w, xs @ (ow, Act f) # ys) (w', xs @ (ow, p') # ys)"
| step_stop: "step start V (w, xs @ t # ys) (w, xs @ ys)"
| step_start: "start w ts ow p \<Longrightarrow> step start V (w, ts) (w, (ow, p) # ts)"

inductive_cases step_cases: "step start V (w, ts) s'"

inductive reaches ::
  "('w \<Rightarrow> ('o, 'e, 'w) threads \<Rightarrow> 'o \<Rightarrow> ('e, 'w, unit) prog \<Rightarrow> bool) \<Rightarrow> ('e \<Rightarrow> bool)
   \<Rightarrow> 'w \<times> ('o, 'e, 'w) threads \<Rightarrow> 'w \<times> ('o, 'e, 'w) threads \<Rightarrow> bool" for start V s where
  reaches_refl: "reaches start V s s"
| reaches_step: "reaches start V s s' \<Longrightarrow> step start V s' s'' \<Longrightarrow> reaches start V s s''"

section \<open>Programs without their results\<close>

primrec void :: "('e, 'w, 'a) prog \<Rightarrow> ('e, 'w, unit) prog" where
  "void (Ret a) = Ret ()"
| "void (Act f) = Act (\<lambda>e w. map_prod id void (f e w))"

lemma safe_void [simp]: "safe I R G V (void p) = safe I R G V p"
proof (induction p)
  case (Act f)
  have "map_prod id (safe I R G V) (map_prod id void (f e w)) = map_prod id (safe I R G V) (f e w)" for e w
    using Act [OF rangeI rangeI, of _ e w] by (cases "f e w") (simp add: prod_set_simps)
  then show ?case by (simp add: safe.simps(2))
qed simp

lemma run_void [simp]: "run (void p) es w = ((), snd (run p es w))"
proof (induction p arbitrary: es w)
  case (Act f)
  obtain w' q where f: "f (es 0) w = (w', q)" by force
  have "q \<in> Basic_BNFs.snds (f (es 0) w)" by (simp add: f prod_set_simps)
  from Act [OF rangeI rangeI this] show ?case by (simp add: f)
qed simp

section \<open>Running one program of a system to its end\<close>

lemma run_Act: "f (es 0) w = (w', q) \<Longrightarrow> run (Act f) es w = run q (\<lambda>i. es (Suc i)) w'"
  by simp

text \<open>Alone, a safe program keeps the invariant, and any transitive relation that covers its guarantee.\<close>

lemma run_safe:
  assumes "safe I R G V p w" and "I w" and "\<And>i. V (es i)" and refl: "\<And>w. R w w"
    and T: "\<And>w. T w w" "\<And>a b d. T a b \<Longrightarrow> T b d \<Longrightarrow> T a d" "\<And>a b. G a b \<Longrightarrow> T a b"
  shows "I (snd (run p es w)) \<and> T w (snd (run p es w))"
  using assms(1-3)
proof (induction p arbitrary: es w)
  case (Ret a)
  then show ?case using T(1) by simp
next
  case (Act f)
  obtain w' q where f: "f (es 0) w = (w', q)" by force
  have st: "I w' \<and> G w w' \<and> safe I R G V q w'" by (rule safe_step [where f = f, OF Act.prems(1) refl Act.prems(2,3) f])
  have "q \<in> Basic_BNFs.snds (f (es 0) w)" by (simp add: f prod_set_simps)
  from Act.IH [OF rangeI rangeI this, of w' "\<lambda>i. es (Suc i)"] st Act.prems(3)
  have "I (snd (run (Act f) es w)) \<and> T w' (snd (run (Act f) es w))" by (simp add: f)
  then show ?case using T(2) [OF T(3)] st by blast
qed

lemma reaches_run:
  assumes "reaches start V s (w, (ow, p) # ts)" and "\<And>i. V (es i)"
  shows "reaches start V s (snd (run p es w), (ow, Ret ()) # ts)"
  using assms
proof (induction p arbitrary: es w)
  case (Act f)
  obtain w' q where f: "f (es 0) w = (w', q)" by force
  have q: "q \<in> Basic_BNFs.snds (f (es 0) w)" by (simp add: f prod_set_simps)
  have "step start V (w, [] @ (ow, Act f) # ts) (w', [] @ (ow, q) # ts)" by (rule step_call [where e = "es 0"]) (use f Act.prems(2) in simp_all)
  then have "reaches start V s (w', (ow, q) # ts)" using reaches_step [OF Act.prems(1)] by simp
  from Act.IH [OF rangeI rangeI q this, of "\<lambda>i. es (Suc i)"] Act.prems(2) show ?case by (simp add: f)
qed simp

lemma reaches_program:
  assumes "reaches start V s (w, ts)" and "start w ts ow (void p)" and "\<And>i. V (es i)" and "snd (run p es w) = w'"
  shows "reaches start V s (w', ts)"
proof -
  have "reaches start V s (snd (run (void p) es w), (ow, Ret ()) # ts)"
    by (rule reaches_run [OF reaches_step [OF assms(1) step_start]]) (use assms(2,3) in simp_all)
  then have "reaches start V s (w', [] @ (ow, Ret ()) # ts)" using assms(4) by simp
  from reaches_step [OF this step_stop] show ?thesis by simp
qed

section \<open>The contract\<close>

text \<open>
  The contract of a system: each owner has a rely and a guarantee, the guarantee of one is within
  the rely of the others, owners that must be alone are, and every program starts safe.
\<close>

locale rely_guarantee =
  fixes I :: "'w \<Rightarrow> bool"
    and R :: "'o \<Rightarrow> 'w \<Rightarrow> 'w \<Rightarrow> bool"
    and G :: "'o \<Rightarrow> 'w \<Rightarrow> 'w \<Rightarrow> bool"
    and V :: "'e \<Rightarrow> bool"
    and alone :: "'o \<Rightarrow> bool"
    and start :: "'w \<Rightarrow> ('o, 'e, 'w) threads \<Rightarrow> 'o \<Rightarrow> ('e, 'w, unit) prog \<Rightarrow> bool"
  assumes rely_refl: "R o1 w w"
    and rely_trans: "R o1 a b \<Longrightarrow> R o1 b c \<Longrightarrow> R o1 a c"
    and guar_rely: "I a \<Longrightarrow> I b \<Longrightarrow> o1 \<noteq> o2 \<or> \<not> alone o1 \<Longrightarrow> G o1 a b \<Longrightarrow> R o2 a b"
    and start_safe: "I w \<Longrightarrow> start w ts o1 p \<Longrightarrow> safe I (R o1) (G o1) V p w"
    and start_alone: "start w ts o1 p \<Longrightarrow> alone o1 \<Longrightarrow> o1 \<notin> fst ` set ts"
begin

definition sound :: "'w \<times> ('o, 'e, 'w) threads \<Rightarrow> bool" where
  "sound s \<longleftrightarrow> I (fst s)
     \<and> (\<forall>(ow, p) \<in> set (snd s). safe I (R ow) (G ow) V p (fst s))
     \<and> distinct (filter alone (map fst (snd s)))"

lemma sound_stop: "sound (w, xs @ t # ys) \<Longrightarrow> sound (w, xs @ ys)"
  by (auto simp: sound_def split: if_splits)

lemma sound_start: "sound (w, ts) \<Longrightarrow> start w ts ow p \<Longrightarrow> sound (w, (ow, p) # ts)"
  using start_safe [of w ts ow p] start_alone [of w ts ow p] by (auto simp: sound_def)

lemma sound_call:
  assumes "sound (w, xs @ (ow, Act f) # ys)" and "f e w = (w', p')" and "V e"
  shows "sound (w', xs @ (ow, p') # ys)"
proof -
  have I: "I w" and act: "safe I (R ow) (G ow) V (Act f) w"
    and others: "\<And>o2 p. (o2, p) \<in> set xs \<union> set ys \<Longrightarrow> safe I (R o2) (G o2) V p w"
    and dist: "distinct (filter alone (map fst (xs @ (ow, Act f) # ys)))"
    using assms(1) by (auto simp: sound_def)
  from safe_step [OF act rely_refl I assms(3,2)]
  have new: "I w'" "G ow w w'" "safe I (R ow) (G ow) V p' w'" by blast+
  have "safe I (R o2) (G o2) V p w'" if "(o2, p) \<in> set xs \<union> set ys" for o2 p
  proof -
    have "o2 \<in> fst ` set xs \<union> fst ` set ys" using that by force
    moreover have "alone ow \<Longrightarrow> ow \<notin> fst ` set xs \<union> fst ` set ys" using dist by auto
    ultimately have "ow \<noteq> o2 \<or> \<not> alone ow" by blast
    then have "R o2 w w'" using guar_rely [OF I new(1) _ new(2)] by blast
    then show ?thesis by (rule safe_rely [OF others [OF that]]) (rule rely_trans)
  qed
  then show ?thesis using new dist by (auto simp: sound_def)
qed

lemma sound_step: "step start V s s' \<Longrightarrow> sound s \<Longrightarrow> sound s'"
  by (induction rule: step.induct) (blast intro: sound_call sound_stop sound_start)+

lemma sound_reaches: "reaches start V s s' \<Longrightarrow> sound s \<Longrightarrow> sound s'"
  by (induction rule: reaches.induct) (auto intro: sound_step)

lemma invariant: "reaches start V (w, []) (w', ts) \<Longrightarrow> I w \<Longrightarrow> I w'"
  using sound_reaches [of "(w, [])" "(w', ts)"] by (simp add: sound_def)

end

end
