(* ===== verification/Postgres.thy ===== *)
theory Postgres
  imports Prelude
begin

text \<open>
  What the data-access layers rely on of PostgreSQL and pgx: a statement either changes the tables
  and answers, or fails and changes nothing; a transaction is kept only if its commit runs; any
  round trip can be lost, before or after the server has acted.
\<close>

text \<open>
  The fate of one round trip.  \<open>Runs\<close>: executed and answered.  \<open>Refused\<close>: an error, and the server
  did nothing.  \<open>Unanswered\<close>: the server acted, the answer was lost, so the caller sees an error.
\<close>

datatype fate = Runs | Refused | Unanswered

text \<open>
  The errors the code tells apart (\<open>SQLSTATE\<close> 23505, 23503, 23514, and \<open>pgx.ErrNoRows\<close>), and three
  it does not: a number outside its column's range, a text that is no value of its type, a lost
  connection.
\<close>

datatype pg_error =
    UniqueViolation
  | ForeignKeyViolation
  | CheckViolation
  | NoRows
  | OutOfRange
  | InvalidText
  | Unreachable

text \<open>
  The environment of a store call: the fate of each of its round trips, the value of \<open>now()\<close>, and
  the server's reading of a \<open>UUID\<close>, which maps every accepted spelling to the one it is stored and
  returned in.
\<close>

record pg =
  fates :: "nat \<Rightarrow> fate"
  clock :: int
  canon :: "string \<Rightarrow> string option"

text \<open>
  The documented behaviour of the type: a stored spelling reads as itself, the empty text is no value.
\<close>

definition uuid_type :: "(string \<Rightarrow> string option) \<Rightarrow> bool" where
  "uuid_type c \<longleftrightarrow> c [] = None \<and> (\<forall>s u. c s = Some u \<longrightarrow> c u = Some u)"

definition is_int4 :: "int \<Rightarrow> bool" where
  "is_int4 n \<longleftrightarrow> - (2 ^ 31) \<le> n \<and> n < 2 ^ 31"

text \<open>A \<open>TEXT\<close> value holds no zero byte.\<close>

definition text_ok :: "string \<Rightarrow> bool" where
  "text_ok s \<longleftrightarrow> (\<forall>c \<in> set s. of_char c \<noteq> (0 :: nat))"

type_synonym ('db, 'a) stmt = "'db \<Rightarrow> (pg_error, 'a) result \<times> 'db"

text \<open>A statement inside a transaction works on the transaction's copy of the tables.\<close>

definition in_tx :: "fate \<Rightarrow> ('db, 'a) stmt \<Rightarrow> ('db, 'a) stmt" where
  "in_tx f st d =
     (case f of
        Runs \<Rightarrow> (case st d of (Inl e, _) \<Rightarrow> (Inl e, d) | (Inr a, d') \<Rightarrow> (Inr a, d'))
      | _ \<Rightarrow> (Inl Unreachable, d))"

text \<open>A statement on the pool is a transaction of its own.\<close>

definition on_pool :: "fate \<Rightarrow> ('db, 'a) stmt \<Rightarrow> ('db, 'a) stmt" where
  "on_pool f st db =
     (case f of
        Runs \<Rightarrow> (case st db of (Inl e, _) \<Rightarrow> (Inl e, db) | (Inr a, db') \<Rightarrow> (Inr a, db'))
      | Refused \<Rightarrow> (Inl Unreachable, db)
      | Unanswered \<Rightarrow> (Inl Unreachable, case st db of (Inl e, _) \<Rightarrow> db | (Inr a, db') \<Rightarrow> db'))"

text \<open>Commit publishes the transaction's copy \<open>d\<close> over the committed tables \<open>db\<close>.\<close>

definition commit_tx :: "fate \<Rightarrow> 'db \<Rightarrow> 'db \<Rightarrow> (pg_error, unit) result \<times> 'db" where
  "commit_tx f db d =
     (case f of Runs \<Rightarrow> (Inr (), d) | Refused \<Rightarrow> (Inl Unreachable, db) | Unanswered \<Rightarrow> (Inl Unreachable, d))"

text \<open>A pool statement leaves the tables as they were or as the statement makes them.\<close>

lemma on_pool_states:
  "snd (on_pool f st db) = db \<or> (\<exists>a. st db = (Inr a, snd (on_pool f st db)))"
  by (auto simp: on_pool_def split: fate.splits prod.splits sum.splits)

lemma on_pool_inv:
  assumes "I db" and "\<And>a db'. st db = (Inr a, db') \<Longrightarrow> I db'"
  shows "I (snd (on_pool f st db))"
  using on_pool_states [of f st db] assms by metis

lemma in_tx_Inr: "in_tx f st d = (Inr a, d') \<longleftrightarrow> f = Runs \<and> st d = (Inr a, d')"
  by (auto simp: in_tx_def split: fate.splits prod.splits sum.splits)

lemma on_pool_Inr: "on_pool f st db = (Inr a, db') \<longleftrightarrow> f = Runs \<and> st db = (Inr a, db')"
  by (auto simp: on_pool_def split: fate.splits prod.splits sum.splits)

lemma commit_tx_states: "snd (commit_tx f db d) = db \<or> snd (commit_tx f db d) = d"
  by (simp add: commit_tx_def split: fate.splits)

lemma commit_tx_Inr: "commit_tx f db d = (Inr u, db') \<longleftrightarrow> f = Runs \<and> db' = d"
  by (auto simp: commit_tx_def split: fate.splits)

lemma in_tx_Runs [store_simps]: "in_tx Runs st d = (case st d of (Inl e, _) \<Rightarrow> (Inl e, d) | (Inr a, d') \<Rightarrow> (Inr a, d'))"
  by (simp add: in_tx_def)

lemma on_pool_Runs [store_simps]: "on_pool Runs st d = (case st d of (Inl e, _) \<Rightarrow> (Inl e, d) | (Inr a, d') \<Rightarrow> (Inr a, d'))"
  by (simp add: on_pool_def)

lemma commit_tx_Runs [store_simps]: "commit_tx Runs db d = (Inr (), d)"
  by (simp add: commit_tx_def)

section \<open>The contract of a store\<close>

text \<open>
  A store runs operations on its tables, each in an environment of its own.  \<open>inv\<close> is kept by
  every operation; \<open>evolves\<close> relates the tables before and after.
\<close>

definition run_ops ::
  "('op \<Rightarrow> pg \<Rightarrow> 'db \<Rightarrow> 'r \<times> 'db) \<Rightarrow> ('op \<times> pg) list \<Rightarrow> 'db \<Rightarrow> 'db" where
  "run_ops exec ops db = fold (\<lambda>(op, pg) db. snd (exec op pg db)) ops db"

lemma run_ops_simps [simp]:
  "run_ops exec [] db = db"
  "run_ops exec ((op, pg) # ops) db = run_ops exec ops (snd (exec op pg db))"
  by (simp_all add: run_ops_def)

text \<open>The answers, in order.\<close>

fun replies :: "('op \<Rightarrow> pg \<Rightarrow> 'db \<Rightarrow> 'r \<times> 'db) \<Rightarrow> ('op \<times> pg) list \<Rightarrow> 'db \<Rightarrow> 'r list" where
  "replies exec [] db = []"
| "replies exec ((op, pg) # ops) db = fst (exec op pg db) # replies exec ops (snd (exec op pg db))"

lemma run_ops_append: "run_ops exec (xs @ ys) db = run_ops exec ys (run_ops exec xs db)"
  by (simp add: run_ops_def)

locale store =
  fixes exec :: "'op \<Rightarrow> pg \<Rightarrow> 'db \<Rightarrow> 'r \<times> 'db"
    and inv :: "'db \<Rightarrow> bool"
  assumes exec_inv: "inv db \<Longrightarrow> inv (snd (exec op pg db))"
begin

lemma run_inv: "inv db \<Longrightarrow> inv (run_ops exec ops db)"
  by (induction ops arbitrary: db) (auto simp: exec_inv)

end

locale evolving_store = store +
  fixes evolves :: "'db \<Rightarrow> 'db \<Rightarrow> bool"
  assumes evolves_refl: "evolves db db"
    and evolves_trans: "evolves db db' \<Longrightarrow> evolves db' db'' \<Longrightarrow> evolves db db''"
    and exec_evolves: "inv db \<Longrightarrow> evolves db (snd (exec op pg db))"
begin

lemma run_evolves: "inv db \<Longrightarrow> evolves db (run_ops exec ops db)"
proof (induction ops arbitrary: db)
  case (Cons x ops)
  obtain op pg where x: "x = (op, pg)" by (cases x)
  from Cons.IH [OF exec_inv [OF Cons.prems]] exec_evolves [OF Cons.prems]
  show ?case by (simp add: x) (blast intro: evolves_trans)
qed (simp add: evolves_refl)

end

end
