(* ===== verification/CatalogStore.thy ===== *)
theory CatalogStore
  imports Postgres "HOL-Library.List_Lexorder" "HOL-Library.Char_ord"
begin

text \<open>
  The catalog's data-access layer (\<open>services/catalog/store.go\<close>) over its two tables
  (\<open>migrations/000001_create_products.up.sql\<close>): products with their stock, and the quantities
  reserved per order and product.
\<close>

section \<open>The tables\<close>

record Product =
  p_ID :: string
  p_SKU :: string
  p_Name :: string
  p_Description :: string
  p_PriceCents :: int
  p_Currency :: string
  p_Stock :: int
  p_Reserved :: int
  p_CreatedAt :: int
  p_UpdatedAt :: int

definition Available :: "Product \<Rightarrow> int" where
  "Available p = p_Stock p - p_Reserved p"

record catalog_db =
  products :: "string \<rightharpoonup> Product"
  reservations :: "string \<times> string \<rightharpoonup> int"

text \<open>The \<open>CHECK\<close> constraints and the column ranges of a product row.\<close>

definition row_ok :: "Product \<Rightarrow> bool" where
  "row_ok p \<longleftrightarrow> 0 \<le> p_PriceCents p \<and> 0 \<le> p_Stock p \<and> 0 \<le> p_Reserved p \<and> p_Reserved p \<le> p_Stock p"

definition row_in_range :: "Product \<Rightarrow> bool" where
  "row_in_range p \<longleftrightarrow> is_int64 (p_PriceCents p) \<and> is_int4 (p_Stock p) \<and> is_int4 (p_Reserved p)"

datatype store_error =
    ErrProductNotFound
  | ErrSKUTaken
  | ErrInsufficientStock
  | NotPositive string int
  | Wrapped string pg_error

section \<open>The statements\<close>

definition insert_product :: "pg \<Rightarrow> Product \<Rightarrow> (catalog_db, Product) stmt" where
  "insert_product pg p db =
     (case canon pg (p_ID p) of
        None \<Rightarrow> (Inl InvalidText, db)
      | Some u \<Rightarrow>
          (let row = p\<lparr>p_ID := u, p_Reserved := 0, p_CreatedAt := clock pg, p_UpdatedAt := clock pg\<rparr> in
           if \<not> row_in_range row then (Inl OutOfRange, db)
           else if \<not> (text_ok (p_SKU p) \<and> text_ok (p_Name p) \<and> text_ok (p_Description p) \<and> text_ok (p_Currency p))
           then (Inl InvalidText, db)
           else if \<not> row_ok row then (Inl CheckViolation, db)
           else if products db u \<noteq> None \<or> (\<exists>q \<in> ran (products db). p_SKU q = p_SKU p)
           then (Inl UniqueViolation, db)
           else (Inr row, db\<lparr>products := (products db)(u \<mapsto> row)\<rparr>)))"

definition select_product :: "pg \<Rightarrow> string \<Rightarrow> (catalog_db, Product) stmt" where
  "select_product pg pid db =
     (case canon pg pid of
        None \<Rightarrow> (Inl InvalidText, db)
      | Some u \<Rightarrow> (case products db u of None \<Rightarrow> (Inl NoRows, db) | Some p \<Rightarrow> (Inr p, db)))"

text \<open>\<open>ORDER BY created_at DESC, id LIMIT $1 OFFSET $2\<close>.\<close>

definition select_products :: "int \<Rightarrow> int \<Rightarrow> (catalog_db, Product list) stmt" where
  "select_products limit offset db =
     (let rows = map (\<lambda>u. the (products db u)) (sorted_list_of_set (dom (products db)))
      in (Inr (take (nat limit) (drop (nat offset) (sort_key (\<lambda>p. - p_CreatedAt p) rows))), db))"

text \<open>\<open>INSERT ... ON CONFLICT DO NOTHING\<close> answers with the number of rows it affected.\<close>

definition insert_reservation :: "pg \<Rightarrow> string \<Rightarrow> string \<Rightarrow> int \<Rightarrow> (catalog_db, nat) stmt" where
  "insert_reservation pg oid pid q db =
     (case (canon pg oid, canon pg pid) of
        (Some ou, Some u) \<Rightarrow>
          (if \<not> is_int4 q then (Inl OutOfRange, db)
           else if q \<le> 0 then (Inl CheckViolation, db)
           else if reservations db (ou, u) \<noteq> None then (Inr 0, db)
           else if products db u = None then (Inl ForeignKeyViolation, db)
           else (Inr 1, db\<lparr>reservations := (reservations db)((ou, u) \<mapsto> q)\<rparr>))
      | _ \<Rightarrow> (Inl InvalidText, db))"

text \<open>\<open>DELETE ... RETURNING quantity\<close>.\<close>

definition delete_reservation :: "pg \<Rightarrow> string \<Rightarrow> string \<Rightarrow> (catalog_db, int) stmt" where
  "delete_reservation pg oid pid db =
     (case (canon pg oid, canon pg pid) of
        (Some ou, Some u) \<Rightarrow>
          (case reservations db (ou, u) of
             None \<Rightarrow> (Inl NoRows, db)
           | Some q \<Rightarrow> (Inr q, db\<lparr>reservations := (reservations db)((ou, u) := None)\<rparr>))
      | _ \<Rightarrow> (Inl InvalidText, db))"

text \<open>
  \<open>UPDATE products SET ... WHERE id = $1 AND ... RETURNING\<close>: \<open>n\<close> is the integer parameter, \<open>P\<close>
  the rest of the \<open>WHERE\<close> clause, \<open>f\<close> the assignments.
\<close>

definition update_product ::
  "pg \<Rightarrow> string \<Rightarrow> int \<Rightarrow> (Product \<Rightarrow> bool) \<Rightarrow> (Product \<Rightarrow> Product) \<Rightarrow> (catalog_db, Product) stmt" where
  "update_product pg pid n P f db =
     (case canon pg pid of
        None \<Rightarrow> (Inl InvalidText, db)
      | Some u \<Rightarrow>
          if \<not> is_int4 n then (Inl OutOfRange, db)
          else (case products db u of
             None \<Rightarrow> (Inl NoRows, db)
           | Some p \<Rightarrow>
               if \<not> P p then (Inl NoRows, db)
               else (let row = (f p)\<lparr>p_UpdatedAt := clock pg\<rparr> in
                     if \<not> row_in_range row then (Inl OutOfRange, db)
                     else if \<not> row_ok row then (Inl CheckViolation, db)
                     else (Inr row, db\<lparr>products := (products db)(u \<mapsto> row)\<rparr>))))"

definition update_reserve :: "pg \<Rightarrow> string \<Rightarrow> int \<Rightarrow> (catalog_db, Product) stmt" where
  "update_reserve pg pid q =
     update_product pg pid q (\<lambda>p. q \<le> p_Stock p - p_Reserved p) (\<lambda>p. p\<lparr>p_Reserved := p_Reserved p + q\<rparr>)"

definition update_release :: "pg \<Rightarrow> string \<Rightarrow> int \<Rightarrow> (catalog_db, Product) stmt" where
  "update_release pg pid q =
     update_product pg pid q (\<lambda>p. True) (\<lambda>p. p\<lparr>p_Reserved := max 0 (p_Reserved p - q)\<rparr>)"

definition update_commit :: "pg \<Rightarrow> string \<Rightarrow> int \<Rightarrow> (catalog_db, Product) stmt" where
  "update_commit pg pid q =
     update_product pg pid q (\<lambda>p. True)
       (\<lambda>p. p\<lparr>p_Stock := max 0 (p_Stock p - q), p_Reserved := max 0 (p_Reserved p - q)\<rparr>)"

definition update_stock :: "pg \<Rightarrow> string \<Rightarrow> int \<Rightarrow> (catalog_db, Product) stmt" where
  "update_stock pg pid n = update_product pg pid n (\<lambda>p. True) (\<lambda>p. p\<lparr>p_Stock := p_Stock p + n\<rparr>)"

section \<open>The operations\<close>

definition CreateProduct :: "pg \<Rightarrow> Product \<Rightarrow> catalog_db \<Rightarrow> (store_error, Product) result \<times> catalog_db" where
  "CreateProduct pg p db =
     (case on_pool (fates pg 0) (insert_product pg p) db of
        (Inl UniqueViolation, db') \<Rightarrow> (Inl ErrSKUTaken, db')
      | (Inl e, db') \<Rightarrow> (Inl (Wrapped ''inserting product'' e), db')
      | (Inr created, db') \<Rightarrow> (Inr created, db'))"

definition ProductByID :: "pg \<Rightarrow> string \<Rightarrow> catalog_db \<Rightarrow> (store_error, Product) result" where
  "ProductByID pg pid db =
     (case fst (on_pool (fates pg 0) (select_product pg pid) db) of
        Inl NoRows \<Rightarrow> Inl ErrProductNotFound
      | Inl e \<Rightarrow> Inl (Wrapped ''querying product'' e)
      | Inr p \<Rightarrow> Inr p)"

definition ListProducts :: "pg \<Rightarrow> int \<Rightarrow> int \<Rightarrow> catalog_db \<Rightarrow> (store_error, Product list) result" where
  "ListProducts pg limit offset db =
     (case fst (on_pool (fates pg 0) (select_products limit offset) db) of
        Inl e \<Rightarrow> Inl (Wrapped ''listing products'' e)
      | Inr ps \<Rightarrow> Inr ps)"

text \<open>
  The branch the three reservation operations share: nothing is changed, the product is read and
  the transaction committed.  The reads are round trip 2, the commit round trip 3; \<open>db\<close> are the
  committed tables, \<open>d\<close> the transaction's copy.
\<close>

definition current_state ::
  "pg \<Rightarrow> string \<Rightarrow> catalog_db \<Rightarrow> catalog_db \<Rightarrow> (store_error, Product) result \<times> catalog_db" where
  "current_state pg pid db d =
     (case fst (in_tx (fates pg 2) (select_product pg pid) d) of
        Inl NoRows \<Rightarrow> (Inl ErrProductNotFound, db)
      | Inl e \<Rightarrow> (Inl (Wrapped ''querying product'' e), db)
      | Inr p \<Rightarrow>
          (case commit_tx (fates pg 3) db d of
             (Inl e, db') \<Rightarrow> (Inl (Wrapped ''committing'' e), db')
           | (Inr _, db') \<Rightarrow> (Inr p, db')))"

text \<open>An operation begins a transaction in round trip 0; an early return rolls it back.\<close>

definition Reserve ::
  "pg \<Rightarrow> string \<Rightarrow> string \<Rightarrow> int \<Rightarrow> catalog_db \<Rightarrow> (store_error, Product) result \<times> catalog_db" where
  "Reserve pg oid pid quantity db =
     (if quantity \<le> 0 then (Inl (NotPositive ''quantity'' quantity), db)
      else if fates pg 0 \<noteq> Runs then (Inl (Wrapped ''beginning transaction'' Unreachable), db)
      else case in_tx (fates pg 1) (insert_reservation pg oid pid quantity) db of
        (Inl ForeignKeyViolation, _) \<Rightarrow> (Inl ErrProductNotFound, db)
      | (Inl e, _) \<Rightarrow> (Inl (Wrapped ''recording reservation'' e), db)
      | (Inr n, d) \<Rightarrow>
          if n = 0 then current_state pg pid db d
          else (case in_tx (fates pg 2) (update_reserve pg pid quantity) d of
             (Inl NoRows, d') \<Rightarrow>
               (case fst (in_tx (fates pg 3) (select_product pg pid) d') of
                  Inl NoRows \<Rightarrow> (Inl ErrProductNotFound, db)
                | Inl e \<Rightarrow> (Inl (Wrapped ''checking product existence'' e), db)
                | Inr _ \<Rightarrow> (Inl ErrInsufficientStock, db))
           | (Inl CheckViolation, _) \<Rightarrow> (Inl ErrInsufficientStock, db)
           | (Inl e, _) \<Rightarrow> (Inl (Wrapped ''reserving stock'' e), db)
           | (Inr updated, d') \<Rightarrow>
               (case commit_tx (fates pg 3) db d' of
                  (Inl e, db') \<Rightarrow> (Inl (Wrapped ''committing reservation'' e), db')
                | (Inr _, db') \<Rightarrow> (Inr updated, db'))))"

definition Release ::
  "pg \<Rightarrow> string \<Rightarrow> string \<Rightarrow> catalog_db \<Rightarrow> (store_error, Product) result \<times> catalog_db" where
  "Release pg oid pid db =
     (if fates pg 0 \<noteq> Runs then (Inl (Wrapped ''beginning transaction'' Unreachable), db)
      else case in_tx (fates pg 1) (delete_reservation pg oid pid) db of
        (Inl NoRows, d) \<Rightarrow> current_state pg pid db d
      | (Inl e, _) \<Rightarrow> (Inl (Wrapped ''deleting reservation'' e), db)
      | (Inr quantity, d) \<Rightarrow>
          (case in_tx (fates pg 2) (update_release pg pid quantity) d of
             (Inl NoRows, _) \<Rightarrow> (Inl ErrProductNotFound, db)
           | (Inl e, _) \<Rightarrow> (Inl (Wrapped ''releasing stock'' e), db)
           | (Inr updated, d') \<Rightarrow>
               (case commit_tx (fates pg 3) db d' of
                  (Inl e, db') \<Rightarrow> (Inl (Wrapped ''committing release'' e), db')
                | (Inr _, db') \<Rightarrow> (Inr updated, db'))))"

definition Commit ::
  "pg \<Rightarrow> string \<Rightarrow> string \<Rightarrow> catalog_db \<Rightarrow> (store_error, Product) result \<times> catalog_db" where
  "Commit pg oid pid db =
     (if fates pg 0 \<noteq> Runs then (Inl (Wrapped ''beginning transaction'' Unreachable), db)
      else case in_tx (fates pg 1) (delete_reservation pg oid pid) db of
        (Inl NoRows, d) \<Rightarrow> current_state pg pid db d
      | (Inl e, _) \<Rightarrow> (Inl (Wrapped ''deleting reservation'' e), db)
      | (Inr quantity, d) \<Rightarrow>
          (case in_tx (fates pg 2) (update_commit pg pid quantity) d of
             (Inl NoRows, _) \<Rightarrow> (Inl ErrProductNotFound, db)
           | (Inl e, _) \<Rightarrow> (Inl (Wrapped ''committing stock'' e), db)
           | (Inr updated, d') \<Rightarrow>
               (case commit_tx (fates pg 3) db d' of
                  (Inl e, db') \<Rightarrow> (Inl (Wrapped ''committing stock change'' e), db')
                | (Inr _, db') \<Rightarrow> (Inr updated, db'))))"

definition AddStock ::
  "pg \<Rightarrow> string \<Rightarrow> int \<Rightarrow> catalog_db \<Rightarrow> (store_error, Product) result \<times> catalog_db" where
  "AddStock pg pid delta db =
     (if delta \<le> 0 then (Inl (NotPositive ''delta'' delta), db)
      else case on_pool (fates pg 0) (update_stock pg pid delta) db of
        (Inl NoRows, db') \<Rightarrow> (Inl ErrProductNotFound, db')
      | (Inl e, db') \<Rightarrow> (Inl (Wrapped ''adding stock'' e), db')
      | (Inr updated, db') \<Rightarrow> (Inr updated, db'))"

end
