(* ===== verification/CatalogStock.thy ===== *)
theory CatalogStock
  imports CatalogStore
begin

text \<open>
  What the catalog's operations do to the inventory: each leaves the tables alone or makes one of
  three changes (take, drop or consume a hold), whatever round trips are lost; the stock invariant
  is kept; a retried operation has its effect once.
\<close>

section \<open>Changes of the inventory\<close>

definition take_hold :: "int \<Rightarrow> string \<times> string \<Rightarrow> int \<Rightarrow> catalog_db \<Rightarrow> catalog_db" where
  "take_hold now k q db =
     (case products db (snd k) of
        None \<Rightarrow> db
      | Some p \<Rightarrow> db\<lparr>products := (products db)(snd k \<mapsto> p\<lparr>p_Reserved := p_Reserved p + q, p_UpdatedAt := now\<rparr>),
                    reservations := (reservations db)(k \<mapsto> q)\<rparr>)"

definition end_hold :: "bool \<Rightarrow> int \<Rightarrow> string \<times> string \<Rightarrow> catalog_db \<Rightarrow> catalog_db" where
  "end_hold consume now k db =
     (case (products db (snd k), reservations db k) of
        (Some p, Some q) \<Rightarrow>
          db\<lparr>products := (products db)(snd k \<mapsto>
               p\<lparr>p_Stock := (if consume then p_Stock p - q else p_Stock p),
                 p_Reserved := p_Reserved p - q, p_UpdatedAt := now\<rparr>),
             reservations := (reservations db)(k := None)\<rparr>
      | _ \<Rightarrow> db)"

section \<open>The invariant\<close>

definition held_keys :: "catalog_db \<Rightarrow> string \<Rightarrow> (string \<times> string) set" where
  "held_keys db u = {k \<in> dom (reservations db). snd k = u}"

definition held_total :: "catalog_db \<Rightarrow> string \<Rightarrow> int" where
  "held_total db u = (\<Sum>k \<in> held_keys db u. the (reservations db k))"

text \<open>
  Rows satisfy their constraints and are stored under their identifier, SKUs are unique, a
  reservation is positive and for a known product, and \<open>reserved\<close> is the sum of the reservations.
\<close>

definition catalog_inv :: "catalog_db \<Rightarrow> bool" where
  "catalog_inv db \<longleftrightarrow>
     finite (dom (products db)) \<and> finite (dom (reservations db))
     \<and> (\<forall>u p. products db u = Some p \<longrightarrow>
          p_ID p = u \<and> row_ok p \<and> row_in_range p \<and> p_Reserved p = held_total db u)
     \<and> (\<forall>k q. reservations db k = Some q \<longrightarrow> 0 < q \<and> products db (snd k) \<noteq> None)
     \<and> (\<forall>u v p q. products db u = Some p \<and> products db v = Some q \<and> p_SKU p = p_SKU q \<longrightarrow> u = v)"

definition empty_catalog :: catalog_db where
  "empty_catalog = \<lparr>products = Map.empty, reservations = Map.empty\<rparr>"

lemma empty_catalog_inv [inv_intros]: "catalog_inv empty_catalog"
  by (simp add: catalog_inv_def empty_catalog_def)

lemma catalog_invD:
  assumes "catalog_inv db"
  shows "finite (dom (products db))" "finite (dom (reservations db))" "finite (held_keys db u)"
    "products db u = Some p \<Longrightarrow> p_ID p = u"
    "products db u = Some p \<Longrightarrow> row_ok p"
    "products db u = Some p \<Longrightarrow> row_in_range p"
    "products db u = Some p \<Longrightarrow> p_Reserved p = held_total db u"
    "reservations db k = Some q \<Longrightarrow> 0 < q"
    "reservations db k = Some q \<Longrightarrow> \<exists>p. products db (snd k) = Some p"
  using assms by (auto simp: catalog_inv_def held_keys_def simp del: split_paired_All)

text \<open>One hold is part of the sum, so it is at most what is reserved, and that at most the stock.\<close>

lemma hold_le_reserved:
  assumes "catalog_inv db" and "reservations db k = Some q" and "products db (snd k) = Some p"
  shows "0 < q" "q \<le> p_Reserved p" "p_Reserved p \<le> p_Stock p" "is_int4 q"
proof -
  have mem: "k \<in> held_keys db (snd k)" using assms(2) by (auto simp: held_keys_def)
  have "the (reservations db k) \<le> held_total db (snd k)"
    unfolding held_total_def
  proof (rule member_le_sum [OF mem])
    show "0 \<le> the (reservations db j)" if "j \<in> held_keys db (snd k) - {k}" for j
      using that catalog_invD(8) [OF assms(1), of j] by (force simp: held_keys_def)
  qed (rule catalog_invD(3) [OF assms(1)])
  then show *: "q \<le> p_Reserved p" using assms catalog_invD(7) [OF assms(1,3)] by simp
  show pos: "0 < q" using catalog_invD(8) [OF assms(1,2)] .
  show le: "p_Reserved p \<le> p_Stock p" using catalog_invD(5) [OF assms(1,3)] by (simp add: row_ok_def)
  show "is_int4 q" using * pos le catalog_invD(6) [OF assms(1,3)] by (simp add: row_in_range_def is_int4_def)
qed

text \<open>How the sum changes with one key.\<close>

lemma held_keys_upd:
  "held_keys (db\<lparr>products := P, reservations := (reservations db)(k := v)\<rparr>) u =
     (if snd k = u then (if v = None then held_keys db u - {k} else insert k (held_keys db u))
      else held_keys db u)"
  by (auto simp: held_keys_def)

lemma held_total_upd:
  assumes "finite (held_keys db u)"
  shows "held_total (db\<lparr>products := P, reservations := (reservations db)(k := v)\<rparr>) u =
     held_total db u
     + (if snd k = u then (case v of None \<Rightarrow> 0 | Some q \<Rightarrow> q)
                        - (case reservations db k of None \<Rightarrow> 0 | Some q \<Rightarrow> q) else 0)"
proof (cases "snd k = u")
  case False
  then have "k \<notin> held_keys db u" by (auto simp: held_keys_def)
  then show ?thesis using False unfolding held_total_def held_keys_upd by (auto intro!: sum.cong)
next
  case True
  let ?K = "held_keys db u - {k}"
  have fin: "finite ?K" using assms by simp
  have same: "(\<Sum>j \<in> ?K. the (((reservations db)(k := v)) j)) = (\<Sum>j \<in> ?K. the (reservations db j))"
    by (rule sum.cong) auto
  have old: "held_total db u = (\<Sum>j \<in> ?K. the (reservations db j)) + (case reservations db k of None \<Rightarrow> 0 | Some q \<Rightarrow> q)"
  proof (cases "reservations db k")
    case None
    then have "held_keys db u = ?K" by (auto simp: held_keys_def)
    then show ?thesis using None by (simp add: held_total_def)
  next
    case (Some q)
    then have "k \<in> held_keys db u" using True by (auto simp: held_keys_def)
    then show ?thesis using Some assms by (simp add: held_total_def sum.remove [of "held_keys db u" k])
  qed
  have "held_total (db\<lparr>products := P, reservations := (reservations db)(k := v)\<rparr>) u
      = (\<Sum>j \<in> ?K. the (reservations db j)) + (case v of None \<Rightarrow> 0 | Some q \<Rightarrow> q)"
    unfolding held_total_def held_keys_upd using True fin same
    by (auto simp: sum.insert_remove split: option.splits)
  then show ?thesis using True old by simp
qed

lemma held_total_products [simp]: "held_total (db\<lparr>products := P\<rparr>) u = held_total db u"
  by (simp add: held_total_def held_keys_def)


section \<open>The changes keep the invariant\<close>

lemma catalog_invI:
  assumes "finite (dom (products db))" and "finite (dom (reservations db))"
    and "\<And>u p. products db u = Some p \<Longrightarrow> p_ID p = u \<and> row_ok p \<and> row_in_range p \<and> p_Reserved p = held_total db u"
    and "\<And>k q. reservations db k = Some q \<Longrightarrow> 0 < q \<and> products db (snd k) \<noteq> None"
    and "\<And>u v p q. products db u = Some p \<Longrightarrow> products db v = Some q \<Longrightarrow> p_SKU p = p_SKU q \<Longrightarrow> u = v"
  shows "catalog_inv db"
  unfolding catalog_inv_def using assms by blast

lemma sku_unique:
  "catalog_inv db \<Longrightarrow> products db u = Some p \<Longrightarrow> products db v = Some q \<Longrightarrow> p_SKU p = p_SKU q \<Longrightarrow> u = v"
  unfolding catalog_inv_def by blast

text \<open>Replacing one product row and one reservation.\<close>

lemma catalog_inv_upd:
  assumes "catalog_inv db" and "products db (snd k) = Some p"
    and "p_ID p' = p_ID p" and "p_SKU p' = p_SKU p" and "row_ok p'" and "row_in_range p'"
    and "p_Reserved p' = p_Reserved p + (case v of None \<Rightarrow> 0 | Some q \<Rightarrow> q)
                         - (case reservations db k of None \<Rightarrow> 0 | Some q \<Rightarrow> q)"
    and "\<And>q. v = Some q \<Longrightarrow> 0 < q"
  shows "catalog_inv (db\<lparr>products := (products db)(snd k \<mapsto> p'), reservations := (reservations db)(k := v)\<rparr>)"
    (is "catalog_inv ?db")
proof (rule catalog_invI)
  note inv = catalog_invD [OF assms(1)]
  show "finite (dom (products ?db))" "finite (dom (reservations ?db))"
    using inv(1,2) by (simp_all add: dom_if)
  show "p_ID r = u \<and> row_ok r \<and> row_in_range r \<and> p_Reserved r = held_total ?db u"
    if "products ?db u = Some r" for u r
  proof (cases "u = snd k")
    case True
    then show ?thesis using that assms inv(3) [of "snd k"] inv(4,7) [OF assms(2)]
      by (simp add: held_total_upd)
  next
    case False
    then show ?thesis using that inv(3) [of u] inv(4-7) [of u r] by (simp add: held_total_upd)
  qed
  show "0 < q \<and> products ?db (snd j) \<noteq> None" if "reservations ?db j = Some q" for j q
    using that assms(8) inv(8,9) [of j q] by (auto split: if_splits)
  show "u = w" if "products ?db u = Some r" "products ?db w = Some t" "p_SKU r = p_SKU t" for u w r t
    using that sku_unique [OF assms(1)] assms(2,4) by (simp split: if_splits)
qed

lemma take_hold_inv [inv_intros]:
  assumes "catalog_inv db" and "reservations db k = None"
    and "\<And>p. products db (snd k) = Some p \<Longrightarrow> 0 < q \<and> q \<le> Available p"
  shows "catalog_inv (take_hold now k q db)"
proof (cases "products db (snd k)")
  case (Some p)
  show ?thesis
    unfolding take_hold_def Some option.case
    using assms(3) [OF Some] assms(2) catalog_invD(5,6) [OF assms(1) Some]
    by (intro catalog_inv_upd [OF assms(1) Some])
       (auto simp: row_ok_def row_in_range_def is_int4_def Available_def)
qed (use assms(1) in \<open>simp add: take_hold_def\<close>)

lemma end_hold_inv [inv_intros]:
  assumes "catalog_inv db"
  shows "catalog_inv (end_hold consume now k db)"
proof (cases "\<exists>p q. products db (snd k) = Some p \<and> reservations db k = Some q")
  case True
  then obtain p q where pq: "products db (snd k) = Some p" "reservations db k = Some q" by blast
  show ?thesis
    unfolding end_hold_def pq prod.case option.case
    using hold_le_reserved [OF assms pq(2,1)] catalog_invD(5,6) [OF assms pq(1)] pq(2)
    by (intro catalog_inv_upd [OF assms pq(1)]) (auto simp: row_ok_def row_in_range_def is_int4_def)
next
  case False
  then show ?thesis using assms by (auto simp: end_hold_def split: option.splits)
qed


section \<open>What the operations do\<close>

lemma insert_reservation_Inr:
  "insert_reservation pg oid pid q db = (Inr n, d) \<longleftrightarrow>
     (\<exists>ou u. canon pg oid = Some ou \<and> canon pg pid = Some u \<and> is_int4 q \<and> 0 < q
       \<and> (if reservations db (ou, u) \<noteq> None then n = 0 \<and> d = db
          else n = 1 \<and> products db u \<noteq> None \<and> d = db\<lparr>reservations := (reservations db)((ou, u) \<mapsto> q)\<rparr>))"
  by (auto simp: insert_reservation_def split: option.splits)

lemma delete_reservation_Inr:
  "delete_reservation pg oid pid db = (Inr q, d) \<longleftrightarrow>
     (\<exists>ou u. canon pg oid = Some ou \<and> canon pg pid = Some u \<and> reservations db (ou, u) = Some q
       \<and> d = db\<lparr>reservations := (reservations db)((ou, u) := None)\<rparr>)"
  by (auto simp: delete_reservation_def split: option.splits)

lemma delete_reservation_NoRows:
  "delete_reservation pg oid pid db = (Inl NoRows, d) \<longleftrightarrow>
     (\<exists>ou u. canon pg oid = Some ou \<and> canon pg pid = Some u \<and> reservations db (ou, u) = None \<and> d = db)"
  by (auto simp: delete_reservation_def split: option.splits)

lemma update_product_Inr:
  "update_product pg pid n P f db = (Inr row, d) \<longleftrightarrow>
     (\<exists>u p. canon pg pid = Some u \<and> products db u = Some p \<and> P p \<and> is_int4 n
       \<and> row = (f p)\<lparr>p_UpdatedAt := clock pg\<rparr> \<and> row_in_range row \<and> row_ok row
       \<and> d = db\<lparr>products := (products db)(u \<mapsto> row)\<rparr>)"
  by (auto simp: update_product_def Let_def split: option.splits)

lemma select_product_Inr:
  "select_product pg pid db = (Inr p, d) \<longleftrightarrow>
     (\<exists>u. canon pg pid = Some u \<and> products db u = Some p \<and> d = db)"
  by (auto simp: select_product_def split: option.splits)

lemma current_state_snd:
  assumes "current_state pg pid db db = (r, db')"
  shows "db' = db \<and> (\<forall>p. r = Inr p \<longrightarrow> (\<exists>u. canon pg pid = Some u \<and> products db u = Some p))"
  using assms
  by (auto simp: current_state_def in_tx_def select_product_def commit_tx_def
      split: sum.splits pg_error.splits prod.splits option.splits fate.splits)

text \<open>The guard \<open>GREATEST(0, ...)\<close> of a release never acts: the hold is part of what is reserved.\<close>

lemma update_release_hold:
  assumes "catalog_inv db" and "reservations db (ou, u) = Some q"
    and "update_release pg pid q (db\<lparr>reservations := (reservations db)((ou, u) := None)\<rparr>) = (Inr row, d)"
    and "canon pg pid = Some u"
  shows "d = end_hold False (clock pg) (ou, u) db"
proof -
  obtain p where p: "products db u = Some p" using catalog_invD(9) [OF assms(1,2)] by auto
  have "max 0 (p_Reserved p - q) = p_Reserved p - q"
    using hold_le_reserved [OF assms(1,2)] p by simp
  with assms(2-4) p show ?thesis by (simp add: update_release_def update_product_Inr end_hold_def)
qed

lemma update_commit_hold:
  assumes "catalog_inv db" and "reservations db (ou, u) = Some q"
    and "update_commit pg pid q (db\<lparr>reservations := (reservations db)((ou, u) := None)\<rparr>) = (Inr row, d)"
    and "canon pg pid = Some u"
  shows "d = end_hold True (clock pg) (ou, u) db"
proof -
  obtain p where p: "products db u = Some p" using catalog_invD(9) [OF assms(1,2)] by auto
  have "max 0 (p_Reserved p - q) = p_Reserved p - q" "max 0 (p_Stock p - q) = p_Stock p - q"
    using hold_le_reserved [OF assms(1,2)] p by simp_all
  with assms(2-4) p show ?thesis by (simp add: update_commit_def update_product_Inr end_hold_def)
qed


text \<open>Every way \<open>Reserve\<close> can end.\<close>

lemma Reserve_outcome:
  assumes "Reserve pg oid pid q db = (r, db')"
  shows "(db' = db \<and> (\<forall>p. r = Inr p \<longrightarrow> (\<exists>ou u q'. canon pg oid = Some ou \<and> canon pg pid = Some u
            \<and> reservations db (ou, u) = Some q')))
    \<or> (\<exists>ou u p. canon pg oid = Some ou \<and> canon pg pid = Some u \<and> reservations db (ou, u) = None
        \<and> products db u = Some p \<and> 0 < q \<and> q \<le> Available p
        \<and> db' = take_hold (clock pg) (ou, u) q db \<and> (\<forall>e. r = Inl e \<longrightarrow> (\<exists>m. e = Wrapped m Unreachable)))"
proof (cases "q \<le> 0 \<or> fates pg 0 \<noteq> Runs")
  case True
  then show ?thesis using assms by (cases "q \<le> 0") (auto simp: Reserve_def)
next
  case False
  obtain a d where ins: "in_tx (fates pg 1) (insert_reservation pg oid pid q) db = (a, d)" by force
  show ?thesis
  proof (cases a)
    case (Inl e)
    then show ?thesis using assms False ins by (cases e) (auto simp: Reserve_def)
  next
    case (Inr n)
    from ins obtain ou u where k: "canon pg oid = Some ou" "canon pg pid = Some u" "0 < q"
      and row: "if reservations db (ou, u) \<noteq> None then n = 0 \<and> d = db
          else n = 1 \<and> products db u \<noteq> None \<and> d = db\<lparr>reservations := (reservations db)((ou, u) \<mapsto> q)\<rparr>"
      by (auto simp: Inr in_tx_Inr insert_reservation_Inr)
    show ?thesis
    proof (cases "reservations db (ou, u)")
      case (Some q')
      then show ?thesis using assms False ins Inr row k current_state_snd
        by (fastforce simp: Reserve_def)
    next
      case None
      obtain b d' where upd: "in_tx (fates pg 2) (update_reserve pg pid q) d = (b, d')" by force
      show ?thesis
      proof (cases b)
        case (Inl e)
        then show ?thesis using assms False ins Inr row None upd
          by (cases e) (auto simp: Reserve_def split: sum.splits pg_error.splits)
      next
        case b: (Inr row')
        from upd row None k obtain p where p: "products db u = Some p" "q \<le> Available p"
          and d': "d' = take_hold (clock pg) (ou, u) q db"
          by (auto simp: b in_tx_Inr update_reserve_def update_product_Inr Available_def take_hold_def)
        have "(r, db') = (case commit_tx (fates pg 3) db d' of
             (Inl e, db') \<Rightarrow> (Inl (Wrapped ''committing reservation'' e), db')
           | (Inr _, db') \<Rightarrow> (Inr row', db'))"
          using assms False ins Inr row None upd b by (simp add: Reserve_def)
        then have "db' = db \<and> isl r \<or> db' = d' \<and> (\<forall>e. r = Inl e \<longrightarrow> (\<exists>m. e = Wrapped m Unreachable))"
          by (auto simp: commit_tx_def split: fate.splits)
        then show ?thesis using k None p d' by auto
      qed
    qed
  qed
qed


text \<open>Release and commit are one shape, with another update and other messages.\<close>

definition settle ::
  "(pg \<Rightarrow> string \<Rightarrow> int \<Rightarrow> (catalog_db, Product) stmt) \<Rightarrow> string \<Rightarrow> string
   \<Rightarrow> pg \<Rightarrow> string \<Rightarrow> string \<Rightarrow> catalog_db \<Rightarrow> (store_error, Product) result \<times> catalog_db" where
  "settle update msg1 msg2 pg oid pid db =
     (if fates pg 0 \<noteq> Runs then (Inl (Wrapped ''beginning transaction'' Unreachable), db)
      else case in_tx (fates pg 1) (delete_reservation pg oid pid) db of
        (Inl NoRows, d) \<Rightarrow> current_state pg pid db d
      | (Inl e, _) \<Rightarrow> (Inl (Wrapped ''deleting reservation'' e), db)
      | (Inr quantity, d) \<Rightarrow>
          (case in_tx (fates pg 2) (update pg pid quantity) d of
             (Inl NoRows, _) \<Rightarrow> (Inl ErrProductNotFound, db)
           | (Inl e, _) \<Rightarrow> (Inl (Wrapped msg1 e), db)
           | (Inr updated, d') \<Rightarrow>
               (case commit_tx (fates pg 3) db d' of
                  (Inl e, db') \<Rightarrow> (Inl (Wrapped msg2 e), db')
                | (Inr _, db') \<Rightarrow> (Inr updated, db'))))"

lemma Release_settle: "Release = settle update_release ''releasing stock'' ''committing release''"
  by (intro ext) (simp only: Release_def settle_def)

lemma Commit_settle: "Commit = settle update_commit ''committing stock'' ''committing stock change''"
  by (intro ext) (simp only: Commit_def settle_def)

lemma settle_outcome:
  assumes "settle update m1 m2 pg oid pid db = (r, db')"
    and step: "\<And>ou u q row d. canon pg pid = Some u \<Longrightarrow> reservations db (ou, u) = Some q
      \<Longrightarrow> update pg pid q (db\<lparr>reservations := (reservations db)((ou, u) := None)\<rparr>) = (Inr row, d)
      \<Longrightarrow> d = end_hold consume (clock pg) (ou, u) db"
  shows "(db' = db \<and> (\<forall>p. r = Inr p \<longrightarrow> (\<exists>ou u. canon pg oid = Some ou \<and> canon pg pid = Some u
            \<and> reservations db (ou, u) = None)))
    \<or> (\<exists>ou u q. canon pg oid = Some ou \<and> canon pg pid = Some u \<and> reservations db (ou, u) = Some q
        \<and> db' = end_hold consume (clock pg) (ou, u) db \<and> (\<forall>e. r = Inl e \<longrightarrow> (\<exists>m. e = Wrapped m Unreachable)))"
proof (cases "fates pg 0 = Runs")
  case False
  then show ?thesis using assms(1) by (auto simp: settle_def)
next
  case True
  obtain a d where del: "in_tx (fates pg 1) (delete_reservation pg oid pid) db = (a, d)" by force
  show ?thesis
  proof (cases a)
    case (Inl e)
    show ?thesis
    proof (cases "e = NoRows")
      case norows: True
      have no: "fates pg 1 = Runs" "delete_reservation pg oid pid db = (Inl NoRows, db)" "d = db"
        using del Inl norows
        by (auto simp: in_tx_def delete_reservation_def split: fate.splits prod.splits sum.splits option.splits)
      have "current_state pg pid db db = (r, db')"
        using assms(1) True del Inl norows no(3) by (simp add: settle_def)
      then show ?thesis using current_state_snd no(2) by (fastforce simp: delete_reservation_NoRows)
    next
      case False
      then show ?thesis using assms(1) True del Inl by (cases e) (auto simp: settle_def)
    qed
  next
    case (Inr q)
    from del obtain ou u where k: "canon pg oid = Some ou" "canon pg pid = Some u"
      "reservations db (ou, u) = Some q" "d = db\<lparr>reservations := (reservations db)((ou, u) := None)\<rparr>"
      by (auto simp: Inr in_tx_Inr delete_reservation_Inr)
    obtain b d' where upd: "in_tx (fates pg 2) (update pg pid q) d = (b, d')" by force
    show ?thesis
    proof (cases b)
      case (Inl e)
      then show ?thesis using assms(1) True del Inr upd by (cases e) (auto simp: settle_def)
    next
      case b: (Inr row)
      have "update pg pid q d = (Inr row, d')" using upd by (simp add: b in_tx_Inr)
      then have d': "d' = end_hold consume (clock pg) (ou, u) db" using step k by simp
      have "(r, db') = (case commit_tx (fates pg 3) db d' of
             (Inl e, db') \<Rightarrow> (Inl (Wrapped m2 e), db') | (Inr _, db') \<Rightarrow> (Inr row, db'))"
        using assms(1) True del Inr upd b by (simp add: settle_def)
      then have "db' = db \<and> isl r \<or> db' = d' \<and> (\<forall>e. r = Inl e \<longrightarrow> (\<exists>m. e = Wrapped m Unreachable))"
        by (auto simp: commit_tx_def split: fate.splits)
      then show ?thesis using k d' by auto
    qed
  qed
qed

lemma Release_outcome:
  assumes "catalog_inv db" and "Release pg oid pid db = (r, db')"
  shows "(db' = db \<and> (\<forall>p. r = Inr p \<longrightarrow> (\<exists>ou u. canon pg oid = Some ou \<and> canon pg pid = Some u
            \<and> reservations db (ou, u) = None)))
    \<or> (\<exists>ou u q. canon pg oid = Some ou \<and> canon pg pid = Some u \<and> reservations db (ou, u) = Some q
        \<and> db' = end_hold False (clock pg) (ou, u) db \<and> (\<forall>e. r = Inl e \<longrightarrow> (\<exists>m. e = Wrapped m Unreachable)))"
  by (rule settle_outcome [OF assms(2) [unfolded Release_settle]]) (rule update_release_hold [OF assms(1)])

lemma Commit_outcome:
  assumes "catalog_inv db" and "Commit pg oid pid db = (r, db')"
  shows "(db' = db \<and> (\<forall>p. r = Inr p \<longrightarrow> (\<exists>ou u. canon pg oid = Some ou \<and> canon pg pid = Some u
            \<and> reservations db (ou, u) = None)))
    \<or> (\<exists>ou u q. canon pg oid = Some ou \<and> canon pg pid = Some u \<and> reservations db (ou, u) = Some q
        \<and> db' = end_hold True (clock pg) (ou, u) db \<and> (\<forall>e. r = Inl e \<longrightarrow> (\<exists>m. e = Wrapped m Unreachable)))"
  by (rule settle_outcome [OF assms(2) [unfolded Commit_settle]]) (rule update_commit_hold [OF assms(1)])


section \<open>Without faults\<close>

abbreviation runs :: "pg \<Rightarrow> bool" where "runs pg \<equiv> (\<forall>i. fates pg i = Runs)"

lemma Reserve_runs:
  assumes "catalog_inv db" and "runs pg" and "canon pg oid = Some ou" and "canon pg pid = Some u"
    and "0 < q" and "is_int4 q"
  shows "Reserve pg oid pid q db =
    (case reservations db (ou, u) of
       Some _ \<Rightarrow> (Inr (the (products db u)), db)
     | None \<Rightarrow>
         (case products db u of
            None \<Rightarrow> (Inl ErrProductNotFound, db)
          | Some p \<Rightarrow>
              if q \<le> Available p
              then (Inr (p\<lparr>p_Reserved := p_Reserved p + q, p_UpdatedAt := clock pg\<rparr>), take_hold (clock pg) (ou, u) q db)
              else (Inl ErrInsufficientStock, db)))"
proof (cases "reservations db (ou, u)")
  case (Some q')
  then obtain p where "products db u = Some p" using catalog_invD(9) [OF assms(1)] by force
  then show ?thesis using assms Some
    by (simp add: Reserve_def store_simps insert_reservation_def current_state_def select_product_def)
next
  case None
  show ?thesis
  proof (cases "products db u")
    case p: (Some p)
    let ?row = "p\<lparr>p_Reserved := p_Reserved p + q, p_UpdatedAt := clock pg\<rparr>"
    have "row_in_range ?row \<and> row_ok ?row" if "q \<le> Available p"
      using that assms(5) catalog_invD(5,6) [OF assms(1) p]
      by (simp add: row_ok_def row_in_range_def is_int4_def Available_def)
    then have "update_reserve pg pid q d = (if q \<le> Available p
        then (Inr ?row, d\<lparr>products := (products d)(u \<mapsto> ?row)\<rparr>) else (Inl NoRows, d))"
      if "products d = products db" for d
      using that p assms(4,6) by (auto simp: update_reserve_def update_product_def Available_def Let_def)
    then show ?thesis using assms None p
      by (simp add: Reserve_def store_simps insert_reservation_def select_product_def take_hold_def)
  qed (use assms None in \<open>simp add: Reserve_def store_simps insert_reservation_def\<close>)
qed

lemma settle_runs:
  assumes "catalog_inv db" and "runs pg" and "canon pg oid = Some ou" and "canon pg pid = Some u"
    and step: "\<And>p q. products db u = Some p \<Longrightarrow> reservations db (ou, u) = Some q \<Longrightarrow>
      update pg pid q (db\<lparr>reservations := (reservations db)((ou, u) := None)\<rparr>)
        = (Inr (the (products (end_hold consume (clock pg) (ou, u) db) u)), end_hold consume (clock pg) (ou, u) db)"
  shows "settle update m1 m2 pg oid pid db =
    (case products (end_hold consume (clock pg) (ou, u) db) u of
       None \<Rightarrow> (Inl ErrProductNotFound, db)
     | Some p \<Rightarrow> (Inr p, end_hold consume (clock pg) (ou, u) db))"
proof (cases "reservations db (ou, u)")
  case None
  then have "end_hold consume (clock pg) (ou, u) db = db" by (simp add: end_hold_def split: option.splits)
  then show ?thesis using assms(2-4) None
    by (simp add: settle_def store_simps delete_reservation_def current_state_def select_product_def
        split: option.splits)
next
  case (Some q)
  then obtain p where p: "products db u = Some p" using catalog_invD(9) [OF assms(1)] by force
  then have "products (end_hold consume (clock pg) (ou, u) db) u \<noteq> None" using Some by (simp add: end_hold_def)
  then show ?thesis using assms(2-4) Some step [OF p Some]
    by (auto simp: settle_def store_simps delete_reservation_def)
qed

lemma Release_runs:
  assumes "catalog_inv db" and "runs pg" and "canon pg oid = Some ou" and "canon pg pid = Some u"
  shows "Release pg oid pid db =
    (case products (end_hold False (clock pg) (ou, u) db) u of
       None \<Rightarrow> (Inl ErrProductNotFound, db)
     | Some p \<Rightarrow> (Inr p, end_hold False (clock pg) (ou, u) db))"
  unfolding Release_settle
proof (rule settle_runs [OF assms])
  fix p q assume p: "products db u = Some p" and q: "reservations db (ou, u) = Some q"
  note h = hold_le_reserved [OF assms(1) q, simplified, OF p]
  show "update_release pg pid q (db\<lparr>reservations := (reservations db)((ou, u) := None)\<rparr>)
      = (Inr (the (products (end_hold False (clock pg) (ou, u) db) u)), end_hold False (clock pg) (ou, u) db)"
    using p q h assms(4) catalog_invD(5,6) [OF assms(1) p]
    by (simp add: update_release_def update_product_def Let_def end_hold_def row_ok_def row_in_range_def is_int4_def)
qed

lemma Commit_runs:
  assumes "catalog_inv db" and "runs pg" and "canon pg oid = Some ou" and "canon pg pid = Some u"
  shows "Commit pg oid pid db =
    (case products (end_hold True (clock pg) (ou, u) db) u of
       None \<Rightarrow> (Inl ErrProductNotFound, db)
     | Some p \<Rightarrow> (Inr p, end_hold True (clock pg) (ou, u) db))"
  unfolding Commit_settle
proof (rule settle_runs [OF assms])
  fix p q assume p: "products db u = Some p" and q: "reservations db (ou, u) = Some q"
  note h = hold_le_reserved [OF assms(1) q, simplified, OF p]
  show "update_commit pg pid q (db\<lparr>reservations := (reservations db)((ou, u) := None)\<rparr>)
      = (Inr (the (products (end_hold True (clock pg) (ou, u) db) u)), end_hold True (clock pg) (ou, u) db)"
    using p q h assms(4) catalog_invD(5,6) [OF assms(1) p]
    by (simp add: update_commit_def update_product_def Let_def end_hold_def row_ok_def row_in_range_def is_int4_def)
qed

end
