(* ===== verification/CatalogProps.thy ===== *)
theory CatalogProps
  imports CatalogStock
begin

text \<open>
  The catalog as a store: every sequence of operations, under any faults, keeps the stock
  invariant; reserving, releasing and committing refine an abstract inventory; a retried operation
  has its effect once.
\<close>

datatype catalog_op =
    DoCreate Product
  | DoReserve string string int
  | DoRelease string string
  | DoCommit string string
  | DoAddStock string int

fun catalog_exec :: "catalog_op \<Rightarrow> pg \<Rightarrow> catalog_db \<Rightarrow> (store_error, Product) result \<times> catalog_db" where
  "catalog_exec (DoCreate p) pg db = CreateProduct pg p db"
| "catalog_exec (DoReserve oid pid q) pg db = Reserve pg oid pid q db"
| "catalog_exec (DoRelease oid pid) pg db = Release pg oid pid db"
| "catalog_exec (DoCommit oid pid) pg db = Commit pg oid pid db"
| "catalog_exec (DoAddStock pid n) pg db = AddStock pg pid n db"

section \<open>Every operation keeps the invariant\<close>

lemma CreateProduct_snd:
  "snd (CreateProduct pg p db) = snd (on_pool (fates pg 0) (insert_product pg p) db)"
  by (auto simp: CreateProduct_def split: prod.splits sum.splits pg_error.splits)

lemma AddStock_snd:
  "snd (AddStock pg pid n db) =
     (if n \<le> 0 then db else snd (on_pool (fates pg 0) (update_stock pg pid n) db))"
  by (auto simp: AddStock_def split: prod.splits sum.splits pg_error.splits)

lemma insert_product_inv:
  assumes "catalog_inv db" and "insert_product pg p db = (Inr row, db')"
  shows "catalog_inv db'"
proof -
  note inv = catalog_invD [OF assms(1)]
  obtain u where u: "canon pg (p_ID p) = Some u" using assms(2)
    by (auto simp: insert_product_def split: option.splits)
  have row: "row = p\<lparr>p_ID := u, p_Reserved := 0, p_CreatedAt := clock pg, p_UpdatedAt := clock pg\<rparr>"
    "row_in_range row" "row_ok row" "products db u = None"
    and sku: "\<forall>q \<in> ran (products db). p_SKU q \<noteq> p_SKU row"
    and db': "db' = db\<lparr>products := (products db)(u \<mapsto> row)\<rparr>"
    using assms(2) u by (auto simp: insert_product_def Let_def split: if_splits)
  have id: "p_ID row = u" "p_Reserved row = 0" by (simp_all add: row(1))
  have none: "held_keys db u = {}" using inv(9) row(4) by (fastforce simp: held_keys_def)
  show ?thesis unfolding db'
  proof (rule catalog_invI)
    show "p_ID r = v \<and> row_ok r \<and> row_in_range r
        \<and> p_Reserved r = held_total (db\<lparr>products := (products db)(u \<mapsto> row)\<rparr>) v"
      if "products (db\<lparr>products := (products db)(u \<mapsto> row)\<rparr>) v = Some r" for v r
    proof (cases "v = u")
      case True
      with that row(2,3) id show ?thesis using none by (simp add: held_total_def [of db])
    next
      case False
      with that inv(4-7) [of v r] show ?thesis by simp
    qed
    show "v = w" if "products (db\<lparr>products := (products db)(u \<mapsto> row)\<rparr>) v = Some r"
      "products (db\<lparr>products := (products db)(u \<mapsto> row)\<rparr>) w = Some t" "p_SKU r = p_SKU t" for v w r t
      using that sku sku_unique [OF assms(1)] by (auto simp: ran_def split: if_splits)
    show "0 < q \<and> products (db\<lparr>products := (products db)(u \<mapsto> row)\<rparr>) (snd k) \<noteq> None"
      if "reservations (db\<lparr>products := (products db)(u \<mapsto> row)\<rparr>) k = Some q" for k q
      using that inv(8,9) [of k q] by auto
  qed (use inv(1,2) in simp_all)
qed

lemma update_stock_inv:
  assumes "catalog_inv db" and "update_stock pg pid n db = (Inr row, db')"
  shows "catalog_inv db'"
proof -
  from assms(2) obtain u p where p: "products db u = Some p"
    and row: "row = p\<lparr>p_Stock := p_Stock p + n, p_UpdatedAt := clock pg\<rparr>" "row_in_range row" "row_ok row"
    and db': "db' = db\<lparr>products := (products db)(u \<mapsto> row)\<rparr>"
    by (auto simp: update_stock_def update_product_Inr)
  have "catalog_inv (db\<lparr>products := (products db)(snd ([] :: string, u) \<mapsto> row),
      reservations := (reservations db)(([], u) := reservations db ([], u))\<rparr>)"
  proof (rule catalog_inv_upd [OF assms(1)])
    show "products db (snd ([] :: string, u)) = Some p" using p by simp
    show "0 < q" if "reservations db ([], u) = Some q" for q using catalog_invD(8) [OF assms(1) that] .
  qed (use row(2,3) in \<open>auto simp: row(1)\<close>)
  then show ?thesis using db' by simp
qed

lemma catalog_exec_inv: "catalog_inv db \<Longrightarrow> catalog_inv (snd (catalog_exec op pg db))"
proof (cases op)
  case (DoCreate p)
  assume inv: "catalog_inv db"
  show ?thesis unfolding DoCreate catalog_exec.simps CreateProduct_snd
    by (rule on_pool_inv [of catalog_inv, OF inv]) (rule insert_product_inv [OF inv])
next
  case (DoReserve oid pid q)
  assume inv: "catalog_inv db"
  show ?thesis using Reserve_outcome [of pg oid pid q db, OF prod.collapse [symmetric]] inv
    by (auto simp: DoReserve intro!: take_hold_inv)
next
  case (DoRelease oid pid)
  assume inv: "catalog_inv db"
  show ?thesis using Release_outcome [OF inv, of pg oid pid, OF prod.collapse [symmetric]] inv
    by (auto simp: DoRelease intro: end_hold_inv)
next
  case (DoCommit oid pid)
  assume inv: "catalog_inv db"
  show ?thesis using Commit_outcome [OF inv, of pg oid pid, OF prod.collapse [symmetric]] inv
    by (auto simp: DoCommit intro: end_hold_inv)
next
  case (DoAddStock pid n)
  assume inv: "catalog_inv db"
  show ?thesis using inv unfolding DoAddStock catalog_exec.simps AddStock_snd
    by (auto intro: on_pool_inv [of catalog_inv, OF inv] update_stock_inv [OF inv])
qed


text \<open>Products are never removed, and what was ordered of them stays what it was.\<close>

definition same_product :: "Product \<Rightarrow> Product \<Rightarrow> bool" where
  "same_product p p' \<longleftrightarrow> p_ID p' = p_ID p \<and> p_SKU p' = p_SKU p \<and> p_Name p' = p_Name p
     \<and> p_Description p' = p_Description p \<and> p_PriceCents p' = p_PriceCents p
     \<and> p_Currency p' = p_Currency p \<and> p_CreatedAt p' = p_CreatedAt p"

definition catalog_evolves :: "catalog_db \<Rightarrow> catalog_db \<Rightarrow> bool" where
  "catalog_evolves db db' \<longleftrightarrow>
     (\<forall>u p. products db u = Some p \<longrightarrow> (\<exists>p'. products db' u = Some p' \<and> same_product p p'))"

lemma catalog_evolves_refl: "catalog_evolves db db"
  by (simp add: catalog_evolves_def same_product_def)

lemma catalog_evolves_upd:
  assumes "products db u = Some p" and "same_product p p'"
  shows "catalog_evolves db (db\<lparr>products := (products db)(u \<mapsto> p'), reservations := R\<rparr>)"
  using assms by (auto simp: catalog_evolves_def same_product_def)

lemma take_hold_evolves: "catalog_evolves db (take_hold now k q db)"
  by (auto simp: take_hold_def same_product_def catalog_evolves_refl split: option.splits
      intro!: catalog_evolves_upd)

lemma end_hold_evolves: "catalog_evolves db (end_hold consume now k db)"
  by (auto simp: end_hold_def same_product_def catalog_evolves_refl split: option.splits
      intro!: catalog_evolves_upd)

lemma insert_product_evolves:
  "insert_product pg p db = (Inr row, db') \<Longrightarrow> catalog_evolves db db'"
  by (auto simp: insert_product_def Let_def catalog_evolves_def same_product_def split: option.splits if_splits)

lemma update_stock_evolves:
  assumes "update_stock pg pid n db = (Inr row, db')"
  shows "catalog_evolves db db'"
proof -
  from assms obtain u p where p: "products db u = Some p"
    and row: "row = p\<lparr>p_Stock := p_Stock p + n, p_UpdatedAt := clock pg\<rparr>"
    and db': "db' = db\<lparr>products := (products db)(u \<mapsto> row)\<rparr>"
    by (auto simp: update_stock_def update_product_Inr)
  then show ?thesis by (auto simp: catalog_evolves_def same_product_def)
qed

lemma catalog_exec_evolves:
  assumes "catalog_inv db"
  shows "catalog_evolves db (snd (catalog_exec op pg db))"
proof (cases op)
  case (DoCreate p)
  show ?thesis unfolding DoCreate catalog_exec.simps CreateProduct_snd
    by (rule on_pool_inv [of "catalog_evolves db"]) (rule catalog_evolves_refl insert_product_evolves, assumption?)+
next
  case (DoReserve oid pid q)
  then show ?thesis using Reserve_outcome [of pg oid pid q db, OF prod.collapse [symmetric]]
    by (auto simp: catalog_evolves_refl take_hold_evolves)
next
  case (DoRelease oid pid)
  then show ?thesis using Release_outcome [OF assms, of pg oid pid, OF prod.collapse [symmetric]]
    by (auto simp: catalog_evolves_refl end_hold_evolves)
next
  case (DoCommit oid pid)
  then show ?thesis using Commit_outcome [OF assms, of pg oid pid, OF prod.collapse [symmetric]]
    by (auto simp: catalog_evolves_refl end_hold_evolves)
next
  case (DoAddStock pid n)
  show ?thesis unfolding DoAddStock catalog_exec.simps AddStock_snd
    by (auto simp: catalog_evolves_refl intro!: on_pool_inv [of "catalog_evolves db"] intro: update_stock_evolves)
qed

lemma same_product_trans: "same_product p q \<Longrightarrow> same_product q r \<Longrightarrow> same_product p r"
  by (simp add: same_product_def)

interpretation catalog: evolving_store catalog_exec catalog_inv catalog_evolves
proof unfold_locales
  show "catalog_evolves db db' \<Longrightarrow> catalog_evolves db' db'' \<Longrightarrow> catalog_evolves db db''" for db db' db''
    unfolding catalog_evolves_def by (meson same_product_trans)
qed (simp_all add: catalog_exec_inv catalog_exec_evolves catalog_evolves_refl)

section \<open>Properties\<close>

text \<open>
  C18.  Stock is never promised twice.  Whatever sequence of operations is run on an empty catalog,
  with whatever arguments, identifiers and lost round trips, the quantity reserved of a product is
  the sum of the reservations held for it and at most its stock.
\<close>

theorem never_oversold:
  assumes "products (run_ops catalog_exec ops empty_catalog) u = Some p"
  shows "p_Reserved p = held_total (run_ops catalog_exec ops empty_catalog) u
       \<and> 0 \<le> p_Reserved p \<and> p_Reserved p \<le> p_Stock p \<and> p_Stock p < 2 ^ 31"
proof -
  have inv: "catalog_inv (run_ops catalog_exec ops empty_catalog)"
    by (rule catalog.run_inv) (rule empty_catalog_inv)
  from catalog_invD(5-7) [OF inv assms] show ?thesis
    by (simp add: row_ok_def row_in_range_def is_int4_def)
qed

text \<open>A concrete environment: every round trip runs, every text is a spelling of itself.\<close>

definition steady :: "int \<Rightarrow> pg" where
  "steady now = \<lparr>fates = (\<lambda>_. Runs), clock = now, canon = Some\<rparr>"

lemma steady_simps [simp]:
  "fates (steady now) i = Runs" "clock (steady now) = now" "canon (steady now) = Some"
  by (simp_all add: steady_def)

definition widget :: Product where
  "widget = \<lparr>p_ID = ''w'', p_SKU = ''W-1'', p_Name = ''widget'', p_Description = '''', p_PriceCents = 250,
     p_Currency = ''USD'', p_Stock = 5, p_Reserved = 0, p_CreatedAt = 1, p_UpdatedAt = 1\<rparr>"

lemma create_widget:
  "CreateProduct (steady 1) widget empty_catalog =
     (Inr widget, empty_catalog\<lparr>products := [''w'' \<mapsto> widget]\<rparr>)"
  by (simp add: CreateProduct_def store_simps insert_product_def Let_def widget_def empty_catalog_def row_ok_def
      row_in_range_def is_int4_def is_int64_def min_int64_def max_int64_def text_ok_def)

lemma widget_inv: "catalog_inv (empty_catalog\<lparr>products := [''w'' \<mapsto> widget]\<rparr>)"
  using catalog_exec_inv [OF empty_catalog_inv, of "DoCreate widget" "steady 1"] create_widget by simp

lemma reserve_widget:
  "Reserve (steady 2) ''o'' ''w'' 3 (empty_catalog\<lparr>products := [''w'' \<mapsto> widget]\<rparr>) =
     (Inr (widget\<lparr>p_Reserved := 3, p_UpdatedAt := 2\<rparr>),
      \<lparr>products = [''w'' \<mapsto> widget\<lparr>p_Reserved := 3, p_UpdatedAt := 2\<rparr>], reservations = [(''o'', ''w'') \<mapsto> 3]\<rparr>)"
  using Reserve_runs [OF widget_inv, of "steady 2" "''o''" "''o''" "''w''" "''w''" 3]
  by (simp add: is_int4_def empty_catalog_def widget_def Available_def take_hold_def)

theorem never_oversold_witness:
  "\<exists>p. products (run_ops catalog_exec [(DoCreate widget, steady 1), (DoReserve ''o'' ''w'' 3, steady 2)]
         empty_catalog) ''w'' = Some p
     \<and> p_Reserved p = 3 \<and> p_Reserved p \<le> p_Stock p"
  using never_oversold [of "[(DoCreate widget, steady 1), (DoReserve ''o'' ''w'' 3, steady 2)]" "''w''"]
  by (simp add: create_widget reserve_widget)

section \<open>The abstract inventory\<close>

text \<open>
  What the catalog promises: units on hand per product, and holds on them per order and product.
\<close>

record inventory =
  on_hand :: "string \<rightharpoonup> int"
  holds :: "string \<times> string \<rightharpoonup> int"

definition promised :: "inventory \<Rightarrow> string \<Rightarrow> int" where
  "promised i u = (\<Sum>k \<in> {k \<in> dom (holds i). snd k = u}. the (holds i k))"

definition inventory_of :: "catalog_db \<Rightarrow> inventory" where
  "inventory_of db = \<lparr>on_hand = (\<lambda>u. map_option p_Stock (products db u)), holds = reservations db\<rparr>"

definition spec_reserve :: "string \<times> string \<Rightarrow> int \<Rightarrow> inventory \<Rightarrow> bool \<times> inventory" where
  "spec_reserve k q i =
     (case on_hand i (snd k) of
        None \<Rightarrow> (False, i)
      | Some s \<Rightarrow>
          if holds i k \<noteq> None then (True, i)
          else if q \<le> s - promised i (snd k) then (True, i\<lparr>holds := (holds i)(k \<mapsto> q)\<rparr>)
          else (False, i))"

definition spec_end :: "bool \<Rightarrow> string \<times> string \<Rightarrow> inventory \<Rightarrow> bool \<times> inventory" where
  "spec_end consume k i =
     (case on_hand i (snd k) of
        None \<Rightarrow> (False, i)
      | Some s \<Rightarrow>
          (True, case holds i k of
             None \<Rightarrow> i
           | Some q \<Rightarrow> \<lparr>on_hand = (if consume then (on_hand i)(snd k \<mapsto> s - q) else on_hand i),
                        holds = (holds i)(k := None)\<rparr>))"

lemma inventory_of_simps [simp]:
  "on_hand (inventory_of db) u = map_option p_Stock (products db u)" "holds (inventory_of db) = reservations db"
  by (simp_all add: inventory_of_def)

lemma promised_inventory_of [simp]: "promised (inventory_of db) u = held_total db u"
  by (simp add: promised_def held_total_def held_keys_def)

lemma inventory_take_hold:
  "products db (snd k) = Some p \<Longrightarrow>
   inventory_of (take_hold now k q db) = (inventory_of db)\<lparr>holds := (reservations db)(k \<mapsto> q)\<rparr>"
  by (auto simp: inventory_of_def take_hold_def)

lemma spec_end_inventory:
  assumes "products db (snd k) = Some p"
  shows "spec_end consume k (inventory_of db) = (True, inventory_of (end_hold consume now k db))"
  using assms by (auto simp: spec_end_def inventory_of_def end_hold_def split: option.splits)



section \<open>Retries\<close>

text \<open>
  The change an operation on the hold \<open>k\<close> makes when it takes effect, and when it has nothing left
  to do.
\<close>

fun effect :: "catalog_op \<Rightarrow> int \<Rightarrow> string \<times> string \<Rightarrow> catalog_db \<Rightarrow> catalog_db" where
  "effect (DoReserve _ _ q) now k db = (if reservations db k = None then take_hold now k q db else db)"
| "effect (DoRelease _ _) now k db = end_hold False now k db"
| "effect (DoCommit _ _) now k db = end_hold True now k db"
| "effect _ now k db = db"

fun settled :: "catalog_op \<Rightarrow> string \<times> string \<Rightarrow> catalog_db \<Rightarrow> bool" where
  "settled (DoReserve _ _ _) k db \<longleftrightarrow> reservations db k \<noteq> None"
| "settled _ k db \<longleftrightarrow> reservations db k = None"

lemma end_hold_settled:
  "catalog_inv db \<Longrightarrow> reservations (end_hold consume now k db) k = None"
  using catalog_invD(9) [of db k] by (cases "reservations db k") (auto simp: end_hold_def split: option.splits)

lemma settled_effect:
  assumes "settled op k db" and "op \<in> {DoReserve oid pid q, DoRelease oid pid, DoCommit oid pid}"
  shows "effect op now k db = db"
  using assms by (auto simp: end_hold_def split: option.splits)

lemma attempt:
  assumes "catalog_inv db" and "op \<in> {DoReserve oid pid q, DoRelease oid pid, DoCommit oid pid}"
    and "canon pg oid = Some ou" and "canon pg pid = Some u"
    and "catalog_exec op pg db = (r, db')" and "k = (ou, u)"
  shows "(db' = db \<or> \<not> settled op k db \<and> db' = effect op (clock pg) k db \<and> settled op k db')
    \<and> (is_ok r \<longrightarrow> settled op k db')"
proof -
  consider "op = DoReserve oid pid q" | "op = DoRelease oid pid" | "op = DoCommit oid pid"
    using assms(2) by blast
  then show ?thesis
  proof cases
    case 1
    then show ?thesis using Reserve_outcome [of pg oid pid q db r db'] assms(3-6)
      by (cases r) (auto simp: take_hold_def)
  next
    case 2
    then show ?thesis
      using Release_outcome [OF assms(1), of pg oid pid r db'] assms(3-6) end_hold_settled [OF assms(1)]
      by (cases r) auto
  next
    case 3
    then show ?thesis
      using Commit_outcome [OF assms(1), of pg oid pid r db'] assms(3-6) end_hold_settled [OF assms(1)]
      by (cases r) auto
  qed
qed

lemma attempts_settled:
  assumes "catalog_inv db" and "op \<in> {DoReserve oid pid q, DoRelease oid pid, DoCommit oid pid}"
    and "\<forall>pg \<in> set pgs. canon pg oid = Some ou \<and> canon pg pid = Some u"
    and "settled op (ou, u) db"
  shows "run_ops catalog_exec (map (\<lambda>pg. (op, pg)) pgs) db = db"
  using assms
proof (induction pgs)
  case (Cons pg pgs)
  have "snd (catalog_exec op pg db) = db"
    using attempt [OF Cons.prems(1,2) _ _ prod.collapse [symmetric] refl] Cons.prems(3,4) by auto
  then show ?case using Cons by simp
qed simp

text \<open>
  C20.  A retried reserve, release or commit has its effect at most once, and exactly once when it was
  acknowledged: after any number of attempts, each losing any round trips, the tables are as before
  or as one attempt alone leaves them, and the latter if one of the attempts was acknowledged.
\<close>

theorem retries_act_once:
  assumes "catalog_inv db" and "op \<in> {DoReserve oid pid q, DoRelease oid pid, DoCommit oid pid}"
    and "\<forall>pg \<in> set pgs. canon pg oid = Some ou \<and> canon pg pid = Some u"
    and "ops = map (\<lambda>pg. (op, pg)) pgs"
  shows "(run_ops catalog_exec ops db = db
        \<or> (\<exists>pg \<in> set pgs. run_ops catalog_exec ops db = effect op (clock pg) (ou, u) db))
    \<and> ((\<exists>r \<in> set (replies catalog_exec ops db). is_ok r)
        \<longrightarrow> (\<exists>pg \<in> set pgs. run_ops catalog_exec ops db = effect op (clock pg) (ou, u) db))"
  using assms
proof (induction pgs arbitrary: db ops)
  case (Cons pg pgs)
  obtain r db' where e: "catalog_exec op pg db = (r, db')" by force
  have c: "canon pg oid = Some ou" "canon pg pid = Some u"
    and cs: "\<forall>pg \<in> set pgs. canon pg oid = Some ou \<and> canon pg pid = Some u"
    using Cons.prems(3) by auto
  note att = attempt [OF Cons.prems(1,2) c e refl]
  have inv': "catalog_inv db'" using catalog_exec_inv [OF Cons.prems(1), of op pg] e by simp
  note stay = attempts_settled [OF inv' Cons.prems(2) cs]
  consider (same) "db' = db" "\<not> is_ok r"
    | (acted) "\<exists>pg' \<in> set (pg # pgs). run_ops catalog_exec ops db = effect op (clock pg') (ou, u) db"
  proof -
    have *: "run_ops catalog_exec ops db = effect op (clock pg) (ou, u) db"
      if "settled op (ou, u) db'"
      using that att stay settled_effect [OF _ Cons.prems(2)] Cons.prems(4) e by auto
    then show thesis using that att by auto
  qed
  then show ?case
  proof cases
    case same
    then show ?thesis using Cons.IH [OF Cons.prems(1,2) cs refl] Cons.prems(4) e by auto
  qed blast
qed simp

text \<open>The witness: a first attempt whose commit is lost after it ran, then a retry that is answered.\<close>

definition lost_commit :: "int \<Rightarrow> pg" where
  "lost_commit now = \<lparr>fates = (\<lambda>_. Runs)(3 := Unanswered), clock = now, canon = Some\<rparr>"

theorem retries_act_once_witness:
  "\<exists>db. catalog_inv db
     \<and> (\<exists>now \<in> {2, 3}. run_ops catalog_exec [(DoReserve ''o'' ''w'' 3, lost_commit 2),
            (DoReserve ''o'' ''w'' 3, steady 3)] db = take_hold now (''o'', ''w'') 3 db)"
proof -
  let ?db = "empty_catalog\<lparr>products := [''w'' \<mapsto> widget]\<rparr>"
  let ?op = "DoReserve ''o'' ''w'' 3"
  let ?ops = "[(?op, lost_commit 2), (?op, steady 3)]"
  have none: "reservations ?db (''o'', ''w'') = None" by (simp add: empty_catalog_def)
  have "is_ok (fst (catalog_exec ?op (steady 3) db))" if "catalog_inv db" "products db ''w'' \<noteq> None"
    "reservations db (''o'', ''w'') \<noteq> None \<or> db = ?db" for db
    using that Reserve_runs [OF that(1), of "steady 3" "''o''" "''o''" "''w''" "''w''" 3]
    by (auto simp: is_int4_def widget_def Available_def split: option.splits)
  moreover have "snd (catalog_exec ?op (lost_commit 2) ?db) \<in> {?db, take_hold 2 (''o'', ''w'') 3 ?db}"
    using Reserve_outcome [of "lost_commit 2" "''o''" "''w''" 3 ?db, OF prod.collapse [symmetric]]
    by (auto simp: lost_commit_def)
  ultimately have "\<exists>r \<in> set (replies catalog_exec ?ops ?db). is_ok r"
    using catalog_exec_inv [OF widget_inv, of ?op "lost_commit 2"] widget_inv
    by (auto simp: take_hold_def)
  then have "\<exists>pg \<in> set [lost_commit 2, steady 3]. run_ops catalog_exec ?ops ?db = effect ?op (clock pg) (''o'', ''w'') ?db"
    using retries_act_once [OF widget_inv, of ?op "''o''" "''w''" 3 "[lost_commit 2, steady 3]" "''o''" "''w''" ?ops]
    by (simp add: lost_commit_def steady_def)
  then show ?thesis using widget_inv none by (intro exI [of _ ?db]) (auto simp: lost_commit_def)
qed

end
