(* ===== verification/Httpx.thy ===== *)
theory Httpx
  imports Prelude
begin

text \<open>
  The HTTP conventions the services share (\<open>pkg/httpx/httpx.go\<close>) and the helpers each service
  repeats (\<open>intParam\<close>, \<open>newUUID\<close>): decoding of a JSON body into a request struct, the two kinds of
  responses, the trusted subject header, bounded query parameters, random identifiers.

  A string is the list of its bytes.  A JSON document is the value it denotes; the scanner of
  \<open>encoding/json\<close> is not modelled, only what the decoder does with the values it finds.
\<close>

unbundle bit_operations_syntax

section \<open>Strings\<close>

definition ascii_upper :: "char \<Rightarrow> char" where
  "ascii_upper c = (if 97 \<le> (of_char c :: nat) \<and> (of_char c :: nat) \<le> 122 then char_of ((of_char c :: nat) - 32) else c)"

definition ascii_lower :: "char \<Rightarrow> char" where
  "ascii_lower c = (if 65 \<le> (of_char c :: nat) \<and> (of_char c :: nat) \<le> 90 then char_of ((of_char c :: nat) + 32) else c)"

text \<open>\<open>strings.ToUpper\<close> and \<open>ToLower\<close>, on the ASCII letters.\<close>

definition ToUpper :: "string \<Rightarrow> string" where "ToUpper s = map ascii_upper s"

definition ToLower :: "string \<Rightarrow> string" where "ToLower s = map ascii_lower s"

text \<open>The white space of \<open>unicode.IsSpace\<close>, as UTF-8 byte sequences.\<close>

definition spaces :: "nat list list" where
  "spaces = [[9], [10], [11], [12], [13], [32], [194, 133], [194, 160], [225, 154, 128],
     [226, 128, 128], [226, 128, 129], [226, 128, 130], [226, 128, 131], [226, 128, 132],
     [226, 128, 133], [226, 128, 134], [226, 128, 135], [226, 128, 136], [226, 128, 137],
     [226, 128, 138], [226, 128, 168], [226, 128, 169], [226, 128, 175], [226, 129, 159],
     [227, 128, 128]]"

definition leading_space :: "nat list list \<Rightarrow> string \<Rightarrow> nat option" where
  "leading_space ws s =
     map_option length (find (\<lambda>w. w \<noteq> [] \<and> map of_char (take (length w) s) = w) ws)"

fun trim_left :: "nat list list \<Rightarrow> string \<Rightarrow> string" where
  "trim_left ws [] = []"
| "trim_left ws (c # s) =
     (case leading_space ws (c # s) of None \<Rightarrow> c # s | Some n \<Rightarrow> trim_left ws (drop (n - 1) s))"

text \<open>\<open>strings.TrimSpace\<close> drops white space at both ends; the right end is read backwards.\<close>

definition TrimSpace :: "string \<Rightarrow> string" where
  "TrimSpace s = rev (trim_left (map rev spaces) (rev (trim_left spaces s)))"

text \<open>\<open>strconv.Atoi\<close>: an optional sign, decimal digits, a value that fits 64 bits.\<close>

definition digit_val :: "char \<Rightarrow> int option" where
  "digit_val c = (if 48 \<le> (of_char c :: nat) \<and> (of_char c :: nat) \<le> 57
                  then Some (int (of_char c) - 48) else None)"

fun digits_val :: "string \<Rightarrow> int \<Rightarrow> int option" where
  "digits_val [] acc = Some acc"
| "digits_val (c # s) acc = (case digit_val c of None \<Rightarrow> None | Some d \<Rightarrow> digits_val s (10 * acc + d))"

definition Atoi :: "string \<Rightarrow> int option" where
  "Atoi s =
     (let neg = (s \<noteq> [] \<and> hd s = CHR ''-'');
          ds = (if s \<noteq> [] \<and> (hd s = CHR ''-'' \<or> hd s = CHR ''+'') then tl s else s)
      in if ds = [] then None
         else case digits_val ds 0 of
           None \<Rightarrow> None
         | Some n \<Rightarrow> (let m = (if neg then - n else n) in if is_int64 m then Some m else None))"

section \<open>JSON\<close>

text \<open>
  \<open>JInt\<close> is a number written without fraction and exponent, \<open>JFrac\<close> any other number: only the
  former decodes into a Go integer.
\<close>

datatype json =
    JNull
  | JBool bool
  | JInt int
  | JFrac
  | JStr string
  | JArr "json list"
  | JObj "(string \<times> json) list"

text \<open>
  Field names are compared as \<open>encoding/json\<close> does, up to case.  Beyond ASCII two characters fold
  to an ASCII letter: the long s (bytes \<open>C5 BF\<close>) and the Kelvin sign (bytes \<open>E2 84 AA\<close>).
\<close>

fun fold_name :: "string \<Rightarrow> string" where
  "fold_name [] = []"
| "fold_name (c # s) =
     (if of_char c = (0xC5 :: nat) \<and> map of_char (take 1 s) = [0xBF :: nat]
      then CHR ''S'' # fold_name (drop 1 s)
      else if of_char c = (0xE2 :: nat) \<and> map of_char (take 2 s) = [0x84, 0xAA :: nat]
      then CHR ''K'' # fold_name (drop 2 s)
      else ascii_upper c # fold_name s)"

text \<open>A struct type is the list of its fields: the name and how a value is stored.\<close>

type_synonym 'r field = "string \<times> (json \<Rightarrow> 'r \<Rightarrow> 'r option)"

fun decode_members :: "bool \<Rightarrow> 'r field list \<Rightarrow> (string \<times> json) list \<Rightarrow> 'r \<Rightarrow> 'r option" where
  "decode_members strict fields [] r = Some r"
| "decode_members strict fields ((k, v) # ms) r =
     (case find (\<lambda>f. fold_name (fst f) = fold_name k) fields of
        None \<Rightarrow> (if strict then None else decode_members strict fields ms r)
      | Some f \<Rightarrow> (case snd f v r of None \<Rightarrow> None | Some r' \<Rightarrow> decode_members strict fields ms r'))"

definition decode_struct :: "bool \<Rightarrow> 'r field list \<Rightarrow> 'r \<Rightarrow> json \<Rightarrow> 'r option" where
  "decode_struct strict fields zero j =
     (case j of JNull \<Rightarrow> Some zero | JObj ms \<Rightarrow> decode_members strict fields ms zero | _ \<Rightarrow> None)"

text \<open>Fields of type \<open>string\<close>, \<open>int\<close> and slice.  A null leaves a scalar alone and clears a slice.\<close>

definition str_field :: "(string \<Rightarrow> 'r \<Rightarrow> 'r) \<Rightarrow> json \<Rightarrow> 'r \<Rightarrow> 'r option" where
  "str_field upd v r = (case v of JNull \<Rightarrow> Some r | JStr s \<Rightarrow> Some (upd s r) | _ \<Rightarrow> None)"

definition int_field :: "(int \<Rightarrow> 'r \<Rightarrow> 'r) \<Rightarrow> json \<Rightarrow> 'r \<Rightarrow> 'r option" where
  "int_field upd v r =
     (case v of JNull \<Rightarrow> Some r | JInt n \<Rightarrow> (if is_int64 n then Some (upd n r) else None) | _ \<Rightarrow> None)"

fun decode_list :: "(json \<Rightarrow> 'x option) \<Rightarrow> json list \<Rightarrow> 'x list option" where
  "decode_list dec [] = Some []"
| "decode_list dec (j # js) =
     (case dec j of None \<Rightarrow> None | Some x \<Rightarrow> map_option ((#) x) (decode_list dec js))"

definition list_field :: "(json \<Rightarrow> 'x option) \<Rightarrow> ('x list \<Rightarrow> 'r \<Rightarrow> 'r) \<Rightarrow> json \<Rightarrow> 'r \<Rightarrow> 'r option" where
  "list_field dec upd v r =
     (case v of JNull \<Rightarrow> Some (upd [] r)
      | JArr js \<Rightarrow> map_option (\<lambda>xs. upd xs r) (decode_list dec js) | _ \<Rightarrow> None)"

section \<open>Requests and responses\<close>

text \<open>
  What the decoder finds when it asks for the next value of a body: a value, malformed text, the
  size limit, the end.  A body is what the two calls of \<open>DecodeJSON\<close> find.
\<close>

datatype body_item = Value json | Malformed | TooLarge | End

type_synonym body = "body_item \<times> body_item"

definition DecodeJSON :: "(json \<Rightarrow> 'r option) \<Rightarrow> body \<Rightarrow> (string, 'r) result" where
  "DecodeJSON dec b =
     (case fst b of
        TooLarge \<Rightarrow> Inl ''request body exceeds 1048576 bytes''
      | Malformed \<Rightarrow> Inl ''malformed JSON body''
      | End \<Rightarrow> Inl ''malformed JSON body''
      | Value j \<Rightarrow>
          (case dec j of
             None \<Rightarrow> Inl ''malformed JSON body''
           | Some r \<Rightarrow> (if snd b \<noteq> End then Inl ''body must contain exactly one JSON object'' else Inr r)))"

text \<open>
  A request as a handler sees it: its headers (the first value, or the empty string), the
  identifier in its path, its query parameters, its body and the correlation ID of its context.
\<close>

record request =
  header :: "string \<Rightarrow> string"
  url_id :: string
  query :: "string \<Rightarrow> string"
  req_body :: body
  correlation :: string

definition Subject :: "request \<Rightarrow> string" where
  "Subject r = header r ''X-User-ID''"

text \<open>\<open>WriteJSON\<close> sends a value, \<open>WriteError\<close> a message together with the correlation ID.\<close>

datatype 'v response =
    JSON (status: int) 'v
  | ErrorJSON (status: int) (message: string) (correlation_id: string)

definition WriteJSON :: "request \<Rightarrow> int \<Rightarrow> 'v \<Rightarrow> 'v response" where
  "WriteJSON r st v = JSON st v"

definition WriteError :: "request \<Rightarrow> int \<Rightarrow> string \<Rightarrow> 'v response" where
  "WriteError r st msg = ErrorJSON st msg (correlation r)"

definition intParam :: "request \<Rightarrow> string \<Rightarrow> int \<Rightarrow> int \<Rightarrow> int \<Rightarrow> int" where
  "intParam r name def lo hi =
     (let raw = query r name in
      if raw = '''' then def
      else case Atoi raw of
        None \<Rightarrow> def
      | Some n \<Rightarrow> if n < lo then lo else if hi < n then hi else n)"

section \<open>Identifiers\<close>

definition hex_digit :: "8 word \<Rightarrow> char" where
  "hex_digit n = ''0123456789abcdef'' ! (unat n mod 16)"

definition hex_byte :: "8 word \<Rightarrow> string" where
  "hex_byte b = [hex_digit (drop_bit 4 b), hex_digit (b AND 0x0F)]"

text \<open>\<open>newUUID\<close> as a function of the 16 random bytes.\<close>

definition newUUID :: "8 word list \<Rightarrow> string" where
  "newUUID r =
     (let b = r[6 := (r ! 6 AND 0x0F) OR 0x40, 8 := (r ! 8 AND 0x3F) OR 0x80];
          h = concat (map hex_byte b)
      in take 8 h @ ''-'' @ take 4 (drop 8 h) @ ''-'' @ take 4 (drop 12 h) @ ''-''
         @ take 4 (drop 16 h) @ ''-'' @ take 12 (drop 20 h))"

text \<open>The shape of a version 4 identifier (RFC 4122): hyphens, version and variant in place.\<close>

definition hex_chars :: string where "hex_chars = ''0123456789abcdef''"

definition is_uuid4 :: "string \<Rightarrow> bool" where
  "is_uuid4 s \<longleftrightarrow> length s = 36
     \<and> (\<forall>i \<in> {8, 13, 18, 23}. s ! i = CHR ''-'')
     \<and> list_all (\<lambda>c. c \<in> set hex_chars)
           (take 8 s @ take 4 (drop 9 s) @ take 4 (drop 14 s) @ take 4 (drop 19 s) @ take 12 (drop 24 s))
     \<and> s ! 14 = CHR ''4'' \<and> s ! 19 \<in> set ''89ab''"

lemma hex_digit_mem: "hex_digit n \<in> set hex_chars"
proof -
  have "unat n mod 16 < length hex_chars" by (simp add: hex_chars_def)
  then show ?thesis unfolding hex_digit_def hex_chars_def [symmetric] by (rule nth_mem)
qed

lemma version_nibble: "drop_bit 4 ((b AND 0x0F) OR 0x40) = (4 :: 8 word)"
  by (rule bit_word_eqI) (auto simp: bit_simps)

lemma variant_nibble: "drop_bit 4 ((b AND 0x3F) OR 0x80) \<in> {8, 9, 10, 11 :: 8 word}"
proof -
  have "drop_bit 4 ((b AND 0x3F) OR 0x80) = (if bit b 5 then if bit b 4 then 11 else 10
      else if bit b 4 then 9 else (8 :: 8 word))"
    by (rule bit_word_eqI) (auto simp: bit_simps bit_numeral_rec less_Suc_eq numeral_eq_Suc)
  then show ?thesis by auto
qed

lemma newUUID_explicit:
  "newUUID [b0, b1, b2, b3, b4, b5, b6, b7, b8, b9, b10, b11, b12, b13, b14, b15] =
    (let b6' = (b6 AND 0x0F) OR 0x40; b8' = (b8 AND 0x3F) OR 0x80
     in concat (map hex_byte [b0, b1, b2, b3]) @ [CHR ''-''] @ concat (map hex_byte [b4, b5]) @ [CHR ''-'']
      @ concat (map hex_byte [b6', b7]) @ [CHR ''-''] @ concat (map hex_byte [b8', b9]) @ [CHR ''-'']
      @ concat (map hex_byte [b10, b11, b12, b13, b14, b15]))"
  by (simp add: newUUID_def hex_byte_def Let_def)

text \<open>
  C26.  \<open>newUUID\<close> writes a version 4 identifier, whatever the random bytes are.
\<close>

theorem newUUID_is_uuid4:
  assumes "length r = 16"
  shows "is_uuid4 (newUUID r)"
proof -
  obtain b0 b1 b2 b3 b4 b5 b6 b7 b8 b9 b10 b11 b12 b13 b14 b15 where
    r: "r = [b0, b1, b2, b3, b4, b5, b6, b7, b8, b9, b10, b11, b12, b13, b14, b15]"
    using assms by (auto simp: length_Suc_conv numeral_eq_Suc)
  have v: "hex_digit 4 = CHR ''4''" by (simp add: hex_digit_def)
  have w: "hex_digit (drop_bit 4 ((b8 AND 0x3F) OR 0x80)) \<in> set ''89ab''"
    using variant_nibble [of b8] by (auto simp: hex_digit_def)
  have f: "CHR ''4'' \<in> set hex_chars" by (simp add: hex_chars_def)
  show ?thesis
    unfolding is_uuid4_def r newUUID_explicit Let_def
    using w f by (simp add: hex_byte_def version_nibble v hex_digit_mem)
qed

theorem newUUID_is_uuid4_witness: "is_uuid4 (newUUID (replicate 16 0xFF))"
  by (rule newUUID_is_uuid4) simp

end
