(* ===== verification/CatalogAPI.thy ===== *)
theory CatalogAPI
  imports CatalogProps Httpx
begin

text \<open>
  The catalog's HTTP handlers (\<open>services/catalog/handlers.go\<close>).  A handler takes the request and
  the tables and returns the response and the tables; \<open>pg\<close> is the environment of its store call.
  Log lines are left out.
\<close>

section \<open>Views and requests\<close>

record productView =
  v_ID :: string
  v_SKU :: string
  v_Name :: string
  v_Description :: string
  v_PriceCents :: int
  v_Currency :: string
  v_Stock :: int
  v_Reserved :: int
  v_Available :: int
  v_CreatedAt :: int

definition product_toView :: "Product \<Rightarrow> productView" where
  "product_toView p =
     \<lparr>v_ID = p_ID p, v_SKU = p_SKU p, v_Name = p_Name p, v_Description = p_Description p,
      v_PriceCents = p_PriceCents p, v_Currency = p_Currency p,
      v_Stock = p_Stock p, v_Reserved = p_Reserved p, v_Available = wrap64 (Available p),
      v_CreatedAt = p_CreatedAt p\<rparr>"

record createProductRequest =
  c_SKU :: string
  c_Name :: string
  c_Description :: string
  c_PriceCents :: int
  c_Currency :: string
  c_Stock :: int

definition createProductRequest_fields :: "createProductRequest field list" where
  "createProductRequest_fields =
     [(''sku'', str_field (\<lambda>s r. r\<lparr>c_SKU := s\<rparr>)), (''name'', str_field (\<lambda>s r. r\<lparr>c_Name := s\<rparr>)),
      (''description'', str_field (\<lambda>s r. r\<lparr>c_Description := s\<rparr>)),
      (''price_cents'', int_field (\<lambda>n r. r\<lparr>c_PriceCents := n\<rparr>)),
      (''currency'', str_field (\<lambda>s r. r\<lparr>c_Currency := s\<rparr>)), (''stock'', int_field (\<lambda>n r. r\<lparr>c_Stock := n\<rparr>))]"

definition decode_createProductRequest :: "json \<Rightarrow> createProductRequest option" where
  "decode_createProductRequest =
     decode_struct True createProductRequest_fields
       \<lparr>c_SKU = '''', c_Name = '''', c_Description = '''', c_PriceCents = 0, c_Currency = '''', c_Stock = 0\<rparr>"

record stockRequest = s_Quantity :: int

definition decode_stockRequest :: "json \<Rightarrow> stockRequest option" where
  "decode_stockRequest =
     decode_struct True [(''quantity'', int_field (\<lambda>n r. r\<lparr>s_Quantity := n\<rparr>))] \<lparr>s_Quantity = 0\<rparr>"

record reservationRequest =
  r_OrderID :: string
  r_ProductID :: string
  r_Quantity :: int

definition decode_reservationRequest :: "json \<Rightarrow> reservationRequest option" where
  "decode_reservationRequest =
     decode_struct True
       [(''order_id'', str_field (\<lambda>s r. r\<lparr>r_OrderID := s\<rparr>)),
        (''product_id'', str_field (\<lambda>s r. r\<lparr>r_ProductID := s\<rparr>)),
        (''quantity'', int_field (\<lambda>n r. r\<lparr>r_Quantity := n\<rparr>))]
       \<lparr>r_OrderID = '''', r_ProductID = '''', r_Quantity = 0\<rparr>"

section \<open>Handlers\<close>

definition writeStoreError :: "request \<Rightarrow> store_error \<Rightarrow> string \<Rightarrow> 'v response" where
  "writeStoreError r err msg =
     (if err = ErrProductNotFound then WriteError r 404 ''product not found'' else WriteError r 500 msg)"

definition createProduct ::
  "pg \<Rightarrow> 8 word list \<Rightarrow> request \<Rightarrow> catalog_db \<Rightarrow> productView response \<times> catalog_db" where
  "createProduct pg random r db =
     (case DecodeJSON decode_createProductRequest (req_body r) of
        Inl err \<Rightarrow> (WriteError r 400 err, db)
      | Inr req \<Rightarrow>
          (let sku = TrimSpace (c_SKU req); name = TrimSpace (c_Name req) in
           if sku = '''' then (WriteError r 400 ''sku is required'', db)
           else if name = '''' then (WriteError r 400 ''name is required'', db)
           else if c_PriceCents req < 0 then (WriteError r 400 ''price_cents must not be negative'', db)
           else if c_Stock req < 0 then (WriteError r 400 ''stock must not be negative'', db)
           else
             (let upper = ToUpper (TrimSpace (c_Currency req));
                  currency = (if upper = '''' then ''USD'' else upper)
              in
              if length currency \<noteq> 3 then (WriteError r 400 ''currency must be a 3-letter code'', db)
              else
                (case CreateProduct pg
                        \<lparr>p_ID = newUUID random, p_SKU = sku, p_Name = name, p_Description = c_Description req,
                         p_PriceCents = c_PriceCents req, p_Currency = currency, p_Stock = c_Stock req,
                         p_Reserved = 0, p_CreatedAt = 0, p_UpdatedAt = 0\<rparr> db of
                   (Inl ErrSKUTaken, db') \<Rightarrow> (WriteError r 409 ''sku already exists'', db')
                 | (Inl _, db') \<Rightarrow> (WriteError r 500 ''could not create product'', db')
                 | (Inr created, db') \<Rightarrow> (WriteJSON r 201 (product_toView created), db')))))"

definition getProduct :: "pg \<Rightarrow> request \<Rightarrow> catalog_db \<Rightarrow> productView response \<times> catalog_db" where
  "getProduct pg r db =
     (case ProductByID pg (url_id r) db of
        Inl err \<Rightarrow> (writeStoreError r err ''could not load product'', db)
      | Inr p \<Rightarrow> (WriteJSON r 200 (product_toView p), db))"

definition listProducts ::
  "pg \<Rightarrow> request \<Rightarrow> catalog_db \<Rightarrow> (productView list \<times> int \<times> int) response \<times> catalog_db" where
  "listProducts pg r db =
     (let limit = intParam r ''limit'' 50 1 200; offset = intParam r ''offset'' 0 0 1000000 in
      case ListProducts pg limit offset db of
        Inl _ \<Rightarrow> (WriteError r 500 ''could not list products'', db)
      | Inr ps \<Rightarrow> (WriteJSON r 200 (map product_toView ps, limit, offset), db))"

definition addStock :: "pg \<Rightarrow> request \<Rightarrow> catalog_db \<Rightarrow> productView response \<times> catalog_db" where
  "addStock pg r db =
     (case DecodeJSON decode_stockRequest (req_body r) of
        Inl err \<Rightarrow> (WriteError r 400 err, db)
      | Inr req \<Rightarrow>
          if s_Quantity req \<le> 0 then (WriteError r 400 ''quantity must be positive'', db)
          else (case AddStock pg (url_id r) (s_Quantity req) db of
             (Inl err, db') \<Rightarrow> (writeStoreError r err ''could not add stock'', db')
           | (Inr p, db') \<Rightarrow> (WriteJSON r 200 (product_toView p), db')))"

definition reserve :: "pg \<Rightarrow> request \<Rightarrow> catalog_db \<Rightarrow> productView response \<times> catalog_db" where
  "reserve pg r db =
     (case DecodeJSON decode_reservationRequest (req_body r) of
        Inl err \<Rightarrow> (WriteError r 400 err, db)
      | Inr req \<Rightarrow>
          if r_OrderID req = '''' \<or> r_ProductID req = ''''
          then (WriteError r 400 ''order_id and product_id are required'', db)
          else if r_Quantity req \<le> 0 then (WriteError r 400 ''quantity must be positive'', db)
          else (case Reserve pg (r_OrderID req) (r_ProductID req) (r_Quantity req) db of
             (Inl ErrInsufficientStock, db') \<Rightarrow> (WriteError r 409 ''insufficient stock'', db')
           | (Inl err, db') \<Rightarrow> (writeStoreError r err ''could not reserve stock'', db')
           | (Inr p, db') \<Rightarrow> (WriteJSON r 200 (product_toView p), db')))"

definition reservationAction ::
  "(string \<Rightarrow> string \<Rightarrow> catalog_db \<Rightarrow> (store_error, Product) result \<times> catalog_db) \<Rightarrow> string
   \<Rightarrow> request \<Rightarrow> catalog_db \<Rightarrow> productView response \<times> catalog_db" where
  "reservationAction action errMsg r db =
     (case DecodeJSON decode_reservationRequest (req_body r) of
        Inl err \<Rightarrow> (WriteError r 400 err, db)
      | Inr req \<Rightarrow>
          if r_OrderID req = '''' \<or> r_ProductID req = ''''
          then (WriteError r 400 ''order_id and product_id are required'', db)
          else (case action (r_OrderID req) (r_ProductID req) db of
             (Inl err, db') \<Rightarrow> (writeStoreError r err errMsg, db')
           | (Inr p, db') \<Rightarrow> (WriteJSON r 200 (product_toView p), db')))"

definition release :: "pg \<Rightarrow> request \<Rightarrow> catalog_db \<Rightarrow> productView response \<times> catalog_db" where
  "release pg r db = reservationAction (Release pg) ''could not release stock'' r db"

definition commitReservation :: "pg \<Rightarrow> request \<Rightarrow> catalog_db \<Rightarrow> productView response \<times> catalog_db" where
  "commitReservation pg r db = reservationAction (Commit pg) ''could not commit stock'' r db"

section \<open>What a response says about the tables\<close>

text \<open>A store call that changes the tables succeeds or reports a lost round trip.\<close>

lemma on_pool_change: "on_pool f st db = (Inl e, db') \<Longrightarrow> db' = db \<or> e = Unreachable"
  by (auto simp: on_pool_def split: fate.splits prod.splits sum.splits)

lemma CreateProduct_change:
  "CreateProduct pg p db = (Inl e, db') \<Longrightarrow> db' = db \<or> (\<exists>m. e = Wrapped m Unreachable)"
  by (cases "on_pool (fates pg 0) (insert_product pg p) db")
     (auto simp: CreateProduct_def split: sum.splits pg_error.splits dest: on_pool_change)

lemma AddStock_change:
  "AddStock pg pid n db = (Inl e, db') \<Longrightarrow> db' = db \<or> (\<exists>m. e = Wrapped m Unreachable)"
  by (cases "on_pool (fates pg 0) (update_stock pg pid n) db")
     (auto simp: AddStock_def split: sum.splits pg_error.splits if_splits dest: on_pool_change)

lemma Reserve_change:
  "Reserve pg oid pid q db = (Inl e, db') \<Longrightarrow> db' = db \<or> (\<exists>m. e = Wrapped m Unreachable)"
  using Reserve_outcome by blast

lemma Release_change:
  "catalog_inv db \<Longrightarrow> Release pg oid pid db = (Inl e, db') \<Longrightarrow> db' = db \<or> (\<exists>m. e = Wrapped m Unreachable)"
  using Release_outcome by blast

lemma Commit_change:
  "catalog_inv db \<Longrightarrow> Commit pg oid pid db = (Inl e, db') \<Longrightarrow> db' = db \<or> (\<exists>m. e = Wrapped m Unreachable)"
  using Commit_outcome by blast

definition is_client_error :: "'v response \<Rightarrow> bool" where
  "is_client_error resp \<longleftrightarrow> 400 \<le> status resp \<and> status resp < 500"

lemma client_error_simps [simp]:
  "is_client_error (WriteError r st msg) \<longleftrightarrow> 400 \<le> st \<and> st < 500"
  "is_client_error (WriteJSON r st v) \<longleftrightarrow> 400 \<le> st \<and> st < 500"
  by (simp_all add: is_client_error_def WriteError_def WriteJSON_def)

lemma writeStoreError_client [simp]: "is_client_error (writeStoreError r e msg) \<longleftrightarrow> e = ErrProductNotFound"
  by (simp add: writeStoreError_def)

text \<open>How each handler turns a store error into a response.\<close>

definition traceless :: "catalog_db \<Rightarrow> 'v response \<times> catalog_db \<Rightarrow> bool" where
  "traceless db x \<longleftrightarrow> (is_client_error (fst x) \<longrightarrow> snd x = db)"

lemma traceless_same [simp]: "traceless db (resp, db)"
  by (simp add: traceless_def)

lemma traceless_JSON [simp]: "st < 400 \<Longrightarrow> traceless db (WriteJSON r st v, db')"
  by (simp add: traceless_def)

lemma traceless_500 [simp]: "traceless db (WriteError r 500 msg, db')"
  by (simp add: traceless_def)

lemma traceless_store [simp]:
  "e = Wrapped m x \<Longrightarrow> traceless db (writeStoreError r e msg, db')"
  by (simp add: traceless_def)

lemma reservationAction_client:
  assumes "\<And>oid pid e db'. action oid pid db = (Inl e, db') \<Longrightarrow> db' = db \<or> (\<exists>m. e = Wrapped m Unreachable)"
  shows "traceless db (reservationAction action msg r db)"
  using assms by (fastforce simp: reservationAction_def split: sum.splits prod.splits)

lemma reserve_client: "traceless db (reserve pg r db)"
  using Reserve_change by (fastforce simp: reserve_def split: sum.splits prod.splits store_error.splits)

lemma addStock_client: "traceless db (addStock pg r db)"
  using AddStock_change by (fastforce simp: addStock_def split: sum.splits prod.splits)

lemma createProduct_client: "traceless db (createProduct pg random r db)"
  using CreateProduct_change
  by (fastforce simp: createProduct_def Let_def split: sum.splits prod.splits store_error.splits)

text \<open>
  C25.  The catalog rejects without a trace: a handler that answers with a status from 400 to 499 has
  left the tables as they were.
\<close>

theorem client_errors_change_nothing:
  assumes "catalog_inv db"
  shows "(is_client_error (fst (createProduct pg random r db)) \<longrightarrow> snd (createProduct pg random r db) = db)
    \<and> (is_client_error (fst (addStock pg r db)) \<longrightarrow> snd (addStock pg r db) = db)
    \<and> (is_client_error (fst (reserve pg r db)) \<longrightarrow> snd (reserve pg r db) = db)
    \<and> (is_client_error (fst (release pg r db)) \<longrightarrow> snd (release pg r db) = db)
    \<and> (is_client_error (fst (commitReservation pg r db)) \<longrightarrow> snd (commitReservation pg r db) = db)"
proof -
  have "traceless db (release pg r db)" unfolding release_def
    by (rule reservationAction_client) (rule Release_change [OF assms])
  moreover have "traceless db (commitReservation pg r db)" unfolding commitReservation_def
    by (rule reservationAction_client) (rule Commit_change [OF assms])
  ultimately show ?thesis
    using createProduct_client addStock_client reserve_client unfolding traceless_def by blast
qed

theorem client_errors_change_nothing_witness:
  "\<exists>r db. catalog_inv db \<and> is_client_error (fst (reserve (steady 1) r db)) \<and> snd (reserve (steady 1) r db) = db"
proof -
  let ?r = "\<lparr>header = (\<lambda>_. []), url_id = [], query = (\<lambda>_. []), req_body = (Malformed, End), correlation = []\<rparr>"
  have "is_client_error (fst (reserve (steady 1) ?r empty_catalog))"
    by (simp add: reserve_def DecodeJSON_def)
  with client_errors_change_nothing [OF empty_catalog_inv, of "steady 1" "[]" ?r] empty_catalog_inv
  show ?thesis by blast
qed

end
