(* ===== verification/OrdersStore.thy ===== *)
theory OrdersStore
  imports Postgres "HOL-Library.List_Lexorder" "HOL-Library.Char_ord"
begin

text \<open>
  The orders service's data-access layer (\<open>services/orders/store.go\<close>) over its two tables
  (\<open>migrations/000001_create_orders.up.sql\<close>).
\<close>

section \<open>The tables\<close>

definition StatusPending :: string where "StatusPending = ''pending''"
definition StatusConfirmed :: string where "StatusConfirmed = ''confirmed''"
definition StatusCancelled :: string where "StatusCancelled = ''cancelled''"

lemma statuses_distinct [simp]:
  "StatusPending \<noteq> StatusConfirmed" "StatusConfirmed \<noteq> StatusPending"
  "StatusPending \<noteq> StatusCancelled" "StatusCancelled \<noteq> StatusPending"
  "StatusConfirmed \<noteq> StatusCancelled" "StatusCancelled \<noteq> StatusConfirmed"
  by (simp_all add: StatusPending_def StatusConfirmed_def StatusCancelled_def)

record OrderItem =
  i_ProductID :: string
  i_Quantity :: int
  i_UnitCents :: int

record Order =
  o_ID :: string
  o_UserID :: string
  o_Status :: string
  o_TotalCents :: int
  o_Currency :: string
  o_FailureReason :: string
  o_Items :: "OrderItem list"
  o_CreatedAt :: int
  o_UpdatedAt :: int

record order_row =
  row_user :: string
  row_status :: string
  row_total :: int
  row_currency :: string
  row_reason :: "string option"
  row_created :: int
  row_updated :: int

text \<open>An item row holds its quantity and its unit price.\<close>

record orders_db =
  orders :: "string \<rightharpoonup> order_row"
  order_items :: "string \<times> string \<rightharpoonup> int \<times> int"

datatype order_error =
    ErrOrderNotFound
  | ErrInvalidTransition string string
  | NoItems
  | OrderWrapped string pg_error

section \<open>The statements\<close>

definition insert_order :: "pg \<Rightarrow> Order \<Rightarrow> (orders_db, unit) stmt" where
  "insert_order pg ord db =
     (case canon pg (o_ID ord) of
        None \<Rightarrow> (Inl InvalidText, db)
      | Some u \<Rightarrow>
          if \<not> is_int64 (o_TotalCents ord) then (Inl OutOfRange, db)
          else if \<not> (text_ok (o_UserID ord) \<and> text_ok (o_Currency ord)) then (Inl InvalidText, db)
          else if o_TotalCents ord < 0 then (Inl CheckViolation, db)
          else if orders db u \<noteq> None then (Inl UniqueViolation, db)
          else (Inr (), db\<lparr>orders := (orders db)(u \<mapsto>
                 \<lparr>row_user = o_UserID ord, row_status = StatusPending, row_total = o_TotalCents ord,
                  row_currency = o_Currency ord, row_reason = None,
                  row_created = clock pg, row_updated = clock pg\<rparr>)\<rparr>))"

definition insert_item :: "pg \<Rightarrow> string \<Rightarrow> OrderItem \<Rightarrow> (orders_db, unit) stmt" where
  "insert_item pg oid it db =
     (case (canon pg oid, canon pg (i_ProductID it)) of
        (Some ou, Some u) \<Rightarrow>
          if \<not> (is_int4 (i_Quantity it) \<and> is_int64 (i_UnitCents it)) then (Inl OutOfRange, db)
          else if \<not> (0 < i_Quantity it \<and> 0 \<le> i_UnitCents it) then (Inl CheckViolation, db)
          else if order_items db (ou, u) \<noteq> None then (Inl UniqueViolation, db)
          else if orders db ou = None then (Inl ForeignKeyViolation, db)
          else (Inr (), db\<lparr>order_items := (order_items db)((ou, u) \<mapsto> (i_Quantity it, i_UnitCents it))\<rparr>)
      | _ \<Rightarrow> (Inl InvalidText, db))"

definition order_of_row :: "string \<Rightarrow> order_row \<Rightarrow> Order" where
  "order_of_row u row =
     \<lparr>o_ID = u, o_UserID = row_user row, o_Status = row_status row, o_TotalCents = row_total row,
      o_Currency = row_currency row, o_FailureReason = (case row_reason row of None \<Rightarrow> [] | Some s \<Rightarrow> s),
      o_Items = [], o_CreatedAt = row_created row, o_UpdatedAt = row_updated row\<rparr>"

definition select_order :: "pg \<Rightarrow> string \<Rightarrow> (orders_db, Order) stmt" where
  "select_order pg oid db =
     (case canon pg oid of
        None \<Rightarrow> (Inl InvalidText, db)
      | Some u \<Rightarrow> (case orders db u of None \<Rightarrow> (Inl NoRows, db) | Some row \<Rightarrow> (Inr (order_of_row u row), db)))"

text \<open>\<open>ORDER BY product_id\<close>.\<close>

definition items_of :: "orders_db \<Rightarrow> string \<Rightarrow> OrderItem list" where
  "items_of db ou =
     map (\<lambda>u. let (q, c) = the (order_items db (ou, u)) in \<lparr>i_ProductID = u, i_Quantity = q, i_UnitCents = c\<rparr>)
       (sorted_list_of_set {u. (ou, u) \<in> dom (order_items db)})"

definition select_items :: "pg \<Rightarrow> string \<Rightarrow> (orders_db, OrderItem list) stmt" where
  "select_items pg oid db =
     (case canon pg oid of None \<Rightarrow> (Inl InvalidText, db) | Some ou \<Rightarrow> (Inr (items_of db ou), db))"

text \<open>\<open>WHERE user_id = $1 ORDER BY created_at DESC, id LIMIT $2 OFFSET $3\<close>.\<close>

definition select_user_orders :: "string \<Rightarrow> int \<Rightarrow> int \<Rightarrow> (orders_db, Order list) stmt" where
  "select_user_orders user limit offset db =
     (let rows = map (\<lambda>u. order_of_row u (the (orders db u))) (sorted_list_of_set (dom (orders db)));
          mine = filter (\<lambda>ord. o_UserID ord = user) rows
      in if \<not> text_ok user then (Inl InvalidText, db)
         else (Inr (take (nat limit) (drop (nat offset) (sort_key (\<lambda>ord. - o_CreatedAt ord) mine))), db))"

text \<open>The update answers with the number of rows it affected.\<close>

definition update_status :: "pg \<Rightarrow> string \<Rightarrow> string \<Rightarrow> string option \<Rightarrow> (orders_db, nat) stmt" where
  "update_status pg oid st reason db =
     (case canon pg oid of
        None \<Rightarrow> (Inl InvalidText, db)
      | Some u \<Rightarrow>
          if \<not> (\<forall>s. reason = Some s \<longrightarrow> text_ok s) then (Inl InvalidText, db)
          else (case orders db u of
             None \<Rightarrow> (Inr 0, db)
           | Some row \<Rightarrow>
               if row_status row \<noteq> StatusPending then (Inr 0, db)
               else (Inr 1, db\<lparr>orders := (orders db)(u \<mapsto>
                      row\<lparr>row_status := st, row_reason := reason, row_updated := clock pg\<rparr>)\<rparr>)))"

section \<open>The operations\<close>

text \<open>An operation takes the index of its first round trip; reads leave the tables alone.\<close>

definition itemsFor :: "pg \<Rightarrow> nat \<Rightarrow> string \<Rightarrow> orders_db \<Rightarrow> (order_error, OrderItem list) result" where
  "itemsFor pg i oid db =
     (case fst (on_pool (fates pg i) (select_items pg oid) db) of
        Inl e \<Rightarrow> Inl (OrderWrapped ''querying order items'' e)
      | Inr its \<Rightarrow> Inr its)"

definition OrderByID :: "pg \<Rightarrow> nat \<Rightarrow> string \<Rightarrow> orders_db \<Rightarrow> (order_error, Order) result" where
  "OrderByID pg i oid db =
     (case fst (on_pool (fates pg i) (select_order pg oid) db) of
        Inl NoRows \<Rightarrow> Inl ErrOrderNotFound
      | Inl e \<Rightarrow> Inl (OrderWrapped ''querying order'' e)
      | Inr ord \<Rightarrow>
          (case itemsFor pg (i + 1) oid db of
             Inl err \<Rightarrow> Inl err
           | Inr its \<Rightarrow> Inr (ord\<lparr>o_Items := its\<rparr>)))"

fun insert_items :: "pg \<Rightarrow> nat \<Rightarrow> string \<Rightarrow> OrderItem list \<Rightarrow> orders_db \<Rightarrow> (pg_error, unit) result \<times> orders_db" where
  "insert_items pg i oid [] d = (Inr (), d)"
| "insert_items pg i oid (it # its) d =
     (case in_tx (fates pg i) (insert_item pg oid it) d of
        (Inl e, d') \<Rightarrow> (Inl e, d')
      | (Inr _, d') \<Rightarrow> insert_items pg (i + 1) oid its d')"

definition CreateOrder :: "pg \<Rightarrow> Order \<Rightarrow> orders_db \<Rightarrow> (order_error, Order) result \<times> orders_db" where
  "CreateOrder pg ord db =
     (if length (o_Items ord) = 0 then (Inl NoItems, db)
      else if fates pg 0 \<noteq> Runs then (Inl (OrderWrapped ''beginning transaction'' Unreachable), db)
      else case in_tx (fates pg 1) (insert_order pg ord) db of
        (Inl e, _) \<Rightarrow> (Inl (OrderWrapped ''inserting order'' e), db)
      | (Inr _, d) \<Rightarrow>
          (case insert_items pg 2 (o_ID ord) (o_Items ord) d of
             (Inl e, _) \<Rightarrow> (Inl (OrderWrapped ''inserting order item'' e), db)
           | (Inr _, d') \<Rightarrow>
               (let n = 2 + length (o_Items ord) in
                case commit_tx (fates pg n) db d' of
                  (Inl e, db') \<Rightarrow> (Inl (OrderWrapped ''committing order'' e), db')
                | (Inr _, db') \<Rightarrow> (OrderByID pg (n + 1) (o_ID ord) db', db'))))"

fun fill_items :: "pg \<Rightarrow> nat \<Rightarrow> Order list \<Rightarrow> orders_db \<Rightarrow> (order_error, Order list) result" where
  "fill_items pg i [] db = Inr []"
| "fill_items pg i (ord # ords) db =
     (case itemsFor pg i (o_ID ord) db of
        Inl err \<Rightarrow> Inl err
      | Inr its \<Rightarrow>
          (case fill_items pg (i + 1) ords db of
             Inl err \<Rightarrow> Inl err
           | Inr rest \<Rightarrow> Inr (ord\<lparr>o_Items := its\<rparr> # rest)))"

definition OrdersForUser ::
  "pg \<Rightarrow> string \<Rightarrow> int \<Rightarrow> int \<Rightarrow> orders_db \<Rightarrow> (order_error, Order list) result" where
  "OrdersForUser pg user limit offset db =
     (case fst (on_pool (fates pg 0) (select_user_orders user limit offset) db) of
        Inl e \<Rightarrow> Inl (OrderWrapped ''listing orders'' e)
      | Inr ords \<Rightarrow> fill_items pg 1 ords db)"

definition UpdateStatus ::
  "pg \<Rightarrow> string \<Rightarrow> string \<Rightarrow> string \<Rightarrow> orders_db \<Rightarrow> (order_error, Order) result \<times> orders_db" where
  "UpdateStatus pg oid st failureReason db =
     (if st \<noteq> StatusConfirmed \<and> st \<noteq> StatusCancelled then (Inl (ErrInvalidTransition [] st), db)
      else
        (let reason = (if failureReason \<noteq> [] then Some failureReason else None) in
         case on_pool (fates pg 0) (update_status pg oid st reason) db of
           (Inl e, db') \<Rightarrow> (Inl (OrderWrapped ''updating order status'' e), db')
         | (Inr n, db') \<Rightarrow>
             if n = 0 then
               (case OrderByID pg 1 oid db' of
                  Inl err \<Rightarrow> (Inl err, db')
                | Inr existing \<Rightarrow>
                    if o_Status existing = st then (Inr existing, db')
                    else (Inl (ErrInvalidTransition (o_Status existing) st), db'))
             else (OrderByID pg 1 oid db', db')))"

end
