(* ===== verification/OrdersProps.thy ===== *)
theory OrdersProps
  imports OrdersStore
begin

text \<open>
  The orders store under any faults: an order is recorded with all its items or not at all, its
  contents never change, and it leaves \<open>pending\<close> once.
\<close>

declare split_paired_All [simp del] split_paired_Ex [simp del]

section \<open>What the operations do\<close>

definition item_rows :: "(string \<Rightarrow> string option) \<Rightarrow> string \<Rightarrow> OrderItem list \<Rightarrow> ((string \<times> string) \<times> (int \<times> int)) list" where
  "item_rows c ou its = map (\<lambda>it. ((ou, the (c (i_ProductID it))), (i_Quantity it, i_UnitCents it))) its"

definition place_order :: "pg \<Rightarrow> string \<Rightarrow> Order \<Rightarrow> orders_db \<Rightarrow> orders_db" where
  "place_order pg ou ord db =
     \<lparr>orders = (orders db)(ou \<mapsto>
        \<lparr>row_user = o_UserID ord, row_status = StatusPending, row_total = o_TotalCents ord,
         row_currency = o_Currency ord, row_reason = None, row_created = clock pg, row_updated = clock pg\<rparr>),
      order_items = order_items db ++ map_of (item_rows (canon pg) ou (o_Items ord))\<rparr>"

definition items_ok :: "(string \<Rightarrow> string option) \<Rightarrow> OrderItem list \<Rightarrow> bool" where
  "items_ok c its \<longleftrightarrow>
     (\<forall>it \<in> set its. c (i_ProductID it) \<noteq> None \<and> 0 < i_Quantity it \<and> is_int4 (i_Quantity it) \<and> 0 \<le> i_UnitCents it)
     \<and> distinct (map (\<lambda>it. c (i_ProductID it)) its)"

lemma insert_item_Inr:
  "insert_item pg oid it d = (Inr x, d') \<longleftrightarrow>
     (\<exists>ou u. canon pg oid = Some ou \<and> canon pg (i_ProductID it) = Some u
       \<and> is_int4 (i_Quantity it) \<and> is_int64 (i_UnitCents it) \<and> 0 < i_Quantity it \<and> 0 \<le> i_UnitCents it
       \<and> order_items d (ou, u) = None \<and> orders d ou \<noteq> None
       \<and> d' = d\<lparr>order_items := (order_items d)((ou, u) \<mapsto> (i_Quantity it, i_UnitCents it))\<rparr>)"
  by (auto simp: insert_item_def split: option.splits)

lemma insert_items_Inr:
  assumes "insert_items pg i oid its d = (Inr x, d')" and "canon pg oid = Some ou"
  shows "items_ok (canon pg) its \<and> (\<forall>it \<in> set its. order_items d (ou, the (canon pg (i_ProductID it))) = None)
    \<and> d' = d\<lparr>order_items := order_items d ++ map_of (item_rows (canon pg) ou its)\<rparr>"
  using assms(1)
proof (induction its arbitrary: i d)
  case Nil
  then show ?case by (simp add: items_ok_def item_rows_def)
next
  case (Cons it its)
  obtain d1 where one: "in_tx (fates pg i) (insert_item pg oid it) d = (Inr (), d1)"
    and rest: "insert_items pg (i + 1) oid its d1 = (Inr x, d')"
    using Cons.prems by (auto split: prod.splits sum.splits)
  from one assms(2) obtain u where u: "canon pg (i_ProductID it) = Some u" "is_int4 (i_Quantity it)"
    "0 < i_Quantity it" "0 \<le> i_UnitCents it" "order_items d (ou, u) = None"
    and d1: "d1 = d\<lparr>order_items := (order_items d)((ou, u) \<mapsto> (i_Quantity it, i_UnitCents it))\<rparr>"
    by (auto simp: in_tx_Inr insert_item_Inr)
  note IH = Cons.IH [OF rest]
  have fresh: "the (canon pg (i_ProductID j)) \<noteq> u" "order_items d (ou, the (canon pg (i_ProductID j))) = None"
    if "j \<in> set its" for j
    using IH that d1 by (auto split: if_splits)
  have "canon pg (i_ProductID j) \<noteq> canon pg (i_ProductID it)" if "j \<in> set its" for j
    using fresh(1) [OF that] u(1) by auto
  then have ok: "items_ok (canon pg) (it # its)" using IH u by (force simp: items_ok_def)
  have "u \<notin> (\<lambda>j. the (canon pg (i_ProductID j))) ` set its" using fresh(1) by blast
  then have "(ou, u) \<notin> dom (map_of (item_rows (canon pg) ou its))"
    by (auto simp: dom_map_of_conv_image_fst item_rows_def)
  then have "order_items d1 ++ map_of (item_rows (canon pg) ou its)
      = order_items d ++ map_of (item_rows (canon pg) ou (it # its))"
    using d1 u(1) by (simp add: item_rows_def map_add_upd_left)
  moreover have "d' = d1\<lparr>order_items := order_items d1 ++ map_of (item_rows (canon pg) ou its)\<rparr>"
    using IH by blast
  ultimately have "d' = d\<lparr>order_items := order_items d ++ map_of (item_rows (canon pg) ou (it # its))\<rparr>"
    using d1 by simp
  with ok fresh(2) u show ?case by simp
qed

lemma insert_order_Inr:
  assumes "insert_order pg ord db = (Inr x, d)"
  obtains ou where "canon pg (o_ID ord) = Some ou" and "orders db ou = None" and "0 \<le> o_TotalCents ord"
    "is_int64 (o_TotalCents ord)"
    "d = db\<lparr>orders := (orders db)(ou \<mapsto>
        \<lparr>row_user = o_UserID ord, row_status = StatusPending, row_total = o_TotalCents ord,
         row_currency = o_Currency ord, row_reason = None, row_created = clock pg, row_updated = clock pg\<rparr>)\<rparr>"
  using assms by (auto simp: insert_order_def split: option.splits if_splits)

text \<open>\<open>CreateOrder\<close> records everything or nothing, and never answers success without recording.\<close>

lemma CreateOrder_outcome:
  assumes "CreateOrder pg ord db = (r, db')"
  shows "(db' = db \<and> isl r)
    \<or> (\<exists>ou. canon pg (o_ID ord) = Some ou \<and> orders db ou = None \<and> o_Items ord \<noteq> []
        \<and> 0 \<le> o_TotalCents ord \<and> is_int64 (o_TotalCents ord) \<and> items_ok (canon pg) (o_Items ord)
        \<and> db' = place_order pg ou ord db
        \<and> (\<forall>got. r = Inr got \<longrightarrow> (\<exists>i. OrderByID pg i (o_ID ord) db' = Inr got)))"
proof (cases "length (o_Items ord) = 0 \<or> fates pg 0 \<noteq> Runs")
  case True
  then show ?thesis using assms by (cases "length (o_Items ord) = 0") (auto simp: CreateOrder_def)
next
  case False
  obtain a d where ins: "in_tx (fates pg 1) (insert_order pg ord) db = (a, d)" by force
  show ?thesis
  proof (cases a)
    case (Inl e)
    then show ?thesis using assms False ins by (auto simp: CreateOrder_def)
  next
    case (Inr x)
    from ins have "insert_order pg ord db = (Inr x, d)" by (simp add: Inr in_tx_Inr)
    then obtain ou where ou: "canon pg (o_ID ord) = Some ou" "orders db ou = None" "0 \<le> o_TotalCents ord"
      "is_int64 (o_TotalCents ord)"
      and d: "d = db\<lparr>orders := (orders db)(ou \<mapsto>
        \<lparr>row_user = o_UserID ord, row_status = StatusPending, row_total = o_TotalCents ord,
         row_currency = o_Currency ord, row_reason = None, row_created = clock pg, row_updated = clock pg\<rparr>)\<rparr>"
      by (rule insert_order_Inr)
    obtain b d' where its: "insert_items pg 2 (o_ID ord) (o_Items ord) d = (b, d')" by force
    show ?thesis
    proof (cases b)
      case b: (Inl e)
      then show ?thesis using assms False ins Inr its by (auto simp: CreateOrder_def)
    next
      case b: (Inr y)
      have it: "items_ok (canon pg) (o_Items ord)" "d' = place_order pg ou ord db"
        using insert_items_Inr [OF its [unfolded b] ou(1)] d by (simp_all add: place_order_def)
      define n where "n = 2 + length (o_Items ord)"
      have "(r, db') = (case commit_tx (fates pg n) db d' of
             (Inl e, db') \<Rightarrow> (Inl (OrderWrapped ''committing order'' e), db')
           | (Inr _, db') \<Rightarrow> (OrderByID pg (n + 1) (o_ID ord) db', db'))"
        using assms False ins Inr its b unfolding CreateOrder_def n_def [symmetric] by (simp add: Let_def)
      then have "db' = db \<and> isl r \<or> db' = d' \<and>
          (\<forall>got. r = Inr got \<longrightarrow> (\<exists>i. OrderByID pg i (o_ID ord) db' = Inr got))"
        by (auto simp: commit_tx_def split: fate.splits)
      then show ?thesis using ou it False by auto
    qed
  qed
qed

lemma OrderByID_Inr:
  assumes "OrderByID pg i oid db = Inr ord"
  shows "\<exists>ou row. canon pg oid = Some ou \<and> orders db ou = Some row
    \<and> ord = (order_of_row ou row)\<lparr>o_Items := items_of db ou\<rparr>"
  using assms
  by (auto simp: OrderByID_def itemsFor_def on_pool_def select_order_def select_items_def
      split: sum.splits pg_error.splits fate.splits option.splits)

lemma OrderByID_not_found:
  "OrderByID pg i oid db = Inl ErrOrderNotFound \<Longrightarrow> \<exists>ou. canon pg oid = Some ou \<and> orders db ou = None"
  by (auto simp: OrderByID_def itemsFor_def on_pool_def select_order_def select_items_def
      split: sum.splits pg_error.splits fate.splits option.splits)

lemma OrderByID_runs:
  assumes "\<forall>i. fates pg i = Runs" and "canon pg oid = Some ou"
  shows "OrderByID pg i oid db =
    (case orders db ou of
       None \<Rightarrow> Inl ErrOrderNotFound
     | Some row \<Rightarrow> Inr ((order_of_row ou row)\<lparr>o_Items := items_of db ou\<rparr>))"
  using assms
  by (simp add: OrderByID_def itemsFor_def store_simps select_order_def select_items_def split: option.splits)

definition set_status :: "int \<Rightarrow> string \<Rightarrow> string \<Rightarrow> string option \<Rightarrow> orders_db \<Rightarrow> orders_db" where
  "set_status now ou st reason db =
     (case orders db ou of
        None \<Rightarrow> db
      | Some row \<Rightarrow> db\<lparr>orders := (orders db)(ou \<mapsto> row\<lparr>row_status := st, row_reason := reason, row_updated := now\<rparr>)\<rparr>)"

abbreviation terminal :: "string \<Rightarrow> bool" where
  "terminal st \<equiv> st = StatusConfirmed \<or> st = StatusCancelled"

lemma update_status_Inr:
  "update_status pg oid st reason db = (Inr n, d) \<longleftrightarrow>
     (\<exists>ou. canon pg oid = Some ou \<and> (\<forall>s. reason = Some s \<longrightarrow> text_ok s)
       \<and> (if (\<exists>row. orders db ou = Some row \<and> row_status row = StatusPending)
          then n = 1 \<and> d = set_status (clock pg) ou st reason db else n = 0 \<and> d = db))"
  by (auto simp: update_status_def set_status_def split: option.splits)

text \<open>Every way \<open>UpdateStatus\<close> can end, for a terminal status.\<close>

lemma UpdateStatus_outcome:
  assumes "UpdateStatus pg oid st msg db = (r, db')" and "terminal st"
  shows "(db' = db \<or> (\<exists>ou row. canon pg oid = Some ou \<and> orders db ou = Some row \<and> row_status row = StatusPending
            \<and> db' = set_status (clock pg) ou st (if msg \<noteq> [] then Some msg else None) db))
    \<and> (\<forall>got. r = Inr got \<longrightarrow> o_Status got = st \<and> (\<exists>i. OrderByID pg i oid db' = Inr got))
    \<and> (\<forall>cur st'. r = Inl (ErrInvalidTransition cur st') \<longrightarrow>
         db' = db \<and> (\<exists>ou row. canon pg oid = Some ou \<and> orders db ou = Some row \<and> row_status row = cur
            \<and> cur \<noteq> StatusPending \<and> cur \<noteq> st))"
proof -
  define reason where "reason = (if msg \<noteq> [] then Some msg else None)"
  obtain a d where upd: "on_pool (fates pg 0) (update_status pg oid st reason) db = (a, d)" by force
  have st: "\<not> (st \<noteq> StatusConfirmed \<and> st \<noteq> StatusCancelled)" using assms(2) by blast
  show ?thesis
  proof (cases a)
    case (Inl e)
    have "d = db \<or> (\<exists>n. update_status pg oid st reason db = (Inr n, d))"
      using on_pool_states [of "fates pg 0" "update_status pg oid st reason" db] upd by auto
    then show ?thesis using assms(1) st upd Inl
      by (auto simp: UpdateStatus_def reason_def [symmetric] update_status_Inr split: if_splits)
  next
    case (Inr n)
    from upd obtain ou where ou: "canon pg oid = Some ou"
      and row: "if (\<exists>row. orders db ou = Some row \<and> row_status row = StatusPending)
          then n = 1 \<and> d = set_status (clock pg) ou st reason db else n = 0 \<and> d = db"
      by (auto simp: Inr on_pool_Inr update_status_Inr)
    show ?thesis
    proof (cases "\<exists>row. orders db ou = Some row \<and> row_status row = StatusPending")
      case True
      then have "r = OrderByID pg 1 oid d" "db' = d"
        using assms(1) st upd Inr row by (auto simp: UpdateStatus_def reason_def [symmetric])
      moreover have "o_Status got = st" if "OrderByID pg 1 oid d = Inr got" for got
        using OrderByID_Inr [OF that] True row ou by (auto simp: set_status_def order_of_row_def)
      moreover have "r \<noteq> Inl (ErrInvalidTransition cur st')" for cur st'
        unfolding calculation(1)
        by (auto simp: OrderByID_def itemsFor_def split: sum.splits pg_error.splits)
      ultimately show ?thesis using True row ou by (auto simp: reason_def)
    next
      case False
      then have eq: "(r, db') = (case OrderByID pg 1 oid db of
                  Inl err \<Rightarrow> (Inl err, db)
                | Inr existing \<Rightarrow>
                    if o_Status existing = st then (Inr existing, db)
                    else (Inl (ErrInvalidTransition (o_Status existing) st), db))"
        using assms(1) st upd Inr row by (simp add: UpdateStatus_def reason_def [symmetric])
      have no: "OrderByID pg 1 oid db \<noteq> Inl (ErrInvalidTransition cur st')" for cur st'
        by (auto simp: OrderByID_def itemsFor_def split: sum.splits pg_error.splits)
      show ?thesis
      proof (cases "OrderByID pg 1 oid db")
        case got: (Inr existing)
        from OrderByID_Inr [OF got] ou obtain row where "orders db ou = Some row" "o_Status existing = row_status row"
          by (auto simp: order_of_row_def)
        then show ?thesis using eq False ou got by (auto split: if_splits)
      qed (use eq no in auto)
    qed
  qed
qed

section \<open>The invariant\<close>

definition orders_inv :: "orders_db \<Rightarrow> bool" where
  "orders_inv db \<longleftrightarrow>
     finite (dom (orders db)) \<and> finite (dom (order_items db))
     \<and> (\<forall>u row. orders db u = Some row \<longrightarrow>
          row_status row \<in> {StatusPending, StatusConfirmed, StatusCancelled}
          \<and> 0 \<le> row_total row \<and> is_int64 (row_total row) \<and> (\<exists>p. order_items db (u, p) \<noteq> None))
     \<and> (\<forall>k q c. order_items db k = Some (q, c) \<longrightarrow> 0 < q \<and> is_int4 q \<and> 0 \<le> c \<and> orders db (fst k) \<noteq> None)"

text \<open>
  Orders are never removed, what was ordered never changes, and a terminal order never changes at all.
\<close>

definition orders_evolves :: "orders_db \<Rightarrow> orders_db \<Rightarrow> bool" where
  "orders_evolves db db' \<longleftrightarrow>
     (\<forall>u row. orders db u = Some row \<longrightarrow>
        (\<exists>row'. orders db' u = Some row' \<and> row_user row' = row_user row \<and> row_total row' = row_total row
           \<and> row_currency row' = row_currency row \<and> row_created row' = row_created row
           \<and> (row_status row \<noteq> StatusPending \<longrightarrow> row' = row))
        \<and> (\<forall>p. order_items db' (u, p) = order_items db (u, p)))"

definition empty_orders :: orders_db where
  "empty_orders = \<lparr>orders = Map.empty, order_items = Map.empty\<rparr>"

lemma empty_orders_inv [inv_intros]: "orders_inv empty_orders"
  by (simp add: orders_inv_def empty_orders_def)

lemma orders_evolves_refl: "orders_evolves db db"
  by (simp add: orders_evolves_def)

lemma orders_evolves_trans: "orders_evolves a b \<Longrightarrow> orders_evolves b c \<Longrightarrow> orders_evolves a c"
  unfolding orders_evolves_def by (fastforce dest: spec)

lemma orders_invD:
  assumes "orders_inv db"
  shows "finite (dom (orders db))" "finite (dom (order_items db))"
    "orders db u = Some row \<Longrightarrow> row_status row \<in> {StatusPending, StatusConfirmed, StatusCancelled}"
    "orders db u = Some row \<Longrightarrow> 0 \<le> row_total row \<and> is_int64 (row_total row)"
    "orders db u = Some row \<Longrightarrow> \<exists>p. order_items db (u, p) \<noteq> None"
    "order_items db k = Some (q, c) \<Longrightarrow> 0 < q \<and> is_int4 q \<and> 0 \<le> c \<and> orders db (fst k) \<noteq> None"
  using assms unfolding orders_inv_def by blast+

lemma place_order_items:
  "order_items (place_order pg ou ord db) k =
     (case map_of (item_rows (canon pg) ou (o_Items ord)) k of None \<Rightarrow> order_items db k | Some v \<Rightarrow> Some v)"
  by (simp add: place_order_def map_add_def)

lemma item_rows_of:
  assumes "map_of (item_rows c ou its) k = Some v"
  shows "fst k = ou \<and> (\<exists>it \<in> set its. v = (i_Quantity it, i_UnitCents it) \<and> snd k = the (c (i_ProductID it)))"
  using map_of_SomeD [OF assms] by (auto simp: item_rows_def)

lemma place_order_inv [inv_intros]:
  assumes "orders_inv db" and "orders db ou = None" and "o_Items ord \<noteq> []"
    and "0 \<le> o_TotalCents ord" and "is_int64 (o_TotalCents ord)" and "items_ok (canon pg) (o_Items ord)"
  shows "orders_inv (place_order pg ou ord db)" (is "orders_inv ?db")
  unfolding orders_inv_def
proof (intro conjI allI impI)
  note inv = orders_invD [OF assms(1)]
  show "finite (dom (orders ?db))" using inv(1) by (simp add: place_order_def)
  show "finite (dom (order_items ?db))" using inv(2) by (simp add: place_order_def finite_dom_map_of)
  fix u row assume row: "orders ?db u = Some row"
  show "row_status row \<in> {StatusPending, StatusConfirmed, StatusCancelled}"
    and "0 \<le> row_total row" and "is_int64 (row_total row)"
    using row inv(3,4) [of u row] assms(4,5) by (auto simp: place_order_def split: if_splits)
  show "\<exists>p. order_items ?db (u, p) \<noteq> None"
  proof (cases "u = ou")
    case True
    obtain it its where its: "o_Items ord = it # its" using assms(3) by (cases "o_Items ord") auto
    have "map_of (item_rows (canon pg) ou (o_Items ord)) (ou, the (canon pg (i_ProductID it))) \<noteq> None"
      by (simp add: its item_rows_def)
    then show ?thesis using True by (auto simp: place_order_items intro!: exI [of _ "the (canon pg (i_ProductID it))"])
  next
    case False
    then obtain p where "order_items db (u, p) \<noteq> None" using row inv(5) [of u row] by (auto simp: place_order_def)
    then show ?thesis by (auto simp: place_order_items split: option.splits intro!: exI [of _ p])
  qed
next
  note inv = orders_invD [OF assms(1)]
  fix k q c assume it: "order_items ?db k = Some (q, c)"
  have "0 < q \<and> is_int4 q \<and> 0 \<le> c \<and> orders ?db (fst k) \<noteq> None"
  proof (cases "map_of (item_rows (canon pg) ou (o_Items ord)) k")
    case None
    then show ?thesis using it inv(6) [of k q c] by (auto simp: place_order_items place_order_def)
  next
    case (Some v)
    from item_rows_of [OF Some] it Some assms(6) show ?thesis
      by (auto simp: place_order_items place_order_def items_ok_def)
  qed
  then show "0 < q" "is_int4 q" "0 \<le> c" "orders ?db (fst k) \<noteq> None" by blast+
qed

text \<open>What the lines of a stored order come to, in 64-bit arithmetic.\<close>

definition lines_total :: "orders_db \<Rightarrow> string \<Rightarrow> int" where
  "lines_total db u = wrap64 (\<Sum>it\<leftarrow>items_of db u. i_UnitCents it * i_Quantity it)"

lemma place_order_lines:
  assumes "orders_inv db" and "orders db ou = None" and "items_ok (canon pg) (o_Items ord)"
  shows "lines_total (place_order pg ou ord db) ou = wrap64 (\<Sum>it\<leftarrow>o_Items ord. i_UnitCents it * i_Quantity it)"
proof -
  let ?db = "place_order pg ou ord db"
  define key where "key it = the (canon pg (i_ProductID it))" for it :: OrderItem
  define cost where "cost p = (case the (order_items ?db (ou, p)) of (q, c) \<Rightarrow> c * q)" for p
  have old: "order_items db (ou, p) = None" for p
    using orders_invD(6) [OF assms(1), of "(ou, p)"] assms(2) by (cases "order_items db (ou, p)") force+
  have "distinct (map (\<lambda>it. canon pg (i_ProductID it)) (o_Items ord))"
    and some: "\<And>it. it \<in> set (o_Items ord) \<Longrightarrow> canon pg (i_ProductID it) \<noteq> None"
    using assms(3) by (auto simp: items_ok_def)
  then have inj: "inj_on (\<lambda>it. canon pg (i_ProductID it)) (set (o_Items ord))" and d: "distinct (o_Items ord)"
    by (auto simp: distinct_map)
  have "inj_on key (set (o_Items ord))"
  proof (rule inj_onI)
    fix a b assume "a \<in> set (o_Items ord)" "b \<in> set (o_Items ord)" "key a = key b"
    then show "a = b" using inj some [of a] some [of b] by (auto simp: key_def inj_on_def)
  qed
  then have keys: "distinct (map key (o_Items ord))" using d by (simp add: distinct_map)
  have rows: "map fst (item_rows (canon pg) ou (o_Items ord)) = map (Pair ou) (map key (o_Items ord))"
    by (simp add: item_rows_def key_def)
  have "distinct (map (Pair ou) (map key (o_Items ord)))" using keys by (simp add: distinct_map inj_on_def del: map_map)
  then have dist: "distinct (map fst (item_rows (canon pg) ou (o_Items ord)))" by (simp only: rows)
  have at: "order_items ?db (ou, key it) = Some (i_Quantity it, i_UnitCents it)" if "it \<in> set (o_Items ord)" for it
  proof -
    have "((ou, key it), (i_Quantity it, i_UnitCents it)) \<in> set (item_rows (canon pg) ou (o_Items ord))"
      using that by (auto simp: item_rows_def key_def)
    from map_of_is_SomeI [OF dist this] show ?thesis by (simp add: place_order_items)
  qed
  have S: "{u. (ou, u) \<in> dom (order_items ?db)} = set (map key (o_Items ord))"
  proof
    show "{u. (ou, u) \<in> dom (order_items ?db)} \<subseteq> set (map key (o_Items ord))"
      using old by (auto simp: place_order_items key_def split: option.splits dest!: item_rows_of)
    show "set (map key (o_Items ord)) \<subseteq> {u. (ou, u) \<in> dom (order_items ?db)}" using at by auto
  qed
  have "(\<Sum>it\<leftarrow>items_of ?db ou. i_UnitCents it * i_Quantity it)
      = (\<Sum>p\<leftarrow>sorted_list_of_set (set (map key (o_Items ord))). cost p)"
    unfolding items_of_def S map_map by (rule arg_cong [where f = sum_list]) (simp add: cost_def comp_def Let_def split: prod.splits)
  also have "\<dots> = sum cost (set (map key (o_Items ord)))"
    by (simp only: sum_list_distinct_conv_sum_set distinct_sorted_list_of_set set_sorted_list_of_set finite_set)
  also have "\<dots> = (\<Sum>p\<leftarrow>map key (o_Items ord). cost p)"
    by (simp only: sum_list_distinct_conv_sum_set [OF keys])
  also have "\<dots> = (\<Sum>it\<leftarrow>o_Items ord. i_UnitCents it * i_Quantity it)"
    using at by (simp add: cost_def comp_def cong: map_cong)
  finally show ?thesis by (simp add: lines_total_def)
qed

lemma place_order_evolves:
  assumes "orders db ou = None"
  shows "orders_evolves db (place_order pg ou ord db)"
proof -
  have "order_items (place_order pg ou ord db) (u, p) = order_items db (u, p)" if "u \<noteq> ou" for u p
    using that item_rows_of by (fastforce simp: place_order_items split: option.splits)
  then show ?thesis using assms by (auto simp: orders_evolves_def place_order_def)
qed

lemma set_status_inv [inv_intros]:
  "orders_inv db \<Longrightarrow> terminal st \<Longrightarrow> orders_inv (set_status now ou st reason db)"
  by (fastforce simp: orders_inv_def set_status_def split: option.splits)

lemma set_status_evolves:
  "orders db ou = Some row \<Longrightarrow> row_status row = StatusPending \<Longrightarrow> orders_evolves db (set_status now ou st reason db)"
  by (auto simp: orders_evolves_def set_status_def)

section \<open>The orders store\<close>

datatype orders_op = PlaceOrder Order | SetStatus string string string

fun orders_exec :: "orders_op \<Rightarrow> pg \<Rightarrow> orders_db \<Rightarrow> (order_error, Order) result \<times> orders_db" where
  "orders_exec (PlaceOrder ord) pg db = CreateOrder pg ord db"
| "orders_exec (SetStatus oid st msg) pg db = UpdateStatus pg oid st msg db"

lemma UpdateStatus_other: "\<not> terminal st \<Longrightarrow> UpdateStatus pg oid st msg db = (Inl (ErrInvalidTransition [] st), db)"
  by (auto simp: UpdateStatus_def)

lemma orders_exec_cases:
  assumes "orders_exec op pg db = (r, db')"
  shows "db' = db
    \<or> (\<exists>ou ord. orders db ou = None \<and> o_Items ord \<noteq> [] \<and> 0 \<le> o_TotalCents ord \<and> is_int64 (o_TotalCents ord)
         \<and> items_ok (canon pg) (o_Items ord) \<and> db' = place_order pg ou ord db)
    \<or> (\<exists>ou row st reason. orders db ou = Some row \<and> row_status row = StatusPending \<and> terminal st
         \<and> db' = set_status (clock pg) ou st reason db)"
proof (cases op)
  case (PlaceOrder ord)
  then show ?thesis using assms CreateOrder_outcome [of pg ord db r db'] by auto
next
  case (SetStatus oid st msg)
  then have u: "UpdateStatus pg oid st msg db = (r, db')" using assms by simp
  show ?thesis
  proof (cases "terminal st")
    case True
    from UpdateStatus_outcome [OF u True] True show ?thesis by blast
  next
    case False
    then show ?thesis using u UpdateStatus_other by simp
  qed
qed

interpretation orders: evolving_store orders_exec orders_inv orders_evolves
proof unfold_locales
  show "orders_inv (snd (orders_exec op pg db))" if "orders_inv db" for db op pg
    using orders_exec_cases [of op pg db, OF prod.collapse [symmetric]] that
    by (auto intro: place_order_inv set_status_inv)
  show "orders_evolves db (snd (orders_exec op pg db))" for db op pg
    using orders_exec_cases [of op pg db, OF prod.collapse [symmetric]]
    by (auto intro: orders_evolves_refl place_order_evolves set_status_evolves)
qed (rule orders_evolves_refl, rule orders_evolves_trans)

text \<open>
  C21.  A settled order stays settled, and an order's contents never change.  Whatever operations
  follow, with whatever lost round trips: an order that is not pending keeps its whole row, and
  every order keeps its owner, total, currency and items.
\<close>

theorem settled_is_final:
  assumes "orders_inv db" and "orders db u = Some row"
  shows "(row_status row \<noteq> StatusPending \<longrightarrow> orders (run_ops orders_exec ops db) u = Some row)
    \<and> (\<exists>row'. orders (run_ops orders_exec ops db) u = Some row' \<and> row_user row' = row_user row
        \<and> row_total row' = row_total row \<and> row_currency row' = row_currency row)
    \<and> items_of (run_ops orders_exec ops db) u = items_of db u"
proof -
  have e: "orders_evolves db (run_ops orders_exec ops db)" by (rule orders.run_evolves [OF assms(1)])
  then have "order_items (run_ops orders_exec ops db) (u, p) = order_items db (u, p)" for p
    using assms(2) by (auto simp: orders_evolves_def)
  then have "items_of (run_ops orders_exec ops db) u = items_of db u"
    by (simp add: items_of_def dom_def)
  then show ?thesis using e assms(2) unfolding orders_evolves_def by fastforce
qed

text \<open>
  C22.  An order is recorded whole or not at all: whichever round trips are lost, \<open>CreateOrder\<close> leaves
  the tables as before, or they hold the order, pending, with exactly its items; and success is
  answered only in the second case.
\<close>

theorem order_is_atomic:
  assumes "CreateOrder pg ord db = (r, db')" and "orders_inv db" and "canon pg (o_ID ord) = Some ou"
  shows "(db' = db \<and> isl r)
    \<or> (orders db ou = None
       \<and> (\<exists>row. orders db' ou = Some row \<and> row_status row = StatusPending \<and> row_user row = o_UserID ord
            \<and> row_total row = o_TotalCents ord \<and> row_currency row = o_Currency ord)
       \<and> (\<forall>p q c. order_items db' (ou, p) = Some (q, c) \<longleftrightarrow>
            (\<exists>it \<in> set (o_Items ord). canon pg (i_ProductID it) = Some p \<and> i_Quantity it = q \<and> i_UnitCents it = c)))"
proof (cases "db' = db \<and> isl r")
  case False
  with CreateOrder_outcome [OF assms(1)] assms(3)
  have new: "orders db ou = None" "items_ok (canon pg) (o_Items ord)" "db' = place_order pg ou ord db"
    by auto
  have none: "order_items db (ou, p) = None" for p
    using orders_invD(6) [OF assms(2), of "(ou, p)"] new(1) by (cases "order_items db (ou, p)") fastforce+
  let ?rows = "item_rows (canon pg) ou (o_Items ord)"
  have "the (canon pg (i_ProductID x)) = the (canon pg (i_ProductID y)) \<longleftrightarrow> canon pg (i_ProductID x) = canon pg (i_ProductID y)"
    if "x \<in> set (o_Items ord)" "y \<in> set (o_Items ord)" for x y
    using new(2) that by (metis items_ok_def option.expand)
  then have "distinct (map (\<lambda>it. the (canon pg (i_ProductID it))) (o_Items ord))"
    using new(2) by (auto simp: items_ok_def distinct_map inj_on_def)
  then have dist: "distinct (map fst ?rows)"
    by (simp add: item_rows_def comp_def distinct_map inj_on_def)
  have "order_items db' (ou, p) = Some (q, c) \<longleftrightarrow> ((ou, p), (q, c)) \<in> set ?rows" for p q c
    unfolding new(3) place_order_items map_of_eq_Some_iff [OF dist, symmetric] using none
    by (simp split: option.splits)
  moreover have "((ou, p), (q, c)) \<in> set ?rows \<longleftrightarrow>
      (\<exists>it \<in> set (o_Items ord). canon pg (i_ProductID it) = Some p \<and> i_Quantity it = q \<and> i_UnitCents it = c)" for p q c
  proof -
    have "canon pg (i_ProductID it) = Some p \<longleftrightarrow> the (canon pg (i_ProductID it)) = p" if "it \<in> set (o_Items ord)" for it
      using new(2) that by (auto simp: items_ok_def)
    then show ?thesis by (auto simp: item_rows_def)
  qed
  ultimately show ?thesis using new(1) by (simp add: new(3) place_order_def)
qed simp

text \<open>A concrete order, and an environment in which the first round trips run.\<close>

definition sample_order :: Order where
  "sample_order = \<lparr>o_ID = ''o'', o_UserID = ''u'', o_Status = [], o_TotalCents = 500, o_Currency = ''USD'',
     o_FailureReason = [], o_Items = [\<lparr>i_ProductID = ''w'', i_Quantity = 2, i_UnitCents = 250\<rparr>],
     o_CreatedAt = 0, o_UpdatedAt = 0\<rparr>"

definition all_run :: "int \<Rightarrow> pg" where
  "all_run now = \<lparr>fates = (\<lambda>_. Runs), clock = now, canon = Some\<rparr>"

lemma all_run_simps [simp]:
  "fates (all_run now) i = Runs" "clock (all_run now) = now" "canon (all_run now) = Some"
  by (simp_all add: all_run_def)

lemma sample_created:
  "CreateOrder (all_run 7) sample_order empty_orders =
     (OrderByID (all_run 7) 4 ''o'' (place_order (all_run 7) ''o'' sample_order empty_orders),
      place_order (all_run 7) ''o'' sample_order empty_orders)"
  by (simp add: CreateOrder_def store_simps insert_order_def insert_item_def sample_order_def empty_orders_def
      place_order_def item_rows_def is_int64_def min_int64_def max_int64_def is_int4_def text_ok_def)

theorem order_is_atomic_witness:
  "\<exists>db' row. CreateOrder (all_run 7) sample_order empty_orders = (OrderByID (all_run 7) 4 ''o'' db', db')
     \<and> orders db' ''o'' = Some row \<and> row_status row = StatusPending \<and> order_items db' (''o'', ''w'') = Some (2, 250)"
proof -
  let ?db = "place_order (all_run 7) ''o'' sample_order empty_orders"
  have "?db \<noteq> empty_orders" by (simp add: place_order_def empty_orders_def)
  with order_is_atomic [OF sample_created empty_orders_inv, of "''o''"] sample_created
  show ?thesis by (auto simp: sample_order_def)
qed

theorem settled_is_final_witness:
  "\<exists>db row. orders db ''o'' = Some row \<and> row_status row = StatusConfirmed
     \<and> orders (run_ops orders_exec [(SetStatus ''o'' StatusCancelled ''late'', all_run 9)] db) ''o'' = Some row"
proof -
  let ?db = "set_status 8 ''o'' StatusConfirmed None (place_order (all_run 7) ''o'' sample_order empty_orders)"
  have inv: "orders_inv ?db"
    by (intro set_status_inv place_order_inv empty_orders_inv)
       (simp_all add: empty_orders_def sample_order_def items_ok_def is_int64_def min_int64_def max_int64_def is_int4_def)
  obtain row where row: "orders ?db ''o'' = Some row" "row_status row = StatusConfirmed"
    by (simp add: set_status_def place_order_def)
  from settled_is_final [OF inv row(1), of "[(SetStatus ''o'' StatusCancelled ''late'', all_run 9)]"] row
  show ?thesis by auto
qed

end
