(* ===== verification/PaymentStore.thy ===== *)
theory PaymentStore
  imports Postgres
begin

text \<open>
  The payment service's data-access layer and its stub processor (\<open>services/payment/payment.go\<close>,
  \<open>migrations/000001_create_payments.up.sql\<close>).  The table is indexed by \<open>order_id\<close>, on which it
  has a unique index.  A null failure reason and an empty one are the same row here, because the
  code writes the empty reason as null and reads null as the empty reason.
\<close>

definition StatusSucceeded :: string where "StatusSucceeded = ''succeeded''"
definition StatusFailed :: string where "StatusFailed = ''failed''"

lemma payment_statuses_distinct [simp]: "StatusSucceeded \<noteq> StatusFailed" "StatusFailed \<noteq> StatusSucceeded"
  by (simp_all add: StatusSucceeded_def StatusFailed_def)

record Payment =
  pay_ID :: string
  pay_OrderID :: string
  pay_UserID :: string
  pay_AmountCents :: int
  pay_Currency :: string
  pay_Status :: string
  pay_FailureReason :: string
  pay_CreatedAt :: int

type_synonym payments_db = "string \<rightharpoonup> Payment"

datatype payment_error =
    ErrPaymentNotFound
  | ErrAlreadyCharged
  | PaymentWrapped string pg_error

section \<open>The statements\<close>

definition insert_payment :: "pg \<Rightarrow> Payment \<Rightarrow> (payments_db, Payment) stmt" where
  "insert_payment pg p db =
     (case (canon pg (pay_ID p), canon pg (pay_OrderID p)) of
        (Some u, Some ou) \<Rightarrow>
          (let row = p\<lparr>pay_ID := u, pay_OrderID := ou, pay_CreatedAt := clock pg\<rparr> in
           if \<not> is_int64 (pay_AmountCents p) then (Inl OutOfRange, db)
           else if \<not> (text_ok (pay_UserID p) \<and> text_ok (pay_Currency p) \<and> text_ok (pay_FailureReason p))
           then (Inl InvalidText, db)
           else if pay_AmountCents p < 0 \<or> pay_Status p \<notin> {StatusSucceeded, StatusFailed}
           then (Inl CheckViolation, db)
           else if db ou \<noteq> None \<or> (\<exists>q \<in> ran db. pay_ID q = u) then (Inl UniqueViolation, db)
           else (Inr row, db(ou \<mapsto> row)))
      | _ \<Rightarrow> (Inl InvalidText, db))"

definition select_payment :: "pg \<Rightarrow> string \<Rightarrow> (payments_db, Payment) stmt" where
  "select_payment pg oid db =
     (case canon pg oid of
        None \<Rightarrow> (Inl InvalidText, db)
      | Some ou \<Rightarrow> (case db ou of None \<Rightarrow> (Inl NoRows, db) | Some p \<Rightarrow> (Inr p, db)))"

section \<open>The operations\<close>

definition RecordCharge :: "pg \<Rightarrow> Payment \<Rightarrow> payments_db \<Rightarrow> (payment_error, Payment) result \<times> payments_db" where
  "RecordCharge pg p db =
     (case on_pool (fates pg 0) (insert_payment pg p) db of
        (Inl UniqueViolation, db') \<Rightarrow> (Inl ErrAlreadyCharged, db')
      | (Inl e, db') \<Rightarrow> (Inl (PaymentWrapped ''recording charge'' e), db')
      | (Inr created, db') \<Rightarrow> (Inr created, db'))"

definition PaymentByOrderID :: "pg \<Rightarrow> string \<Rightarrow> payments_db \<Rightarrow> (payment_error, Payment) result" where
  "PaymentByOrderID pg oid db =
     (case fst (on_pool (fates pg 0) (select_payment pg oid) db) of
        Inl NoRows \<Rightarrow> Inl ErrPaymentNotFound
      | Inl e \<Rightarrow> Inl (PaymentWrapped ''querying payment'' e)
      | Inr p \<Rightarrow> Inr p)"

text \<open>The stub processor approves every amount but the one set to fail; zero sets none.\<close>

definition StubGateway_Charge :: "int \<Rightarrow> int \<Rightarrow> string option" where
  "StubGateway_Charge failAmount amount =
     (if failAmount \<noteq> 0 \<and> amount = failAmount then Some ''card declined'' else None)"

section \<open>What the operations do\<close>

lemma RecordCharge_outcome:
  assumes "RecordCharge pg p db = (r, db')"
  shows "(db' = db \<and> isl r)
    \<or> (\<exists>ou row. canon pg (pay_OrderID p) = Some ou \<and> db ou = None \<and> db' = db(ou \<mapsto> row)
        \<and> pay_OrderID row = ou \<and> pay_UserID row = pay_UserID p \<and> pay_AmountCents row = pay_AmountCents p
        \<and> pay_Currency row = pay_Currency p \<and> pay_Status row = pay_Status p
        \<and> pay_FailureReason row = pay_FailureReason p \<and> text_ok (pay_FailureReason row)
        \<and> pay_Status row \<in> {StatusSucceeded, StatusFailed} \<and> 0 \<le> pay_AmountCents row \<and> is_int64 (pay_AmountCents row)
        \<and> (\<forall>got. r = Inr got \<longrightarrow> got = row))"
proof -
  obtain a d where ins: "on_pool (fates pg 0) (insert_payment pg p) db = (a, d)" by force
  have r: "db' = d" "isl r = isl a" "\<And>got. r = Inr got \<Longrightarrow> a = Inr got"
    using assms ins by (auto simp: RecordCharge_def split: sum.splits pg_error.splits)
  have "d = db \<and> isl a \<or> (\<exists>row. insert_payment pg p db = (Inr row, d) \<and> (\<forall>got. a = Inr got \<longrightarrow> got = row))"
    using ins by (auto simp: on_pool_def split: fate.splits prod.splits sum.splits)
  then show ?thesis
  proof
    assume "\<exists>row. insert_payment pg p db = (Inr row, d) \<and> (\<forall>got. a = Inr got \<longrightarrow> got = row)"
    then show ?thesis using r
      by (auto simp: insert_payment_def Let_def split: option.splits if_splits)
  qed (use r in auto)
qed

lemma PaymentByOrderID_Inr:
  "PaymentByOrderID pg oid db = Inr p \<Longrightarrow> \<exists>ou. canon pg oid = Some ou \<and> db ou = Some p"
  by (auto simp: PaymentByOrderID_def on_pool_def select_payment_def
      split: sum.splits pg_error.splits fate.splits option.splits)

section \<open>The invariant\<close>

text \<open>A row is stored under its order; there is at most one row per order by construction of the table.\<close>

definition payments_inv :: "payments_db \<Rightarrow> bool" where
  "payments_inv db \<longleftrightarrow>
     (\<forall>ou p. db ou = Some p \<longrightarrow>
        pay_OrderID p = ou \<and> pay_Status p \<in> {StatusSucceeded, StatusFailed} \<and> text_ok (pay_FailureReason p)
        \<and> 0 \<le> pay_AmountCents p \<and> is_int64 (pay_AmountCents p))"

definition payments_evolves :: "payments_db \<Rightarrow> payments_db \<Rightarrow> bool" where
  "payments_evolves db db' \<longleftrightarrow> db \<subseteq>\<^sub>m db'"

fun payments_exec :: "Payment \<Rightarrow> pg \<Rightarrow> payments_db \<Rightarrow> (payment_error, Payment) result \<times> payments_db" where
  "payments_exec p pg db = RecordCharge pg p db"

interpretation payments: evolving_store payments_exec payments_inv payments_evolves
proof unfold_locales
  show "payments_inv (snd (payments_exec p pg db))" if "payments_inv db" for db p pg
    using RecordCharge_outcome [of pg p db, OF prod.collapse [symmetric]] that
    by (auto simp: payments_inv_def split: if_splits) force+
  show "payments_evolves db (snd (payments_exec p pg db))" for db p pg
    using RecordCharge_outcome [of pg p db, OF prod.collapse [symmetric]]
    by (auto simp: payments_evolves_def map_le_def)
qed (auto simp: payments_evolves_def intro: map_le_trans)

text \<open>A row the table would accept if its order had none.\<close>

definition acceptable :: "pg \<Rightarrow> Payment \<Rightarrow> bool" where
  "acceptable pg p \<longleftrightarrow> canon pg (pay_ID p) \<noteq> None \<and> is_int64 (pay_AmountCents p) \<and> 0 \<le> pay_AmountCents p
     \<and> text_ok (pay_UserID p) \<and> text_ok (pay_Currency p) \<and> text_ok (pay_FailureReason p)
     \<and> pay_Status p \<in> {StatusSucceeded, StatusFailed}"

lemma RecordCharge_again:
  "acceptable pg q \<Longrightarrow> fates pg 0 = Runs \<Longrightarrow> canon pg (pay_OrderID q) = Some ou \<Longrightarrow> db ou = Some p
   \<Longrightarrow> RecordCharge pg q db = (Inl ErrAlreadyCharged, db)"
  by (auto simp: RecordCharge_def insert_payment_def acceptable_def store_simps Let_def)

text \<open>
  C23.  One charge is recorded per order, for good: of any sequence of attempts to record charges, with
  any lost round trips, the first recorded one stays; once an order has a record every further
  attempt for it fails and leaves the table alone, with \<open>ErrAlreadyCharged\<close> if it runs and the
  row is one the table would accept.
\<close>

theorem one_record_per_order:
  assumes "payments_inv db" and "db ou = Some p"
  shows "run_ops payments_exec ops db ou = Some p
    \<and> (\<forall>pg q. canon pg (pay_OrderID q) = Some ou \<longrightarrow>
        (\<exists>e. RecordCharge pg q (run_ops payments_exec ops db) = (Inl e, run_ops payments_exec ops db)
           \<and> (acceptable pg q \<and> fates pg 0 = Runs \<longrightarrow> e = ErrAlreadyCharged)))"
proof -
  have stay: "run_ops payments_exec ops db ou = Some p"
    using payments.run_evolves [OF assms(1), of ops] assms(2) unfolding payments_evolves_def map_le_def
    by (metis domI)
  moreover have "\<exists>e. RecordCharge pg q (run_ops payments_exec ops db) = (Inl e, run_ops payments_exec ops db)"
    if "canon pg (pay_OrderID q) = Some ou" for pg q
    using RecordCharge_outcome [of pg q "run_ops payments_exec ops db", OF prod.collapse [symmetric]] that stay
    by (cases "RecordCharge pg q (run_ops payments_exec ops db)") (auto simp: isl_def)
  ultimately show ?thesis using RecordCharge_again by (metis Pair_inject sum.inject(1))
qed

definition sample_payment :: "string \<Rightarrow> int \<Rightarrow> Payment" where
  "sample_payment oid n = \<lparr>pay_ID = ''p'', pay_OrderID = oid, pay_UserID = ''u'', pay_AmountCents = n, pay_Currency = ''USD'',
     pay_Status = StatusSucceeded, pay_FailureReason = [], pay_CreatedAt = 0\<rparr>"

theorem one_record_per_order_witness:
  "\<exists>db. payments_inv db \<and> db ''o'' = Some (sample_payment ''o'' 500)
     \<and> run_ops payments_exec [(sample_payment ''o'' 1, \<lparr>fates = \<lambda>_. Unanswered, clock = 3, canon = Some\<rparr>)] db ''o''
        = Some (sample_payment ''o'' 500)"
proof -
  let ?db = "[''o'' \<mapsto> sample_payment ''o'' 500]"
  have inv: "payments_inv ?db"
    by (simp add: payments_inv_def sample_payment_def text_ok_def is_int64_def min_int64_def max_int64_def)
  have row: "?db ''o'' = Some (sample_payment ''o'' 500)" by simp
  show ?thesis using one_record_per_order [OF inv row] inv row by blast
qed

end
