(* ===== verification/Events.thy ===== *)
theory Events
  imports Httpx
begin

text \<open>
  The saga's message contract (\<open>pkg/events/events.go\<close>): topics, payloads, the envelope, and the
  checked decoding of a payload.  A payload is the JSON value it denotes, or nothing: an envelope without
  the field holds no bytes, which no type decodes.
\<close>

definition TopicOrderCreated :: string where "TopicOrderCreated = ''order.created''"
definition TopicPaymentSucceeded :: string where "TopicPaymentSucceeded = ''payment.succeeded''"
definition TopicPaymentFailed :: string where "TopicPaymentFailed = ''payment.failed''"

definition TypeOrderCreated :: string where "TypeOrderCreated = ''OrderCreated''"
definition TypePaymentSucceeded :: string where "TypePaymentSucceeded = ''PaymentSucceeded''"
definition TypePaymentFailed :: string where "TypePaymentFailed = ''PaymentFailed''"

record Envelope =
  ev_ID :: string
  ev_Type :: string
  ev_CorrelationID :: string
  ev_OccurredAt :: int
  ev_Payload :: "json option"

record event_item =
  ei_ProductID :: string
  ei_Quantity :: int

record OrderCreated =
  oc_OrderID :: string
  oc_UserID :: string
  oc_AmountCents :: int
  oc_Currency :: string
  oc_Items :: "event_item list"

record PaymentSucceeded =
  ps_OrderID :: string
  ps_PaymentID :: string
  ps_AmountCents :: int
  ps_Currency :: string

record PaymentFailed =
  pf_OrderID :: string
  pf_Reason :: string

section \<open>Payloads as JSON\<close>

definition marshal_item :: "event_item \<Rightarrow> json" where
  "marshal_item it = JObj [(''product_id'', JStr (ei_ProductID it)), (''quantity'', JInt (ei_Quantity it))]"

definition marshal_OrderCreated :: "OrderCreated \<Rightarrow> json" where
  "marshal_OrderCreated e =
     JObj [(''order_id'', JStr (oc_OrderID e)), (''user_id'', JStr (oc_UserID e)),
           (''amount_cents'', JInt (oc_AmountCents e)), (''currency'', JStr (oc_Currency e)),
           (''items'', JArr (map marshal_item (oc_Items e)))]"

definition marshal_PaymentSucceeded :: "PaymentSucceeded \<Rightarrow> json" where
  "marshal_PaymentSucceeded e =
     JObj [(''order_id'', JStr (ps_OrderID e)), (''payment_id'', JStr (ps_PaymentID e)),
           (''amount_cents'', JInt (ps_AmountCents e)), (''currency'', JStr (ps_Currency e))]"

definition marshal_PaymentFailed :: "PaymentFailed \<Rightarrow> json" where
  "marshal_PaymentFailed e = JObj [(''order_id'', JStr (pf_OrderID e)), (''reason'', JStr (pf_Reason e))]"

definition unmarshal_item :: "json \<Rightarrow> event_item option" where
  "unmarshal_item =
     decode_struct False
       [(''product_id'', str_field (\<lambda>s r. r\<lparr>ei_ProductID := s\<rparr>)), (''quantity'', int_field (\<lambda>n r. r\<lparr>ei_Quantity := n\<rparr>))]
       \<lparr>ei_ProductID = [], ei_Quantity = 0\<rparr>"

definition unmarshal_OrderCreated :: "json \<Rightarrow> OrderCreated option" where
  "unmarshal_OrderCreated =
     decode_struct False
       [(''order_id'', str_field (\<lambda>s r. r\<lparr>oc_OrderID := s\<rparr>)), (''user_id'', str_field (\<lambda>s r. r\<lparr>oc_UserID := s\<rparr>)),
        (''amount_cents'', int_field (\<lambda>n r. r\<lparr>oc_AmountCents := n\<rparr>)), (''currency'', str_field (\<lambda>s r. r\<lparr>oc_Currency := s\<rparr>)),
        (''items'', list_field unmarshal_item (\<lambda>xs r. r\<lparr>oc_Items := xs\<rparr>))]
       \<lparr>oc_OrderID = [], oc_UserID = [], oc_AmountCents = 0, oc_Currency = [], oc_Items = []\<rparr>"

definition unmarshal_PaymentSucceeded :: "json \<Rightarrow> PaymentSucceeded option" where
  "unmarshal_PaymentSucceeded =
     decode_struct False
       [(''order_id'', str_field (\<lambda>s r. r\<lparr>ps_OrderID := s\<rparr>)), (''payment_id'', str_field (\<lambda>s r. r\<lparr>ps_PaymentID := s\<rparr>)),
        (''amount_cents'', int_field (\<lambda>n r. r\<lparr>ps_AmountCents := n\<rparr>)), (''currency'', str_field (\<lambda>s r. r\<lparr>ps_Currency := s\<rparr>))]
       \<lparr>ps_OrderID = [], ps_PaymentID = [], ps_AmountCents = 0, ps_Currency = []\<rparr>"

definition unmarshal_PaymentFailed :: "json \<Rightarrow> PaymentFailed option" where
  "unmarshal_PaymentFailed =
     decode_struct False
       [(''order_id'', str_field (\<lambda>s r. r\<lparr>pf_OrderID := s\<rparr>)), (''reason'', str_field (\<lambda>s r. r\<lparr>pf_Reason := s\<rparr>))]
       \<lparr>pf_OrderID = [], pf_Reason = []\<rparr>"

section \<open>Envelopes\<close>

definition NewEnvelope :: "string \<Rightarrow> string \<Rightarrow> string \<Rightarrow> int \<Rightarrow> json \<Rightarrow> Envelope" where
  "NewEnvelope evid eventType correlationID now payload =
     \<lparr>ev_ID = evid, ev_Type = eventType, ev_CorrelationID = correlationID, ev_OccurredAt = now, ev_Payload = Some payload\<rparr>"

definition Decode :: "(json \<Rightarrow> 'v option) \<Rightarrow> string \<Rightarrow> Envelope \<Rightarrow> (string, 'v) result" where
  "Decode unmarshal expectedType e =
     (if ev_Type e \<noteq> expectedType then Inl (''expected event type '' @ expectedType @ '', got '' @ ev_Type e)
      else case Option.bind (ev_Payload e) unmarshal of
        None \<Rightarrow> Inl (''decoding '' @ expectedType @ '' payload'')
      | Some v \<Rightarrow> Inr v)"

section \<open>Round trips\<close>

lemma types_distinct [simp]:
  "TypeOrderCreated \<noteq> TypePaymentSucceeded" "TypePaymentSucceeded \<noteq> TypeOrderCreated"
  "TypeOrderCreated \<noteq> TypePaymentFailed" "TypePaymentFailed \<noteq> TypeOrderCreated"
  "TypePaymentSucceeded \<noteq> TypePaymentFailed" "TypePaymentFailed \<noteq> TypePaymentSucceeded"
  by (simp_all add: TypeOrderCreated_def TypePaymentSucceeded_def TypePaymentFailed_def)

lemma topics_distinct [simp]:
  "TopicOrderCreated \<noteq> TopicPaymentSucceeded" "TopicPaymentSucceeded \<noteq> TopicOrderCreated"
  "TopicOrderCreated \<noteq> TopicPaymentFailed" "TopicPaymentFailed \<noteq> TopicOrderCreated"
  "TopicPaymentSucceeded \<noteq> TopicPaymentFailed" "TopicPaymentFailed \<noteq> TopicPaymentSucceeded"
  by (simp_all add: TopicOrderCreated_def TopicPaymentSucceeded_def TopicPaymentFailed_def)

lemmas field_simps_json = decode_struct_def str_field_def int_field_def list_field_def ascii_upper_def

lemma unmarshal_item_marshal:
  "is_int64 (ei_Quantity it) \<Longrightarrow> unmarshal_item (marshal_item it) = Some it"
  by (simp add: unmarshal_item_def marshal_item_def field_simps_json)

lemma decode_list_map:
  "(\<And>x. x \<in> set xs \<Longrightarrow> dec (enc x) = Some x) \<Longrightarrow> decode_list dec (map enc xs) = Some xs"
  by (induction xs) auto

definition wf_OrderCreated :: "OrderCreated \<Rightarrow> bool" where
  "wf_OrderCreated e \<longleftrightarrow> is_int64 (oc_AmountCents e) \<and> (\<forall>it \<in> set (oc_Items e). is_int64 (ei_Quantity it))"

lemma unmarshal_marshal [simp]:
  "wf_OrderCreated oc \<Longrightarrow> unmarshal_OrderCreated (marshal_OrderCreated oc) = Some oc"
  "is_int64 (ps_AmountCents ps) \<Longrightarrow> unmarshal_PaymentSucceeded (marshal_PaymentSucceeded ps) = Some ps"
  "unmarshal_PaymentFailed (marshal_PaymentFailed pf) = Some pf"
  by (simp_all add: unmarshal_OrderCreated_def marshal_OrderCreated_def wf_OrderCreated_def
      decode_list_map unmarshal_item_marshal unmarshal_PaymentSucceeded_def marshal_PaymentSucceeded_def
      unmarshal_PaymentFailed_def marshal_PaymentFailed_def field_simps_json)



end
