(* ===== verification/World.thy ===== *)
theory World
  imports Programs CatalogAPI OrdersProps PaymentStore Events
begin

text \<open>
  The world the services share: the three databases, the Kafka topics, the calls made to the payment
  processor.  Services reach another's database only through its HTTP handlers
  (\<open>services/orders/catalog_client.go\<close>) and tell it of events only through topics
  (\<open>Publish\<close> in \<open>pkg/events/kafka.go\<close>).
\<close>

section \<open>State and environment\<close>

text \<open>
  \<open>w_shipped\<close> and \<open>w_direct\<close> are history, read by no definition of the code: the quantities consumed
  by commits, and the orders whose charge was recorded by the HTTP endpoint rather than the saga.
\<close>

record world =
  w_catalog :: catalog_db
  w_orders :: orders_db
  w_payments :: payments_db
  w_topics :: "string \<Rightarrow> (string \<times> Envelope) list"
  w_charges :: "(string \<times> int \<times> string) list"
  w_shipped :: "string \<times> string \<rightharpoonup> int"
  w_direct :: "string set"

text \<open>
  What one call meets: the fate of its network exchange, the environment of the store behind it,
  random bytes, the producer's clock, and how the catalog's router reads the path
  \<open>/catalog/products/\<close> followed by a text the caller chose.
\<close>

datatype routed = BadURL | NoRoute | Routed string

record env =
  e_net :: fate
  e_pg :: pg
  e_bytes :: "8 word list"
  e_now :: int
  e_path :: "string \<Rightarrow> routed"

type_synonym ('r) effect_fun = "env \<Rightarrow> world \<Rightarrow> 'r \<times> world"
type_synonym 'a handler = "(env, world, 'a) prog"

section \<open>The catalog client\<close>

datatype catalog_error = ErrCatalogNotFound | ErrCatalogConflict | CatalogFailed

record CatalogProduct =
  cp_ID :: string
  cp_PriceCents :: int
  cp_Currency :: string
  cp_Available :: int

definition json_request :: "string \<Rightarrow> string \<Rightarrow> json \<Rightarrow> request" where
  "json_request cid pid payload =
     \<lparr>header = (\<lambda>_. []), url_id = pid, query = (\<lambda>_. []), req_body = (Value payload, End), correlation = cid\<rparr>"

definition CatalogClient_Product :: "string \<Rightarrow> string \<Rightarrow> (catalog_error, CatalogProduct) result effect_fun" where
  "CatalogClient_Product cid productID e w =
     (if e_net e \<noteq> Runs then (Inl CatalogFailed, w)
      else case e_path e productID of
        BadURL \<Rightarrow> (Inl CatalogFailed, w)
      | NoRoute \<Rightarrow> (Inl ErrCatalogNotFound, w)
      | Routed pid \<Rightarrow>
          (case fst (getProduct (e_pg e) (json_request cid pid JNull) (w_catalog w)) of
             JSON st v \<Rightarrow>
               if st = 200
               then (Inr \<lparr>cp_ID = v_ID v, cp_PriceCents = v_PriceCents v, cp_Currency = v_Currency v,
                          cp_Available = v_Available v\<rparr>, w)
               else (Inl CatalogFailed, w)
           | ErrorJSON st _ _ \<Rightarrow> (Inl (if st = 404 then ErrCatalogNotFound else CatalogFailed), w)))"

definition reservationReply :: "int \<Rightarrow> (catalog_error, unit) result" where
  "reservationReply st =
     (if st = 200 then Inr () else if st = 404 then Inl ErrCatalogNotFound
      else if st = 409 then Inl ErrCatalogConflict else Inl CatalogFailed)"

definition reservationCall ::
  "(pg \<Rightarrow> request \<Rightarrow> catalog_db \<Rightarrow> productView response \<times> catalog_db) \<Rightarrow> string \<Rightarrow> json
   \<Rightarrow> (catalog_error, unit) result effect_fun" where
  "reservationCall endpoint cid payload e w =
     (if e_net e = Refused then (Inl CatalogFailed, w)
      else
        (let (resp, c) = endpoint (e_pg e) (json_request cid [] payload) (w_catalog w) in
         (if e_net e = Runs then reservationReply (status resp) else Inl CatalogFailed, w\<lparr>w_catalog := c\<rparr>)))"

definition CatalogClient_Reserve :: "string \<Rightarrow> string \<Rightarrow> string \<Rightarrow> int \<Rightarrow> (catalog_error, unit) result effect_fun" where
  "CatalogClient_Reserve cid oid pid quantity =
     reservationCall reserve cid
       (JObj [(''order_id'', JStr oid), (''product_id'', JStr pid), (''quantity'', JInt quantity)])"

definition CatalogClient_Release :: "string \<Rightarrow> string \<Rightarrow> string \<Rightarrow> (catalog_error, unit) result effect_fun" where
  "CatalogClient_Release cid oid pid =
     reservationCall release cid (JObj [(''order_id'', JStr oid), (''product_id'', JStr pid)])"

text \<open>A commit, and the history of what commits have consumed.\<close>

definition ship :: "catalog_db \<Rightarrow> catalog_db \<Rightarrow> (string \<times> string \<rightharpoonup> int) \<Rightarrow> (string \<times> string \<rightharpoonup> int)" where
  "ship before after shipped =
     (\<lambda>k. if reservations before k \<noteq> None \<and> reservations after k = None then reservations before k else shipped k)"

definition CatalogClient_Commit :: "string \<Rightarrow> string \<Rightarrow> string \<Rightarrow> (catalog_error, unit) result effect_fun" where
  "CatalogClient_Commit cid oid pid e w =
     (let (r, w') = reservationCall commitReservation cid
                      (JObj [(''order_id'', JStr oid), (''product_id'', JStr pid)]) e w
      in (r, w'\<lparr>w_shipped := ship (w_catalog w) (w_catalog w') (w_shipped w)\<rparr>))"

section \<open>Publishing\<close>

definition Publish :: "string \<Rightarrow> string \<Rightarrow> Envelope \<Rightarrow> (string, unit) result effect_fun" where
  "Publish topic key ev e w =
     (let w' = w\<lparr>w_topics := (w_topics w)(topic := w_topics w topic @ [(key, ev)])\<rparr> in
      case e_net e of
        Runs \<Rightarrow> (Inr (), w')
      | Refused \<Rightarrow> (Inl (''publishing to '' @ topic), w)
      | Unanswered \<Rightarrow> (Inl (''publishing to '' @ topic), w'))"

section \<open>Store calls in the world\<close>

definition orders_read :: "(pg \<Rightarrow> orders_db \<Rightarrow> 'r) \<Rightarrow> 'r effect_fun" where
  "orders_read f e w = (f (e_pg e) (w_orders w), w)"

definition orders_write :: "(pg \<Rightarrow> orders_db \<Rightarrow> 'r \<times> orders_db) \<Rightarrow> 'r effect_fun" where
  "orders_write f e w = (let (r, d) = f (e_pg e) (w_orders w) in (r, w\<lparr>w_orders := d\<rparr>))"

definition payments_read :: "(pg \<Rightarrow> payments_db \<Rightarrow> 'r) \<Rightarrow> 'r effect_fun" where
  "payments_read f e w = (f (e_pg e) (w_payments w), w)"

end
