(* ===== verification/OrdersAPI.thy ===== *)
theory OrdersAPI
  imports World
begin

text \<open>
  The orders service: its HTTP handlers (\<open>services/orders/handlers.go\<close>) and its side of the saga
  (\<open>services/orders/saga.go\<close>), as programs over the world.  \<open>cid\<close> is the correlation ID of the
  context.  Log lines and metrics are left out; the saga coordinator is present, as \<open>main.go\<close> wires it.
\<close>

section \<open>Views and requests\<close>

record orderView =
  ov_ID :: string
  ov_UserID :: string
  ov_Status :: string
  ov_TotalCents :: int
  ov_Currency :: string
  ov_FailureReason :: string
  ov_Items :: "OrderItem list"
  ov_CreatedAt :: int
  ov_UpdatedAt :: int

definition order_toView :: "Order \<Rightarrow> orderView" where
  "order_toView ord =
     \<lparr>ov_ID = o_ID ord, ov_UserID = o_UserID ord, ov_Status = o_Status ord, ov_TotalCents = o_TotalCents ord,
      ov_Currency = o_Currency ord, ov_FailureReason = o_FailureReason ord, ov_Items = o_Items ord,
      ov_CreatedAt = o_CreatedAt ord, ov_UpdatedAt = o_UpdatedAt ord\<rparr>"

record orderItemRequest =
  or_ProductID :: string
  or_Quantity :: int

definition decode_orderItemRequest :: "json \<Rightarrow> orderItemRequest option" where
  "decode_orderItemRequest =
     decode_struct True
       [(''product_id'', str_field (\<lambda>s r. r\<lparr>or_ProductID := s\<rparr>)), (''quantity'', int_field (\<lambda>n r. r\<lparr>or_Quantity := n\<rparr>))]
       \<lparr>or_ProductID = [], or_Quantity = 0\<rparr>"

record createOrderRequest = co_Items :: "orderItemRequest list"

definition decode_createOrderRequest :: "json \<Rightarrow> createOrderRequest option" where
  "decode_createOrderRequest =
     decode_struct True [(''items'', list_field decode_orderItemRequest (\<lambda>xs r. r\<lparr>co_Items := xs\<rparr>))] \<lparr>co_Items = []\<rparr>"

definition maxItemsPerOrder :: int where "maxItemsPerOrder = 50"

text \<open>The validation loop of \<open>createOrder\<close>; \<open>seen\<close> holds the product identifiers passed so far.\<close>

fun check_items :: "string set \<Rightarrow> orderItemRequest list \<Rightarrow> string option" where
  "check_items seen [] = None"
| "check_items seen (item # items) =
     (if or_ProductID item = '''' then Some ''each item needs a product_id''
      else if or_Quantity item \<le> 0 then Some ''each item needs a positive quantity''
      else if or_ProductID item \<in> seen then Some ''each product may appear only once per order''
      else check_items (insert (or_ProductID item) seen) items)"

section \<open>Creating an order\<close>

text \<open>\<open>releaseAll\<close> ignores failures; \<open>k\<close> is what its caller does next.\<close>

fun releaseAll :: "string \<Rightarrow> string \<Rightarrow> string list \<Rightarrow> 'a handler \<Rightarrow> 'a handler" where
  "releaseAll cid orderID [] k = k"
| "releaseAll cid orderID (productID # productIDs) k =
     call (CatalogClient_Release cid orderID productID) (\<lambda>_. releaseAll cid orderID productIDs k)"

definition PublishOrderCreated :: "string \<Rightarrow> Order \<Rightarrow> (string, unit) result effect_fun" where
  "PublishOrderCreated cid ord e w =
     (let items = map (\<lambda>it. \<lparr>ei_ProductID = i_ProductID it, ei_Quantity = i_Quantity it\<rparr>) (o_Items ord);
          ev = NewEnvelope (newUUID (e_bytes e)) TypeOrderCreated cid (e_now e)
                 (marshal_OrderCreated
                    \<lparr>oc_OrderID = o_ID ord, oc_UserID = o_UserID ord, oc_AmountCents = o_TotalCents ord,
                     oc_Currency = o_Currency ord, oc_Items = items\<rparr>)
      in Publish TopicOrderCreated (o_ID ord) ev e w)"

definition record_order :: "request \<Rightarrow> string list \<Rightarrow> Order \<Rightarrow> orderView response handler" where
  "record_order r reserved ord =
     call (orders_write (\<lambda>pg. CreateOrder pg ord)) (\<lambda>res.
       case res of
         Inl _ \<Rightarrow>
           releaseAll (correlation r) (o_ID ord) reserved (Ret (WriteError r 500 ''could not create order''))
       | Inr order \<Rightarrow>
           call (PublishOrderCreated (correlation r) order) (\<lambda>pub.
             case pub of
               Inl _ \<Rightarrow> Ret (WriteError r 502 ''order created but could not be submitted for payment'')
             | Inr _ \<Rightarrow> Ret (WriteJSON r 201 (order_toView order))))"

text \<open>The reservation loop: \<open>todo\<close> are the lines still to hold, \<open>reserved\<close> the products held so far.\<close>

fun reserve_items :: "request \<Rightarrow> Order \<Rightarrow> string list \<Rightarrow> OrderItem list \<Rightarrow> orderView response handler" where
  "reserve_items r ord reserved [] = record_order r reserved ord"
| "reserve_items r ord reserved (item # todo) =
     call (CatalogClient_Reserve (correlation r) (o_ID ord) (i_ProductID item) (i_Quantity item)) (\<lambda>res.
       case res of
         Inl err \<Rightarrow>
           releaseAll (correlation r) (o_ID ord) reserved
             (Ret (case err of
                ErrCatalogConflict \<Rightarrow> WriteError r 409 (''insufficient stock for product '' @ i_ProductID item)
              | ErrCatalogNotFound \<Rightarrow> WriteError r 400 (''unknown product: '' @ i_ProductID item)
              | CatalogFailed \<Rightarrow> WriteError r 502 ''could not reserve stock''))
       | Inr _ \<Rightarrow> reserve_items r ord (reserved @ [i_ProductID item]) todo)"

text \<open>The pricing loop: \<open>items\<close>, \<open>total_cents\<close> and \<open>currency\<close> as accumulated; 64-bit sums wrap.\<close>

fun price_items ::
  "request \<Rightarrow> string \<Rightarrow> string \<Rightarrow> OrderItem list \<Rightarrow> int \<Rightarrow> string \<Rightarrow> orderItemRequest list \<Rightarrow> orderView response handler" where
  "price_items r orderID userID items total_cents currency [] =
     reserve_items r
       \<lparr>o_ID = orderID, o_UserID = userID, o_Status = [], o_TotalCents = total_cents, o_Currency = currency,
        o_FailureReason = [], o_Items = items, o_CreatedAt = 0, o_UpdatedAt = 0\<rparr> [] items"
| "price_items r orderID userID items total_cents currency (item # todo) =
     call (CatalogClient_Product (correlation r) (or_ProductID item)) (\<lambda>res.
       case res of
         Inl ErrCatalogNotFound \<Rightarrow> Ret (WriteError r 400 (''unknown product: '' @ or_ProductID item))
       | Inl _ \<Rightarrow> Ret (WriteError r 502 ''could not price the order'')
       | Inr product \<Rightarrow>
           price_items r orderID userID
             (items @ [\<lparr>i_ProductID = or_ProductID item, i_Quantity = or_Quantity item, i_UnitCents = cp_PriceCents product\<rparr>])
             (wrap64 (total_cents + wrap64 (cp_PriceCents product * or_Quantity item)))
             (cp_Currency product) todo)"

definition createOrder :: "8 word list \<Rightarrow> request \<Rightarrow> orderView response handler" where
  "createOrder random r =
     (let userID = Subject r in
      if userID = '''' then Ret (WriteError r 401 ''unauthenticated'')
      else case DecodeJSON decode_createOrderRequest (req_body r) of
        Inl err \<Rightarrow> Ret (WriteError r 400 err)
      | Inr req \<Rightarrow>
          if length (co_Items req) = 0 then Ret (WriteError r 400 ''an order must have at least one item'')
          else if maxItemsPerOrder < int (length (co_Items req)) then Ret (WriteError r 400 ''too many items in one order'')
          else case check_items {} (co_Items req) of
            Some msg \<Rightarrow> Ret (WriteError r 400 msg)
          | None \<Rightarrow> price_items r (newUUID random) userID [] 0 ''USD'' (co_Items req))"

section \<open>Reading orders\<close>

definition getOrder :: "request \<Rightarrow> orderView response handler" where
  "getOrder r =
     (let userID = Subject r in
      if userID = '''' then Ret (WriteError r 401 ''unauthenticated'')
      else call (orders_read (\<lambda>pg. OrderByID pg 0 (url_id r))) (\<lambda>res.
        case res of
          Inl ErrOrderNotFound \<Rightarrow> Ret (WriteError r 404 ''order not found'')
        | Inl _ \<Rightarrow> Ret (WriteError r 500 ''could not load order'')
        | Inr order \<Rightarrow>
            if o_UserID order \<noteq> userID then Ret (WriteError r 404 ''order not found'')
            else Ret (WriteJSON r 200 (order_toView order))))"

definition listOrders :: "request \<Rightarrow> (orderView list \<times> int \<times> int) response handler" where
  "listOrders r =
     (let userID = Subject r in
      if userID = '''' then Ret (WriteError r 401 ''unauthenticated'')
      else
        (let limit = intParam r ''limit'' 20 1 100; offset = intParam r ''offset'' 0 0 1000000 in
         call (orders_read (\<lambda>pg. OrdersForUser pg userID limit offset)) (\<lambda>res.
           case res of
             Inl _ \<Rightarrow> Ret (WriteError r 500 ''could not list orders'')
           | Inr ords \<Rightarrow> Ret (WriteJSON r 200 (map order_toView ords, limit, offset)))))"

section \<open>The saga\<close>

datatype saga_error =
    LoadingOrder order_error
  | CommittingReservation string catalog_error
  | ReleasingReservation string catalog_error
  | ConfirmingOrder order_error
  | CancellingOrder order_error

fun commit_items :: "string \<Rightarrow> string \<Rightarrow> OrderItem list \<Rightarrow> (saga_error, unit) result handler \<Rightarrow> (saga_error, unit) result handler" where
  "commit_items cid orderID [] k = k"
| "commit_items cid orderID (item # items) k =
     call (CatalogClient_Commit cid orderID (i_ProductID item)) (\<lambda>res.
       case res of
         Inl err \<Rightarrow> Ret (Inl (CommittingReservation (i_ProductID item) err))
       | Inr _ \<Rightarrow> commit_items cid orderID items k)"

fun release_items :: "string \<Rightarrow> string \<Rightarrow> OrderItem list \<Rightarrow> (saga_error, unit) result handler \<Rightarrow> (saga_error, unit) result handler" where
  "release_items cid orderID [] k = k"
| "release_items cid orderID (item # items) k =
     call (CatalogClient_Release cid orderID (i_ProductID item)) (\<lambda>res.
       case res of
         Inl err \<Rightarrow> Ret (Inl (ReleasingReservation (i_ProductID item) err))
       | Inr _ \<Rightarrow> release_items cid orderID items k)"

definition HandlePaymentSucceeded :: "string \<Rightarrow> Envelope \<Rightarrow> (saga_error, unit) result handler" where
  "HandlePaymentSucceeded cid ev =
     (case Decode unmarshal_PaymentSucceeded TypePaymentSucceeded ev of
        Inl _ \<Rightarrow> Ret (Inr ())
      | Inr payload \<Rightarrow>
          call (orders_read (\<lambda>pg. OrderByID pg 0 (ps_OrderID payload))) (\<lambda>res.
            case res of
              Inl ErrOrderNotFound \<Rightarrow> Ret (Inr ())
            | Inl err \<Rightarrow> Ret (Inl (LoadingOrder err))
            | Inr order \<Rightarrow>
                commit_items cid (o_ID order) (o_Items order)
                  (call (orders_write (\<lambda>pg. UpdateStatus pg (o_ID order) StatusConfirmed '''')) (\<lambda>upd.
                     case upd of
                       Inl (ErrInvalidTransition _ _) \<Rightarrow> Ret (Inr ())
                     | Inl err \<Rightarrow> Ret (Inl (ConfirmingOrder err))
                     | Inr _ \<Rightarrow> Ret (Inr ())))))"

definition HandlePaymentFailed :: "string \<Rightarrow> Envelope \<Rightarrow> (saga_error, unit) result handler" where
  "HandlePaymentFailed cid ev =
     (case Decode unmarshal_PaymentFailed TypePaymentFailed ev of
        Inl _ \<Rightarrow> Ret (Inr ())
      | Inr payload \<Rightarrow>
          call (orders_read (\<lambda>pg. OrderByID pg 0 (pf_OrderID payload))) (\<lambda>res.
            case res of
              Inl ErrOrderNotFound \<Rightarrow> Ret (Inr ())
            | Inl err \<Rightarrow> Ret (Inl (LoadingOrder err))
            | Inr order \<Rightarrow>
                release_items cid (o_ID order) (o_Items order)
                  (let reason = (if pf_Reason payload = '''' then ''payment failed'' else pf_Reason payload) in
                   call (orders_write (\<lambda>pg. UpdateStatus pg (o_ID order) StatusCancelled reason)) (\<lambda>upd.
                     case upd of
                       Inl (ErrInvalidTransition _ _) \<Rightarrow> Ret (Inr ())
                     | Inl err \<Rightarrow> Ret (Inl (CancellingOrder err))
                     | Inr _ \<Rightarrow> Ret (Inr ())))))"

end
