(* ===== verification/PaymentAPI.thy ===== *)
theory PaymentAPI
  imports World
begin

text \<open>
  The payment service: its HTTP handlers (\<open>services/payment/payment.go\<close>) and its side of the saga
  (\<open>services/payment/saga.go\<close>), as programs over the world.  The payment processor is a parameter:
  \<open>gateway order amount currency\<close> is \<open>None\<close> when it approves and the error text when it declines.
\<close>

type_synonym gateway = "string \<Rightarrow> int \<Rightarrow> string \<Rightarrow> string option"

definition stub_gateway :: "int \<Rightarrow> gateway" where
  "stub_gateway failAmount = (\<lambda>_ amount _. StubGateway_Charge failAmount amount)"

record paymentView =
  pv_ID :: string
  pv_OrderID :: string
  pv_AmountCents :: int
  pv_Currency :: string
  pv_Status :: string
  pv_FailureReason :: string
  pv_CreatedAt :: int

definition payment_toView :: "Payment \<Rightarrow> paymentView" where
  "payment_toView p =
     \<lparr>pv_ID = pay_ID p, pv_OrderID = pay_OrderID p, pv_AmountCents = pay_AmountCents p,
      pv_Currency = pay_Currency p, pv_Status = pay_Status p, pv_FailureReason = pay_FailureReason p,
      pv_CreatedAt = pay_CreatedAt p\<rparr>"

record chargeRequest =
  cr_OrderID :: string
  cr_AmountCents :: int
  cr_Currency :: string

definition decode_chargeRequest :: "json \<Rightarrow> chargeRequest option" where
  "decode_chargeRequest =
     decode_struct True
       [(''order_id'', str_field (\<lambda>s r. r\<lparr>cr_OrderID := s\<rparr>)), (''amount_cents'', int_field (\<lambda>n r. r\<lparr>cr_AmountCents := n\<rparr>)),
        (''currency'', str_field (\<lambda>s r. r\<lparr>cr_Currency := s\<rparr>))]
       \<lparr>cr_OrderID = [], cr_AmountCents = 0, cr_Currency = []\<rparr>"

section \<open>Calls\<close>

text \<open>A call of the processor is logged in the world: it is where money moves.\<close>

definition Gateway_Charge :: "gateway \<Rightarrow> string \<Rightarrow> int \<Rightarrow> string \<Rightarrow> string option effect_fun" where
  "Gateway_Charge gateway oid amount currency e w =
     (gateway oid amount currency, w\<lparr>w_charges := w_charges w @ [(oid, amount, currency)]\<rparr>)"

text \<open>The status and reason of a payment after the processor has answered.\<close>

definition attempted :: "string \<Rightarrow> string \<Rightarrow> int \<Rightarrow> string \<Rightarrow> string option \<Rightarrow> Payment" where
  "attempted oid userID amount currency declined =
     \<lparr>pay_ID = [], pay_OrderID = oid, pay_UserID = userID, pay_AmountCents = amount, pay_Currency = currency,
      pay_Status = (if declined = None then StatusSucceeded else StatusFailed),
      pay_FailureReason = (case declined of None \<Rightarrow> '''' | Some reason \<Rightarrow> reason), pay_CreatedAt = 0\<rparr>"

text \<open>
  \<open>RecordCharge\<close> under a fresh identifier; \<open>direct\<close> marks the HTTP endpoint in the history.
\<close>

definition record_charge :: "bool \<Rightarrow> Payment \<Rightarrow> (payment_error, Payment) result effect_fun" where
  "record_charge direct p e w =
     (let (r, d) = RecordCharge (e_pg e) (p\<lparr>pay_ID := newUUID (e_bytes e)\<rparr>) (w_payments w) in
      (r, w\<lparr>w_payments := d, w_direct := (if direct then w_direct w \<union> (dom d - dom (w_payments w)) else w_direct w)\<rparr>))"

section \<open>The HTTP endpoint\<close>

definition charge :: "gateway \<Rightarrow> request \<Rightarrow> paymentView response handler" where
  "charge gateway r =
     (let userID = Subject r in
      if userID = '''' then Ret (WriteError r 401 ''unauthenticated'')
      else case DecodeJSON decode_chargeRequest (req_body r) of
        Inl err \<Rightarrow> Ret (WriteError r 400 err)
      | Inr req \<Rightarrow>
          if cr_OrderID req = '''' then Ret (WriteError r 400 ''order_id is required'')
          else if cr_AmountCents req \<le> 0 then Ret (WriteError r 400 ''amount_cents must be positive'')
          else
            (let upper = ToUpper (TrimSpace (cr_Currency req));
                 currency = (if upper = '''' then ''USD'' else upper);
                 failed = Ret (WriteError r 500 ''could not process payment'')
             in
             call (payments_read (\<lambda>pg. PaymentByOrderID pg (cr_OrderID req))) (\<lambda>found.
               case found of
                 Inr existing \<Rightarrow> Ret (WriteJSON r 200 (payment_toView existing))
               | Inl (PaymentWrapped _ _) \<Rightarrow> failed
               | Inl ErrAlreadyCharged \<Rightarrow> failed
               | Inl ErrPaymentNotFound \<Rightarrow>
                   call (Gateway_Charge gateway (cr_OrderID req) (cr_AmountCents req) currency) (\<lambda>declined.
                     call (record_charge True (attempted (cr_OrderID req) userID (cr_AmountCents req) currency declined)) (\<lambda>rec.
                       case rec of
                         Inr payment \<Rightarrow> Ret (WriteJSON r 201 (payment_toView payment))
                       | Inl ErrAlreadyCharged \<Rightarrow>
                           call (payments_read (\<lambda>pg. PaymentByOrderID pg (cr_OrderID req))) (\<lambda>again.
                             case again of
                               Inl _ \<Rightarrow> failed
                             | Inr existing \<Rightarrow> Ret (WriteJSON r 200 (payment_toView existing)))
                       | Inl _ \<Rightarrow> failed)))))"

definition getCharge :: "request \<Rightarrow> paymentView response handler" where
  "getCharge r =
     (let userID = Subject r in
      if userID = '''' then Ret (WriteError r 401 ''unauthenticated'')
      else call (payments_read (\<lambda>pg. PaymentByOrderID pg (url_id r))) (\<lambda>res.
        case res of
          Inl ErrPaymentNotFound \<Rightarrow> Ret (WriteError r 404 ''payment not found'')
        | Inl _ \<Rightarrow> Ret (WriteError r 500 ''could not load payment'')
        | Inr payment \<Rightarrow>
            if pay_UserID payment \<noteq> userID then Ret (WriteError r 404 ''payment not found'')
            else Ret (WriteJSON r 200 (payment_toView payment))))"

section \<open>The saga\<close>

datatype charge_error =
    LookingUp payment_error
  | RecordingCharge payment_error
  | LoadingWinner payment_error
  | Publishing string

definition outcome_event :: "string \<Rightarrow> Payment \<Rightarrow> env \<Rightarrow> string \<times> Envelope" where
  "outcome_event cid p e =
     (if pay_Status p = StatusSucceeded
      then (TopicPaymentSucceeded,
            NewEnvelope (newUUID (e_bytes e)) TypePaymentSucceeded cid (e_now e)
              (marshal_PaymentSucceeded
                 \<lparr>ps_OrderID = pay_OrderID p, ps_PaymentID = pay_ID p, ps_AmountCents = pay_AmountCents p,
                  ps_Currency = pay_Currency p\<rparr>))
      else (TopicPaymentFailed,
            NewEnvelope (newUUID (e_bytes e)) TypePaymentFailed cid (e_now e)
              (marshal_PaymentFailed \<lparr>pf_OrderID = pay_OrderID p, pf_Reason = pay_FailureReason p\<rparr>)))"

definition publishOutcome :: "string \<Rightarrow> Payment \<Rightarrow> (charge_error, unit) result handler" where
  "publishOutcome cid p =
     call (\<lambda>e. case outcome_event cid p e of (topic, ev) \<Rightarrow> Publish topic (pay_OrderID p) ev e) (\<lambda>res.
       case res of Inl err \<Rightarrow> Ret (Inl (Publishing err)) | Inr _ \<Rightarrow> Ret (Inr ()))"

definition HandleOrderCreated :: "gateway \<Rightarrow> string \<Rightarrow> Envelope \<Rightarrow> (charge_error, unit) result handler" where
  "HandleOrderCreated gateway cid ev =
     (case Decode unmarshal_OrderCreated TypeOrderCreated ev of
        Inl _ \<Rightarrow> Ret (Inr ())
      | Inr order \<Rightarrow>
          if oc_OrderID order = '''' then Ret (Inr ())
          else
            call (payments_read (\<lambda>pg. PaymentByOrderID pg (oc_OrderID order))) (\<lambda>found.
              case found of
                Inr existing \<Rightarrow> publishOutcome cid existing
              | Inl (PaymentWrapped m x) \<Rightarrow> Ret (Inl (LookingUp (PaymentWrapped m x)))
              | Inl ErrAlreadyCharged \<Rightarrow> Ret (Inl (LookingUp ErrAlreadyCharged))
              | Inl ErrPaymentNotFound \<Rightarrow>
                  call (Gateway_Charge gateway (oc_OrderID order) (oc_AmountCents order) (oc_Currency order)) (\<lambda>declined.
                    call (record_charge False
                            (attempted (oc_OrderID order) (oc_UserID order) (oc_AmountCents order) (oc_Currency order) declined)) (\<lambda>rec.
                      case rec of
                        Inr payment \<Rightarrow> publishOutcome cid payment
                      | Inl ErrAlreadyCharged \<Rightarrow>
                          call (payments_read (\<lambda>pg. PaymentByOrderID pg (oc_OrderID order))) (\<lambda>again.
                            case again of
                              Inl err \<Rightarrow> Ret (Inl (LoadingWinner err))
                            | Inr existing \<Rightarrow> publishOutcome cid existing)
                      | Inl err \<Rightarrow> Ret (Inl (RecordingCharge err))))))"

end
