(* ===== verification/SagaCalls.thy ===== *)
theory SagaCalls
  imports OrdersAPI PaymentAPI
begin

text \<open>
  What each call of the saga's programs can do to the world, and that is all: the outcomes of the
  catalog client's calls through the catalog's handlers, of the store calls, of publishing.
\<close>

declare split_paired_All [simp del] split_paired_Ex [simp del]

section \<open>The requests decode\<close>

lemma decode_reserve_request [simp]:
  "is_int64 q \<Longrightarrow> decode_reservationRequest
     (JObj [(''order_id'', JStr oid), (''product_id'', JStr pid), (''quantity'', JInt q)])
   = Some \<lparr>r_OrderID = oid, r_ProductID = pid, r_Quantity = q\<rparr>"
  "\<not> is_int64 q \<Longrightarrow> decode_reservationRequest
     (JObj [(''order_id'', JStr oid), (''product_id'', JStr pid), (''quantity'', JInt q)]) = None"
  by (simp_all add: decode_reservationRequest_def field_simps_json)

lemma decode_release_request [simp]:
  "decode_reservationRequest (JObj [(''order_id'', JStr oid), (''product_id'', JStr pid)])
   = Some \<lparr>r_OrderID = oid, r_ProductID = pid, r_Quantity = 0\<rparr>"
  by (simp add: decode_reservationRequest_def field_simps_json)

lemma reservationReply_ok: "reservationReply st = Inr u \<longleftrightarrow> st = 200"
  by (simp add: reservationReply_def)

lemma status_simps [simp]:
  "status (WriteJSON r st v) = st" "status (WriteError r st msg) = st"
  by (simp_all add: WriteJSON_def WriteError_def)

lemma status_writeStoreError: "status (writeStoreError r e msg) \<noteq> 200"
  by (simp add: writeStoreError_def)

section \<open>Outcomes of the catalog client\<close>

text \<open>A reservation call that reports success has had a successful store call.\<close>

lemma reserve_handler:
  assumes "reserve pg (json_request cid x
             (JObj [(''order_id'', JStr oid), (''product_id'', JStr pid), (''quantity'', JInt q)])) db = (resp, db')"
  shows "(db' = db \<and> status resp \<noteq> 200)
    \<or> (\<exists>r. Reserve pg oid pid q db = (r, db') \<and> (status resp = 200 \<longleftrightarrow> is_ok r))"
  using assms status_writeStoreError
  by (cases "is_int64 q")
     (auto simp: reserve_def DecodeJSON_def json_request_def split: if_splits prod.splits sum.splits store_error.splits)

lemma reservationAction_handler:
  assumes "reservationAction action msg (json_request cid x
             (JObj [(''order_id'', JStr oid), (''product_id'', JStr pid)])) db = (resp, db')"
  shows "(db' = db \<and> status resp \<noteq> 200)
    \<or> (\<exists>r. action oid pid db = (r, db') \<and> (status resp = 200 \<longleftrightarrow> is_ok r))"
  using assms status_writeStoreError
  by (auto simp: reservationAction_def DecodeJSON_def json_request_def split: if_splits prod.splits sum.splits)

lemma reservationCall_outcome:
  assumes "reservationCall endpoint cid payload e w = (r, w')"
  shows "(w' = w \<and> isl r)
    \<or> (\<exists>resp db'. endpoint (e_pg e) (json_request cid [] payload) (w_catalog w) = (resp, db')
        \<and> w' = w\<lparr>w_catalog := db'\<rparr> \<and> (is_ok r \<longrightarrow> status resp = 200))"
  using assms
  by (auto simp: reservationCall_def reservationReply_ok isl_def Let_def split: if_splits prod.splits)
     (metis reservationReply_ok sum.exhaust)+

lemma client_Reserve_outcome:
  assumes "CatalogClient_Reserve cid oid pid q e w = (r, w')"
  shows "(w' = w \<and> (is_ok r \<longrightarrow> (\<exists>ou u. canon (e_pg e) oid = Some ou \<and> canon (e_pg e) pid = Some u
              \<and> reservations (w_catalog w) (ou, u) \<noteq> None)))
    \<or> (\<exists>ou u p. canon (e_pg e) oid = Some ou \<and> canon (e_pg e) pid = Some u
        \<and> reservations (w_catalog w) (ou, u) = None \<and> products (w_catalog w) u = Some p \<and> 0 < q \<and> q \<le> Available p
        \<and> w' = w\<lparr>w_catalog := take_hold (clock (e_pg e)) (ou, u) q (w_catalog w)\<rparr>)"
proof -
  from reservationCall_outcome [OF assms [unfolded CatalogClient_Reserve_def]] show ?thesis
  proof (elim disjE exE conjE)
    fix resp db'
    assume h: "reserve (e_pg e) (json_request cid []
        (JObj [(''order_id'', JStr oid), (''product_id'', JStr pid), (''quantity'', JInt q)])) (w_catalog w) = (resp, db')"
      and w': "w' = w\<lparr>w_catalog := db'\<rparr>" and ok: "is_ok r \<longrightarrow> status resp = 200"
    from reserve_handler [OF h] show ?thesis
    proof (elim disjE exE conjE)
      fix s assume "Reserve (e_pg e) oid pid q (w_catalog w) = (s, db')" and "status resp = 200 \<longleftrightarrow> is_ok s"
      then show ?thesis using Reserve_outcome [of "e_pg e" oid pid q "w_catalog w" s db'] w' ok
        by (cases s) auto
    qed (use w' ok in auto)
  qed auto
qed

text \<open>Releases and commits: the hold is there and ends, or nothing changes; success means no hold is left.\<close>

lemma client_settle_outcome:
  assumes "reservationCall (\<lambda>pg. reservationAction (action pg) msg) cid
             (JObj [(''order_id'', JStr oid), (''product_id'', JStr pid)]) e w = (r, w')"
    and "catalog_inv (w_catalog w)"
    and out: "\<And>s db'. action (e_pg e) oid pid (w_catalog w) = (s, db') \<Longrightarrow>
      (db' = w_catalog w \<and> (\<forall>p. s = Inr p \<longrightarrow> (\<exists>ou u. canon (e_pg e) oid = Some ou \<and> canon (e_pg e) pid = Some u
            \<and> reservations (w_catalog w) (ou, u) = None)))
    \<or> (\<exists>ou u q. canon (e_pg e) oid = Some ou \<and> canon (e_pg e) pid = Some u \<and> reservations (w_catalog w) (ou, u) = Some q
        \<and> db' = end_hold consume (clock (e_pg e)) (ou, u) (w_catalog w) \<and> (\<forall>e. s = Inl e \<longrightarrow> (\<exists>m. e = Wrapped m Unreachable)))"
  shows "(w' = w \<and> (is_ok r \<longrightarrow> (\<exists>ou u. canon (e_pg e) oid = Some ou \<and> canon (e_pg e) pid = Some u
              \<and> reservations (w_catalog w) (ou, u) = None)))
    \<or> (\<exists>ou u q. canon (e_pg e) oid = Some ou \<and> canon (e_pg e) pid = Some u
        \<and> reservations (w_catalog w) (ou, u) = Some q
        \<and> w' = w\<lparr>w_catalog := end_hold consume (clock (e_pg e)) (ou, u) (w_catalog w)\<rparr>)"
  using reservationCall_outcome [OF assms(1)]
proof (elim disjE exE conjE)
  fix resp db'
  assume h: "reservationAction (action (e_pg e)) msg (json_request cid []
      (JObj [(''order_id'', JStr oid), (''product_id'', JStr pid)])) (w_catalog w) = (resp, db')"
    and w': "w' = w\<lparr>w_catalog := db'\<rparr>" and ok: "is_ok r \<longrightarrow> status resp = 200"
  from reservationAction_handler [OF h] show ?thesis
  proof (elim disjE exE conjE)
    fix s assume "action (e_pg e) oid pid (w_catalog w) = (s, db')" and "status resp = 200 \<longleftrightarrow> is_ok s"
    then show ?thesis using out [of s db'] w' ok by (cases s) auto
  qed (use w' ok in auto)
qed auto

lemma client_Release_outcome:
  assumes "CatalogClient_Release cid oid pid e w = (r, w')" and "catalog_inv (w_catalog w)"
  shows "(w' = w \<and> (is_ok r \<longrightarrow> (\<exists>ou u. canon (e_pg e) oid = Some ou \<and> canon (e_pg e) pid = Some u
              \<and> reservations (w_catalog w) (ou, u) = None)))
    \<or> (\<exists>ou u q. canon (e_pg e) oid = Some ou \<and> canon (e_pg e) pid = Some u
        \<and> reservations (w_catalog w) (ou, u) = Some q
        \<and> w' = w\<lparr>w_catalog := end_hold False (clock (e_pg e)) (ou, u) (w_catalog w)\<rparr>)"
  by (rule client_settle_outcome [where action = Release, OF _ assms(2) Release_outcome [OF assms(2)]])
     (use assms(1) in \<open>simp_all add: CatalogClient_Release_def release_def [abs_def]\<close>)

lemma client_Commit_outcome:
  assumes "CatalogClient_Commit cid oid pid e w = (r, w')" and "catalog_inv (w_catalog w)"
  shows "(w' = w \<and> (is_ok r \<longrightarrow> (\<exists>ou u. canon (e_pg e) oid = Some ou \<and> canon (e_pg e) pid = Some u
              \<and> reservations (w_catalog w) (ou, u) = None)))
    \<or> (\<exists>ou u q. canon (e_pg e) oid = Some ou \<and> canon (e_pg e) pid = Some u
        \<and> reservations (w_catalog w) (ou, u) = Some q
        \<and> w' = w\<lparr>w_catalog := end_hold True (clock (e_pg e)) (ou, u) (w_catalog w),
                w_shipped := (w_shipped w)((ou, u) \<mapsto> q)\<rparr>)"
proof -
  obtain w1 where c: "reservationCall (\<lambda>pg. reservationAction (Commit pg) ''could not commit stock'') cid
      (JObj [(''order_id'', JStr oid), (''product_id'', JStr pid)]) e w = (r, w1)"
    and w': "w' = w1\<lparr>w_shipped := ship (w_catalog w) (w_catalog w1) (w_shipped w)\<rparr>"
    using assms(1) by (auto simp: CatalogClient_Commit_def commitReservation_def [abs_def] split: prod.splits)
  have "(w1 = w \<and> (is_ok r \<longrightarrow> (\<exists>ou u. canon (e_pg e) oid = Some ou \<and> canon (e_pg e) pid = Some u
              \<and> reservations (w_catalog w) (ou, u) = None)))
    \<or> (\<exists>ou u q. canon (e_pg e) oid = Some ou \<and> canon (e_pg e) pid = Some u
        \<and> reservations (w_catalog w) (ou, u) = Some q
        \<and> w1 = w\<lparr>w_catalog := end_hold True (clock (e_pg e)) (ou, u) (w_catalog w)\<rparr>)"
    by (rule client_settle_outcome [where action = Commit, OF c assms(2)]) (rule Commit_outcome [OF assms(2)])
  then show ?thesis
  proof (elim disjE exE conjE)
    assume "w1 = w"
    moreover have "ship (w_catalog w) (w_catalog w) (w_shipped w) = w_shipped w" by (rule ext) (auto simp: ship_def)
    ultimately have "w' = w" using w' by simp
    moreover assume "is_ok r \<longrightarrow> (\<exists>ou u. canon (e_pg e) oid = Some ou \<and> canon (e_pg e) pid = Some u
              \<and> reservations (w_catalog w) (ou, u) = None)"
    ultimately show ?thesis by blast
  next
    fix ou u q assume k: "canon (e_pg e) oid = Some ou" "canon (e_pg e) pid = Some u"
      "reservations (w_catalog w) (ou, u) = Some q"
      and w1: "w1 = w\<lparr>w_catalog := end_hold True (clock (e_pg e)) (ou, u) (w_catalog w)\<rparr>"
    obtain p where "products (w_catalog w) u = Some p" using catalog_invD(9) [OF assms(2) k(3)] by auto
    then have "ship (w_catalog w) (w_catalog w1) (w_shipped w) = (w_shipped w)((ou, u) \<mapsto> q)"
      using k(3) by (intro ext) (auto simp: ship_def w1 end_hold_def)
    then show ?thesis using k w' w1 by simp
  qed
qed

end
