(* ===== verification/SagaInv.thy ===== *)
theory SagaInv
  imports SagaCalls
begin

text \<open>
  The invariant of the shared world, what every program may change of it, and for each kind of change
  the conditions under which it keeps the invariant.  \<open>c\<close> is the databases' reading of identifiers.
\<close>

section \<open>The invariant\<close>

abbreviation res :: "world \<Rightarrow> string \<Rightarrow> string \<Rightarrow> int option" where
  "res w u p \<equiv> reservations (w_catalog w) (u, p)"

abbreviation ords :: "world \<Rightarrow> string \<Rightarrow> order_row option" where
  "ords w u \<equiv> orders (w_orders w) u"

abbreviation itms :: "world \<Rightarrow> string \<Rightarrow> string \<Rightarrow> (int \<times> int) option" where
  "itms w u p \<equiv> order_items (w_orders w) (u, p)"

definition published :: "world \<Rightarrow> string \<Rightarrow> bool" where
  "published w u \<longleftrightarrow>
     (\<exists>k ev oc. (k, ev) \<in> set (w_topics w TopicOrderCreated)
        \<and> Decode unmarshal_OrderCreated TypeOrderCreated ev = Inr oc \<and> oc_OrderID oc = u)"

definition paid :: "world \<Rightarrow> string \<Rightarrow> bool" where
  "paid w u \<longleftrightarrow> (\<exists>p. w_payments w u = Some p \<and> pay_Status p = StatusSucceeded)"

definition declined :: "world \<Rightarrow> string \<Rightarrow> bool" where
  "declined w u \<longleftrightarrow> (\<exists>p. w_payments w u = Some p \<and> pay_Status p = StatusFailed)"

lemma not_paid_and_declined: "paid w u \<Longrightarrow> \<not> declined w u"
  by (auto simp: paid_def declined_def)

definition created_ok :: "world \<Rightarrow> Envelope \<Rightarrow> bool" where
  "created_ok w ev \<longleftrightarrow>
     (\<exists>oc row. Decode unmarshal_OrderCreated TypeOrderCreated ev = Inr oc
        \<and> ords w (oc_OrderID oc) = Some row \<and> oc_AmountCents oc = row_total row
        \<and> oc_Currency oc = row_currency row \<and> oc_UserID oc = row_user row)"

definition succeeded_ok :: "world \<Rightarrow> Envelope \<Rightarrow> bool" where
  "succeeded_ok w ev \<longleftrightarrow>
     (\<exists>ps. Decode unmarshal_PaymentSucceeded TypePaymentSucceeded ev = Inr ps
        \<and> paid w (ps_OrderID ps) \<and> published w (ps_OrderID ps))"

definition failed_ok :: "world \<Rightarrow> Envelope \<Rightarrow> bool" where
  "failed_ok w ev \<longleftrightarrow>
     (\<exists>pf. Decode unmarshal_PaymentFailed TypePaymentFailed ev = Inr pf \<and> text_ok (pf_Reason pf)
        \<and> declined w (pf_OrderID pf) \<and> published w (pf_OrderID pf))"

definition stores_inv :: "(string \<Rightarrow> string option) \<Rightarrow> world \<Rightarrow> bool" where
  "stores_inv c w \<longleftrightarrow>
     catalog_inv (w_catalog w) \<and> orders_inv (w_orders w) \<and> payments_inv (w_payments w)
     \<and> (\<forall>u row. ords w u = Some row \<longrightarrow> c u = Some u \<and> row_total row = lines_total (w_orders w) u)
     \<and> (\<forall>u p. itms w u p \<noteq> None \<longrightarrow> c p = Some p \<and> products (w_catalog w) p \<noteq> None)"

definition events_inv :: "world \<Rightarrow> bool" where
  "events_inv w \<longleftrightarrow>
     (\<forall>(k, ev) \<in> set (w_topics w TopicOrderCreated). created_ok w ev)
     \<and> (\<forall>(k, ev) \<in> set (w_topics w TopicPaymentSucceeded). succeeded_ok w ev)
     \<and> (\<forall>(k, ev) \<in> set (w_topics w TopicPaymentFailed). failed_ok w ev)"

text \<open>A settled order has the payment that settled it and no hold; holds are for the order's items.\<close>

definition status_inv :: "world \<Rightarrow> bool" where
  "status_inv w \<longleftrightarrow>
     (\<forall>u row. ords w u = Some row \<longrightarrow>
        (row_status row = StatusConfirmed \<longrightarrow> paid w u \<and> published w u)
        \<and> (row_status row = StatusCancelled \<longrightarrow> declined w u \<and> published w u)
        \<and> (row_status row \<noteq> StatusPending \<longrightarrow> (\<forall>p. res w u p = None))
        \<and> (\<forall>p. res w u p \<noteq> None \<longrightarrow> itms w u p \<noteq> None))"

text \<open>
  Each item of a published order is held in full, or was shipped in full and paid for, or was
  given back after a declined payment.
\<close>

definition holds_inv :: "world \<Rightarrow> bool" where
  "holds_inv w \<longleftrightarrow>
     (\<forall>u p q cents. published w u \<and> itms w u p = Some (q, cents) \<longrightarrow>
        (res w u p = Some q \<and> w_shipped w (u, p) = None)
        \<or> (res w u p = None \<and> paid w u \<and> w_shipped w (u, p) = Some q)
        \<or> (res w u p = None \<and> declined w u \<and> w_shipped w (u, p) = None))
     \<and> (\<forall>u p. w_shipped w (u, p) \<noteq> None \<longrightarrow> paid w u \<and> published w u)"

text \<open>A charge the saga recorded is for the order's total, in its currency, to its owner.\<close>

definition charges_inv :: "world \<Rightarrow> bool" where
  "charges_inv w \<longleftrightarrow>
     (\<forall>u p. w_payments w u = Some p \<and> u \<notin> w_direct w \<longrightarrow>
        (\<exists>row. ords w u = Some row \<and> pay_AmountCents p = row_total row
           \<and> pay_Currency p = row_currency row \<and> pay_UserID p = row_user row))"

definition world_inv :: "(string \<Rightarrow> string option) \<Rightarrow> world \<Rightarrow> bool" where
  "world_inv c w \<longleftrightarrow> stores_inv c w \<and> events_inv w \<and> status_inv w \<and> holds_inv w \<and> charges_inv w"

lemma published_order: "events_inv w \<Longrightarrow> published w u \<Longrightarrow> ords w u \<noteq> None"
  by (fastforce simp: events_inv_def published_def created_ok_def)

section \<open>What programs may change\<close>

definition evolves :: "world \<Rightarrow> world \<Rightarrow> bool" where
  "evolves w w' \<longleftrightarrow>
     orders_evolves (w_orders w) (w_orders w') \<and> w_payments w \<subseteq>\<^sub>m w_payments w'
     \<and> (\<forall>t. set (w_topics w t) \<subseteq> set (w_topics w' t))
     \<and> (\<forall>u p. ords w u \<noteq> None \<and> res w u p = None \<longrightarrow> res w' u p = None)"

text \<open>What a change leaves to the program that is creating the order \<open>u\<close>.\<close>

definition leaves :: "world \<Rightarrow> world \<Rightarrow> string \<Rightarrow> bool" where
  "leaves w w' u \<longleftrightarrow>
     (ords w u = None \<longrightarrow> ords w' u = None)
     \<and> (\<not> published w u \<longrightarrow> \<not> published w' u \<and> (\<forall>p. res w' u p = res w u p))"

text \<open>The owner of a program that creates an order is the order's identifier.\<close>

definition rely :: "string option \<Rightarrow> world \<Rightarrow> world \<Rightarrow> bool" where
  "rely ow w w' \<longleftrightarrow> evolves w w' \<and> (\<forall>u. ow = Some u \<longrightarrow> leaves w w' u)"

definition guar :: "string option \<Rightarrow> world \<Rightarrow> world \<Rightarrow> bool" where
  "guar ow w w' \<longleftrightarrow> evolves w w' \<and> (\<forall>u. ow \<noteq> Some u \<longrightarrow> leaves w w' u)"

lemma evolves_refl: "evolves w w"
  by (simp add: evolves_def orders_evolves_refl)

lemma evolvesD:
  assumes "evolves w w'"
  shows "orders_evolves (w_orders w) (w_orders w')" "w_payments w \<subseteq>\<^sub>m w_payments w'"
    "x \<in> set (w_topics w t) \<Longrightarrow> x \<in> set (w_topics w' t)"
    "ords w u \<noteq> None \<Longrightarrow> res w u p = None \<Longrightarrow> res w' u p = None"
    "ords w u \<noteq> None \<Longrightarrow> ords w' u \<noteq> None"
    "paid w u \<Longrightarrow> paid w' u" "declined w u \<Longrightarrow> declined w' u" "published w u \<Longrightarrow> published w' u"
    "ords w u \<noteq> None \<Longrightarrow> items_of (w_orders w') u = items_of (w_orders w) u"
    "ords w u \<noteq> None \<Longrightarrow> itms w' u p = itms w u p"
proof -
  show o: "orders_evolves (w_orders w) (w_orders w')" and m: "w_payments w \<subseteq>\<^sub>m w_payments w'"
    and t: "x \<in> set (w_topics w t) \<Longrightarrow> x \<in> set (w_topics w' t)" for x t
    using assms by (auto simp: evolves_def)
  show "ords w u \<noteq> None \<Longrightarrow> res w u p = None \<Longrightarrow> res w' u p = None" using assms by (auto simp: evolves_def)
  show "ords w u \<noteq> None \<Longrightarrow> ords w' u \<noteq> None" using o by (fastforce simp: orders_evolves_def)
  show "paid w u \<Longrightarrow> paid w' u" "declined w u \<Longrightarrow> declined w' u"
    using m by (auto simp: paid_def declined_def map_le_def dom_def)
  show "published w u \<Longrightarrow> published w' u" using t by (auto simp: published_def) blast
  have it: "ords w u \<noteq> None \<Longrightarrow> itms w' u p = itms w u p" for p
    using o by (auto simp: orders_evolves_def)
  then show "ords w u \<noteq> None \<Longrightarrow> itms w' u p = itms w u p" .
  show "ords w u \<noteq> None \<Longrightarrow> items_of (w_orders w') u = items_of (w_orders w) u"
    using it by (simp add: items_of_def dom_def)
qed

lemma evolves_trans: "evolves a b \<Longrightarrow> evolves b d \<Longrightarrow> evolves a d"
  using evolvesD(5) [of a b]
  unfolding evolves_def by (blast intro: orders_evolves_trans map_le_trans)

lemma leaves_refl: "leaves w w u"
  by (simp add: leaves_def)

lemma leaves_trans: "leaves a b u \<Longrightarrow> leaves b d u \<Longrightarrow> leaves a d u"
  by (auto simp: leaves_def)

lemma rely_refl': "rely ow w w"
  by (simp add: rely_def evolves_refl leaves_refl)

lemma rely_trans': "rely ow a b \<Longrightarrow> rely ow b d \<Longrightarrow> rely ow a d"
  by (auto simp: rely_def intro: evolves_trans leaves_trans)

lemma relyD: "rely ow a b \<Longrightarrow> evolves a b" "rely (Some u) a b \<Longrightarrow> leaves a b u"
  by (auto simp: rely_def)

lemma guar_rely': "o1 \<noteq> o2 \<or> o1 = None \<Longrightarrow> guar o1 a b \<Longrightarrow> rely o2 a b"
  by (auto simp: guar_def rely_def)

lemma guar_refl: "guar ow w w"
  by (simp add: guar_def evolves_refl leaves_refl)

end
