(* ===== verification/SagaSteps.thy ===== *)
theory SagaSteps
  imports SagaInv
begin

text \<open>
  The changes the saga's calls make keep the world's invariant, and what each leaves to others.
\<close>

lemma world_invD:
  assumes "world_inv c w"
  shows "stores_inv c w" "events_inv w" "status_inv w" "holds_inv w" "charges_inv w"
    "catalog_inv (w_catalog w)" "orders_inv (w_orders w)" "payments_inv (w_payments w)"
    "ords w u \<noteq> None \<Longrightarrow> c u = Some u" "itms w u p \<noteq> None \<Longrightarrow> c p = Some p"
    "published w u \<Longrightarrow> ords w u \<noteq> None"
    "ords w u = Some row \<Longrightarrow> row_status row = StatusConfirmed \<Longrightarrow> paid w u \<and> published w u"
    "ords w u = Some row \<Longrightarrow> row_status row = StatusCancelled \<Longrightarrow> declined w u \<and> published w u"
    "ords w u = Some row \<Longrightarrow> row_status row \<noteq> StatusPending \<Longrightarrow> res w u p = None"
    "ords w u \<noteq> None \<Longrightarrow> res w u p \<noteq> None \<Longrightarrow> itms w u p \<noteq> None"
    "w_shipped w (u, p) \<noteq> None \<Longrightarrow> paid w u \<and> published w u"
    "published w u \<Longrightarrow> itms w u p = Some (q, cents) \<Longrightarrow>
      (res w u p = Some q \<and> w_shipped w (u, p) = None)
      \<or> (res w u p = None \<and> paid w u \<and> w_shipped w (u, p) = Some q)
      \<or> (res w u p = None \<and> declined w u \<and> w_shipped w (u, p) = None)"
    "itms w u p \<noteq> None \<Longrightarrow> products (w_catalog w) p \<noteq> None"
    "ords w u = Some row \<Longrightarrow> row_total row = lines_total (w_orders w) u"
  using assms published_order [of w u]
  unfolding world_inv_def stores_inv_def status_inv_def holds_inv_def by blast+

section \<open>The catalog\<close>

lemma catalog_simps [simp]:
  "published (w\<lparr>w_catalog := C\<rparr>) = published w" "published (w\<lparr>w_shipped := s\<rparr>) = published w"
  "paid (w\<lparr>w_catalog := C\<rparr>) = paid w" "paid (w\<lparr>w_shipped := s\<rparr>) = paid w"
  "declined (w\<lparr>w_catalog := C\<rparr>) = declined w" "declined (w\<lparr>w_shipped := s\<rparr>) = declined w"
  "created_ok (w\<lparr>w_catalog := C\<rparr>) = created_ok w" "created_ok (w\<lparr>w_shipped := s\<rparr>) = created_ok w"
  "succeeded_ok (w\<lparr>w_catalog := C\<rparr>) = succeeded_ok w" "succeeded_ok (w\<lparr>w_shipped := s\<rparr>) = succeeded_ok w"
  "failed_ok (w\<lparr>w_catalog := C\<rparr>) = failed_ok w" "failed_ok (w\<lparr>w_shipped := s\<rparr>) = failed_ok w"
  by (auto simp: fun_eq_iff published_def paid_def declined_def created_ok_def succeeded_ok_def failed_ok_def)

lemma catalog_step:
  assumes "world_inv c w" and "catalog_inv C"
    and keep: "dom (products (w_catalog w)) \<subseteq> dom (products C)"
    and shrink: "\<And>u p. ords w u \<noteq> None \<Longrightarrow> res w u p = None \<Longrightarrow> reservations C (u, p) = None"
    and holds: "holds_inv (w\<lparr>w_catalog := C, w_shipped := s\<rparr>)"
  shows "world_inv c (w\<lparr>w_catalog := C, w_shipped := s\<rparr>) \<and> evolves w (w\<lparr>w_catalog := C, w_shipped := s\<rparr>)"
proof -
  note inv = world_invD [OF assms(1)]
  have "status_inv (w\<lparr>w_catalog := C, w_shipped := s\<rparr>)"
    using inv(3) shrink unfolding status_inv_def by fastforce
  moreover have "stores_inv c (w\<lparr>w_catalog := C, w_shipped := s\<rparr>)"
    using inv(1) assms(2) keep unfolding stores_inv_def by simp blast
  moreover have "events_inv (w\<lparr>w_catalog := C, w_shipped := s\<rparr>)"
    using inv(2) by (simp add: events_inv_def)
  moreover have "charges_inv (w\<lparr>w_catalog := C, w_shipped := s\<rparr>)"
    using inv(5) by (simp add: charges_inv_def)
  ultimately show ?thesis using holds shrink
    by (auto simp: world_inv_def evolves_def orders_evolves_refl)
qed

lemma take_hold_reservations:
  "products db u = Some p \<Longrightarrow> reservations (take_hold now (ou, u) q db) = (reservations db)((ou, u) \<mapsto> q)"
  by (simp add: take_hold_def)

lemma take_hold_products: "dom (products db) \<subseteq> dom (products (take_hold now k q db))"
  by (auto simp: take_hold_def split: option.splits prod.splits)

lemma end_hold_products: "dom (products db) \<subseteq> dom (products (end_hold consume now k db))"
  by (auto simp: end_hold_def split: option.splits prod.splits)

lemma end_hold_reservations:
  assumes "catalog_inv db" and "reservations db (ou, u) = Some q"
  shows "reservations (end_hold consume now (ou, u) db) = (reservations db)((ou, u) := None)"
  using catalog_invD(9) [OF assms] assms(2) by (auto simp: end_hold_def)

text \<open>Taking a hold for an order that does not exist yet.\<close>

lemma take_hold_step:
  assumes "world_inv c w" and "ords w ou = None" and "res w ou u = None"
    and "products (w_catalog w) u = Some p" and "0 < q" and "q \<le> Available p"
    and "w' = w\<lparr>w_catalog := take_hold now (ou, u) q (w_catalog w)\<rparr>"
  shows "world_inv c w' \<and> guar (Some ou) w w' \<and> reservations (w_catalog w') = (reservations (w_catalog w))((ou, u) \<mapsto> q)"
proof -
  note inv = world_invD [OF assms(1)]
  let ?C = "take_hold now (ou, u) q (w_catalog w)"
  have r: "reservations ?C = (reservations (w_catalog w))((ou, u) \<mapsto> q)"
    using take_hold_reservations [OF assms(4)] .
  have unpub: "\<not> published w ou" using inv(11) assms(2) by blast
  have "catalog_inv ?C" using assms(3-6) by (intro take_hold_inv [OF inv(6)]) simp_all
  moreover have "holds_inv (w\<lparr>w_catalog := ?C, w_shipped := w_shipped w\<rparr>)"
    using inv(4) unpub r unfolding holds_inv_def by auto
  moreover have "reservations ?C (v, x) = None" if "ords w v \<noteq> None" "res w v x = None" for v x
    using that r assms(2) by auto
  ultimately have "world_inv c w' \<and> evolves w w'"
    using catalog_step [OF assms(1), of ?C "w_shipped w"] take_hold_products assms(7) by simp
  then show ?thesis using r assms(7) by (auto simp: guar_def leaves_def)
qed

text \<open>
  Ending a hold: giving it back before the order is published or after a declined payment, consuming
  it after a successful one.
\<close>

lemma release_step:
  assumes "world_inv c w" and "res w ou u = Some q" and "\<not> published w ou \<or> declined w ou"
    and "w' = w\<lparr>w_catalog := end_hold False now (ou, u) (w_catalog w)\<rparr>"
  shows "world_inv c w' \<and> evolves w w' \<and> (\<forall>v. v \<noteq> ou \<or> published w ou \<longrightarrow> leaves w w' v)
    \<and> reservations (w_catalog w') = (reservations (w_catalog w))((ou, u) := None)"
proof -
  note inv = world_invD [OF assms(1)]
  let ?C = "end_hold False now (ou, u) (w_catalog w)"
  have r: "reservations ?C = (reservations (w_catalog w))((ou, u) := None)"
    by (rule end_hold_reservations [OF inv(6) assms(2)])
  have none: "w_shipped w (ou, u) = None" using inv(16) assms(3) not_paid_and_declined by blast
  have "holds_inv (w\<lparr>w_catalog := ?C, w_shipped := w_shipped w\<rparr>)"
    using inv(4) r assms(2,3) none unfolding holds_inv_def by auto
  then have "world_inv c w' \<and> evolves w w'"
    using catalog_step [where s = "w_shipped w", OF assms(1) _ end_hold_products] r end_hold_inv [OF inv(6)] assms(4)
    by (auto split: if_splits)
  then show ?thesis using r assms(4) by (auto simp: leaves_def)
qed

lemma commit_step:
  assumes "world_inv c w" and "res w ou u = Some q" and "published w ou" and "paid w ou"
    and "w' = w\<lparr>w_catalog := end_hold True now (ou, u) (w_catalog w), w_shipped := (w_shipped w)((ou, u) \<mapsto> q)\<rparr>"
  shows "world_inv c w' \<and> guar None w w'
    \<and> reservations (w_catalog w') = (reservations (w_catalog w))((ou, u) := None)"
proof -
  note inv = world_invD [OF assms(1)]
  let ?C = "end_hold True now (ou, u) (w_catalog w)"
  have r: "reservations ?C = (reservations (w_catalog w))((ou, u) := None)"
    by (rule end_hold_reservations [OF inv(6) assms(2)])
  have "holds_inv (w\<lparr>w_catalog := ?C, w_shipped := (w_shipped w)((ou, u) \<mapsto> q)\<rparr>)"
    unfolding holds_inv_def
  proof (intro conjI allI impI, goal_cases)
    case (1 v x q' cents)
    then show ?case using inv(17) [of v x q' cents] r assms(2-4) by (cases "(v, x) = (ou, u)") auto
  next
    case (2 v x)
    then show ?case using inv(16) [of v x] assms(3,4) by (auto split: if_splits)
  next
    case (3 v x)
    then show ?case using inv(16) [of v x] assms(3,4) by (auto split: if_splits)
  qed
  then have "world_inv c w' \<and> evolves w w'"
    using catalog_step [where s = "(w_shipped w)((ou, u) \<mapsto> q)", OF assms(1) _ end_hold_products] r end_hold_inv [OF inv(6)] assms(5)
    by (auto split: if_splits)
  then show ?thesis using r assms(3,5) by (auto simp: guar_def leaves_def)
qed

section \<open>The orders\<close>

lemma orders_simps [simp]:
  "published (w\<lparr>w_orders := D\<rparr>) = published w" "paid (w\<lparr>w_orders := D\<rparr>) = paid w"
  "declined (w\<lparr>w_orders := D\<rparr>) = declined w" "succeeded_ok (w\<lparr>w_orders := D\<rparr>) = succeeded_ok w"
  "failed_ok (w\<lparr>w_orders := D\<rparr>) = failed_ok w"
  by (auto simp: fun_eq_iff published_def paid_def declined_def succeeded_ok_def failed_ok_def)

lemma orders_step:
  assumes "world_inv c w" and "orders_inv D" and "orders_evolves (w_orders w) D"
    and "\<And>u. orders D u \<noteq> None \<Longrightarrow> c u = Some u" and "\<And>u p. order_items D (u, p) \<noteq> None \<Longrightarrow> c p = Some p"
    and "\<And>u p. order_items D (u, p) \<noteq> None \<Longrightarrow> products (w_catalog w) p \<noteq> None"
    and "\<And>u row. orders D u = Some row \<Longrightarrow> row_total row = lines_total D u"
    and "status_inv (w\<lparr>w_orders := D\<rparr>)"
  shows "world_inv c (w\<lparr>w_orders := D\<rparr>) \<and> evolves w (w\<lparr>w_orders := D\<rparr>)"
proof -
  note inv = world_invD [OF assms(1)]
  let ?w = "w\<lparr>w_orders := D\<rparr>"
  have row: "\<exists>row'. orders D u = Some row' \<and> row_user row' = row_user row \<and> row_total row' = row_total row
      \<and> row_currency row' = row_currency row" if "ords w u = Some row" for u row
    using assms(3) that unfolding orders_evolves_def by blast
  have items: "order_items D (u, p) = itms w u p" if "ords w u \<noteq> None" for u p
    using assms(3) that unfolding orders_evolves_def by blast
  have "stores_inv c ?w" using inv(1) assms(2,4-7) by (auto simp: stores_inv_def)
  moreover have "created_ok ?w ev" if "created_ok w ev" for ev
    using that row unfolding created_ok_def by fastforce
  then have "events_inv ?w" using inv(2) by (auto simp: events_inv_def)
  moreover have "holds_inv ?w"
    unfolding holds_inv_def
  proof (intro conjI allI impI, goal_cases)
    case (1 u p q cents)
    then show ?case using inv(17) [of u p q cents] items [of u p] inv(11) [of u] by simp
  qed (use inv(16) in auto)
  moreover have "charges_inv ?w" using inv(5) row unfolding charges_inv_def by fastforce
  ultimately show ?thesis using assms(3,8) by (simp add: world_inv_def evolves_def)
qed

lemma place_order_step:
  assumes "world_inv c w" and "ords w ou = None" and "c ou = Some ou" and "canon pg = c" and "uuid_type c"
    and "o_Items ord \<noteq> []" and "0 \<le> o_TotalCents ord" and "is_int64 (o_TotalCents ord)" and "items_ok c (o_Items ord)"
    and held: "\<And>p. res w ou p = map_option fst (map_of (item_rows c ou (o_Items ord)) (ou, p))"
    and total: "o_TotalCents ord = wrap64 (\<Sum>it\<leftarrow>o_Items ord. i_UnitCents it * i_Quantity it)"
    and w': "w' = w\<lparr>w_orders := place_order pg ou ord (w_orders w)\<rparr>"
  shows "world_inv c w' \<and> guar (Some ou) w w'"
proof -
  note inv = world_invD [OF assms(1)]
  let ?D = "place_order pg ou ord (w_orders w)"
  have D: "orders_inv ?D" using assms(2,4,6-9) by (intro place_order_inv inv(7)) simp_all
  have ev: "orders_evolves (w_orders w) ?D" by (rule place_order_evolves) (rule assms(2))
  have cu: "c u = Some u" if "orders ?D u \<noteq> None" for u
    using that inv(9) [of u] assms(3) by (auto simp: place_order_def split: if_splits)
  have new: "order_items ?D (u, p) = (if u = ou then
      case map_of (item_rows c ou (o_Items ord)) (ou, p) of None \<Rightarrow> itms w ou p | Some v \<Rightarrow> Some v else itms w u p)" for u p
    using item_rows_of [of c ou "o_Items ord" "(u, p)"] assms(4)
    by (auto simp: place_order_items split: option.splits)
  have cp: "c p = Some p" if has: "order_items ?D (u, p) \<noteq> None" for u p
  proof (cases "itms w u p")
    case None
    then obtain v where "map_of (item_rows c ou (o_Items ord)) (ou, p) = Some v"
      using has [unfolded new] None
      by (cases "u = ou"; cases "map_of (item_rows c ou (o_Items ord)) (ou, p)") simp_all
    from item_rows_of [OF this] obtain it where "it \<in> set (o_Items ord)" "p = the (c (i_ProductID it))" by auto
    then show ?thesis using assms(5,9) by (fastforce simp: items_ok_def uuid_type_def)
  next
    case (Some v)
    then show ?thesis using inv(10) [of u p] by simp
  qed
  have lt: "row_total row = lines_total ?D u" if "orders ?D u = Some row" for u row
  proof (cases "u = ou")
    case True
    then have "row_total row = o_TotalCents ord" using that by (auto simp: place_order_def)
    then show ?thesis using True total place_order_lines [OF inv(7), of ou pg ord] assms(2,4,9) by simp
  next
    case False
    then have "items_of ?D u = items_of (w_orders w) u" using new by (simp add: items_of_def dom_def)
    then show ?thesis using that False inv(19) by (simp add: lines_total_def place_order_def)
  qed
  have pr: "products (w_catalog w) p \<noteq> None" if has: "order_items ?D (u, p) \<noteq> None" for u p
  proof (cases "itms w u p")
    case None
    then have "res w ou p \<noteq> None"
      using has [unfolded new] held [of p]
      by (cases "u = ou"; cases "map_of (item_rows c ou (o_Items ord)) (ou, p)") simp_all
    then show ?thesis using catalog_invD(9) [OF inv(6), of "(ou, p)"] by fastforce
  next
    case (Some v)
    then show ?thesis using inv(18) [of u p] by simp
  qed
  have "status_inv (w\<lparr>w_orders := ?D\<rparr>)"
    unfolding status_inv_def
  proof (intro allI impI, goal_cases)
    case (1 u row)
    show ?case
    proof (cases "u = ou")
      case True
      then have "row_status row = StatusPending" using 1 by (auto simp: place_order_def)
      then show ?thesis using True held new by (auto split: option.splits)
    next
      case False
      then have "ords w u = Some row" using 1 by (simp add: place_order_def)
      then show ?thesis using False inv(12-15) [of u] new by simp
    qed
  qed
  then have "world_inv c w' \<and> evolves w w'"
    using orders_step [OF assms(1) D ev cu cp pr lt] w' by simp
  then show ?thesis using w' by (auto simp: guar_def leaves_def place_order_def)
qed

lemma set_status_step:
  assumes "world_inv c w" and "ords w u = Some row" and "row_status row = StatusPending"
    and "st = StatusConfirmed \<and> paid w u \<or> st = StatusCancelled \<and> declined w u"
    and "published w u" and "\<And>p. res w u p = None"
    and "w' = w\<lparr>w_orders := set_status now u st reason (w_orders w)\<rparr>"
  shows "world_inv c w' \<and> guar None w w'"
proof -
  note inv = world_invD [OF assms(1)]
  let ?D = "set_status now u st reason (w_orders w)"
  have D: "orders_inv ?D" using assms(4) by (intro set_status_inv inv(7)) blast
  have ev: "orders_evolves (w_orders w) ?D" using assms(2,3) by (rule set_status_evolves)
  have dom: "orders ?D v \<noteq> None \<longleftrightarrow> ords w v \<noteq> None" for v by (auto simp: set_status_def assms(2))
  have it: "order_items ?D = order_items (w_orders w)" by (simp add: set_status_def assms(2))
  have lt: "row_total r = lines_total ?D v" if "orders ?D v = Some r" for v r
    using that inv(19) [of v] inv(19) [OF assms(2)] it
    by (auto simp: set_status_def assms(2) lines_total_def items_of_def split: if_splits)
  have "status_inv (w\<lparr>w_orders := ?D\<rparr>)"
    unfolding status_inv_def
  proof (intro allI impI, goal_cases)
    case (1 v r)
    show ?case
    proof (cases "v = u")
      case True
      then show ?thesis using 1 assms(2,4-6) by (auto simp: set_status_def)
    next
      case False
      then have "ords w v = Some r" using 1 by (simp add: set_status_def assms(2))
      then show ?thesis using inv(12-15) [of v] it by simp
    qed
  qed
  then have "world_inv c w' \<and> evolves w w'"
    using orders_step [OF assms(1) D ev _ _ _ lt] inv(9,10,18) dom it assms(7) by simp
  moreover have "orders ?D v = None \<longleftrightarrow> ords w v = None" for v using dom [of v] by blast
  ultimately show ?thesis using assms(7) by (simp add: guar_def leaves_def)
qed

section \<open>Payments\<close>

lemma payments_step:
  assumes "world_inv c w" and "w_payments w u = None" and "payments_inv ((w_payments w)(u \<mapsto> p))"
    and "w_direct w \<subseteq> T" and charged: "u \<in> T \<or> (\<exists>row. ords w u = Some row \<and> pay_AmountCents p = row_total row
           \<and> pay_Currency p = row_currency row \<and> pay_UserID p = row_user row)"
    and "w' = w\<lparr>w_payments := (w_payments w)(u \<mapsto> p), w_direct := T\<rparr>"
  shows "world_inv c w' \<and> guar None w w'"
proof -
  note inv = world_invD [OF assms(1)]
  have le: "w_payments w \<subseteq>\<^sub>m w_payments w'" using assms(2,6) by (auto simp: map_le_def)
  have ev: "evolves w w'" using le assms(6) by (simp add: evolves_def orders_evolves_refl)
  have pub: "published w' v = published w v" for v by (simp add: published_def assms(6))
  have stay: "w_payments w' v = w_payments w v" if "w_payments w v \<noteq> None" for v
    using that assms(2,6) by auto
  have old: "paid w v \<Longrightarrow> paid w' v" "declined w v \<Longrightarrow> declined w' v" for v
    using evolvesD(6,7) [OF ev] by blast+
  have "stores_inv c w'" using inv(1) assms(3,6) by (simp add: stores_inv_def)
  moreover have "events_inv w'"
  proof -
    have "created_ok w' ev \<longleftrightarrow> created_ok w ev" for ev by (simp add: created_ok_def assms(6))
    moreover have "succeeded_ok w ev \<Longrightarrow> succeeded_ok w' ev" "failed_ok w ev \<Longrightarrow> failed_ok w' ev" for ev
      using old pub by (auto simp: succeeded_ok_def failed_ok_def)
    ultimately show ?thesis using inv(2) by (auto simp: events_inv_def assms(6))
  qed
  moreover have "status_inv w'" using inv(3) old pub assms(6) by (auto simp: status_inv_def)
  moreover have "holds_inv w'"
    unfolding holds_inv_def
  proof (intro conjI allI impI, goal_cases)
    case (1 v x q cents)
    then show ?case using inv(17) [of v x q cents] old [of v] pub [of v] assms(6) by auto
  qed (use inv(16) old pub assms(6) in auto)
  moreover have "charges_inv w'"
    unfolding charges_inv_def
  proof (intro allI impI, goal_cases)
    case (1 v r)
    then show ?case using inv(5) charged assms(4,6) unfolding charges_inv_def by (cases "v = u") auto
  qed
  ultimately show ?thesis using ev pub assms(6) by (simp add: world_inv_def guar_def leaves_def)
qed

section \<open>Events\<close>

lemma topics_step:
  assumes "world_inv c w" and "events_inv w'" and w': "w' = w\<lparr>w_topics := T\<rparr>"
    and more: "\<And>t. set (w_topics w t) \<subseteq> set (T t)"
    and pub: "\<And>v. published w' v \<Longrightarrow> published w v \<or> v = u"
    and held: "\<And>p q cents. published w' u \<Longrightarrow> \<not> published w u \<Longrightarrow> itms w u p = Some (q, cents) \<Longrightarrow> res w u p = Some q"
  shows "world_inv c w' \<and> evolves w w' \<and> (\<forall>v. v \<noteq> u \<or> published w u \<longrightarrow> leaves w w' v)"
proof -
  note inv = world_invD [OF assms(1)]
  have ev: "evolves w w'" using more w' by (simp add: evolves_def orders_evolves_refl)
  have same: "paid w' = paid w" "declined w' = declined w" by (auto simp: fun_eq_iff paid_def declined_def w')
  have old: "published w v \<Longrightarrow> published w' v" for v using evolvesD(8) [OF ev] .
  have "stores_inv c w'" using inv(1) w' by (simp add: stores_inv_def)
  moreover have "status_inv w'" using inv(3) old w' same by (auto simp: status_inv_def)
  moreover have "charges_inv w'" using inv(5) w' by (simp add: charges_inv_def)
  moreover have "holds_inv w'"
    unfolding holds_inv_def
  proof (intro conjI allI impI, goal_cases)
    case (1 v p q cents)
    then have it: "itms w v p = Some (q, cents)" and p': "published w' v" using w' by simp_all
    show ?case
    proof (cases "published w v")
      case True
      then show ?thesis using inv(17) [OF True it] w' same by simp
    next
      case False
      then have "v = u" using pub [OF p'] by blast
      then show ?thesis using held [of p q cents] False it p' inv(16) [of v p] w'
        by (cases "w_shipped w (u, p)") auto
    qed
  qed (use inv(16) old same w' in auto)
  moreover have "leaves w w' v" if "v \<noteq> u \<or> published w u" for v
    using pub [of v] that w' by (auto simp: leaves_def)
  ultimately show ?thesis using assms(2) ev by (simp add: world_inv_def)
qed

text \<open>The world after an event has been stored on a topic.\<close>

definition posted :: "world \<Rightarrow> string \<Rightarrow> string \<Rightarrow> Envelope \<Rightarrow> world" where
  "posted w t k ev = w\<lparr>w_topics := (w_topics w)(t := w_topics w t @ [(k, ev)])\<rparr>"

lemma posted_ok:
  "created_ok (posted w t k ev) = created_ok w" "paid (posted w t k ev) = paid w"
  "declined (posted w t k ev) = declined w"
  by (auto simp: fun_eq_iff created_ok_def paid_def declined_def posted_def)

lemma posted_published:
  "published (posted w t k ev) v \<longleftrightarrow> published w v
     \<or> t = TopicOrderCreated \<and> (\<exists>oc. Decode unmarshal_OrderCreated TypeOrderCreated ev = Inr oc \<and> oc_OrderID oc = v)"
  unfolding published_def posted_def by (cases "t = TopicOrderCreated") auto

lemma posted_events:
  assumes "events_inv w"
    and "t = TopicOrderCreated \<Longrightarrow> created_ok w ev" and "t = TopicPaymentSucceeded \<Longrightarrow> succeeded_ok w ev"
    and "t = TopicPaymentFailed \<Longrightarrow> failed_ok w ev"
  shows "events_inv (posted w t k ev)"
proof -
  have "succeeded_ok w x \<Longrightarrow> succeeded_ok (posted w t k ev) x" "failed_ok w x \<Longrightarrow> failed_ok (posted w t k ev) x" for x
    by (auto simp: succeeded_ok_def failed_ok_def posted_ok posted_published)
  then show ?thesis using assms
    by (auto simp: events_inv_def posted_ok posted_def [THEN arg_cong [where f = w_topics]] split: if_splits)
qed

lemma publish_created_step:
  assumes "world_inv c w" and "created_ok w ev"
    and oc: "Decode unmarshal_OrderCreated TypeOrderCreated ev = Inr oc" "oc_OrderID oc = u"
    and held: "\<And>p q cents. \<not> published w u \<Longrightarrow> itms w u p = Some (q, cents) \<Longrightarrow> res w u p = Some q"
  shows "world_inv c (posted w TopicOrderCreated k ev) \<and> guar (Some u) w (posted w TopicOrderCreated k ev)"
proof -
  note inv = world_invD [OF assms(1)]
  have "events_inv (posted w TopicOrderCreated k ev)"
    by (rule posted_events [OF inv(2)]) (simp_all add: assms(2))
  then have "world_inv c (posted w TopicOrderCreated k ev) \<and> evolves w (posted w TopicOrderCreated k ev)
    \<and> (\<forall>v. v \<noteq> u \<or> published w u \<longrightarrow> leaves w (posted w TopicOrderCreated k ev) v)"
    by (rule topics_step [OF assms(1) _ posted_def]) (use held oc in \<open>auto simp: posted_published\<close>)
  then show ?thesis by (simp add: guar_def)
qed

lemma publish_outcome_step:
  assumes "world_inv c w" and "t = TopicPaymentSucceeded \<and> succeeded_ok w ev \<or> t = TopicPaymentFailed \<and> failed_ok w ev"
  shows "world_inv c (posted w t k ev) \<and> guar None w (posted w t k ev)"
proof -
  note inv = world_invD [OF assms(1)]
  have no: "t \<noteq> TopicOrderCreated" using assms(2) by auto
  have "events_inv (posted w t k ev)" by (rule posted_events [OF inv(2)]) (use assms(2) in auto)
  then have step: "world_inv c (posted w t k ev) \<and> evolves w (posted w t k ev)
    \<and> (\<forall>v. v \<noteq> u \<or> published w u \<longrightarrow> leaves w (posted w t k ev) v)" for u
    by (rule topics_step [OF assms(1) _ posted_def]) (use no in \<open>auto simp: posted_published\<close>)
  have "leaves w (posted w t k ev) v" for v using step [of "CHR ''x'' # v"] by simp
  then show ?thesis using step by (simp add: guar_def)
qed

end
