(* ===== verification/SagaPrograms.thy ===== *)
theory SagaPrograms
  imports SagaSteps
begin

text \<open>
  Every program of the services is safe among the others: its calls keep the world's invariant and
  stay within its guarantee, whatever other programs do in between and wherever it is cut off.
\<close>

abbreviation sound_prog :: "(string \<Rightarrow> string option) \<Rightarrow> string option \<Rightarrow> 'a handler \<Rightarrow> world \<Rightarrow> bool" where
  "sound_prog c ow \<equiv> safe (world_inv c) (rely ow) (guar ow) (\<lambda>e. canon (e_pg e) = c)"

text \<open>A call that only reads; the rest may use what it read.\<close>

lemma safe_read:
  assumes "\<And>w1 e r w2. rely ow w w1 \<Longrightarrow> world_inv c w1 \<Longrightarrow> canon (e_pg e) = c \<Longrightarrow> f e w1 = (r, w2) \<Longrightarrow>
      w2 = w1 \<and> sound_prog c ow (k r) w1"
  shows "sound_prog c ow (call f k) w"
  by (rule safe_call) (use assms guar_refl in blast)

text \<open>The processor's log is no part of the invariant.\<close>

lemma charges_log_step:
  "world_inv c w \<Longrightarrow> world_inv c (w\<lparr>w_charges := x\<rparr>) \<and> guar ow w (w\<lparr>w_charges := x\<rparr>)"
  by (simp add: world_inv_def stores_inv_def events_inv_def status_inv_def holds_inv_def charges_inv_def guar_def
      evolves_def leaves_def orders_evolves_refl published_def paid_def declined_def created_ok_def succeeded_ok_def
      failed_ok_def)

section \<open>Items\<close>

lemma items_of_covers:
  assumes "orders_inv db" and "order_items db (u, p) = Some (q, cents)"
  shows "\<lparr>i_ProductID = p, i_Quantity = q, i_UnitCents = cents\<rparr> \<in> set (items_of db u)"
proof -
  have "finite {x. (u, x) \<in> dom (order_items db)}"
    by (rule finite_surj [OF orders_invD(2) [OF assms(1)], of _ snd]) force
  then show ?thesis using assms(2) by (force simp: items_of_def)
qed

lemma items_of_sound:
  assumes "orders_inv db" and "it \<in> set (items_of db u)"
  shows "order_items db (u, i_ProductID it) = Some (i_Quantity it, i_UnitCents it)"
proof -
  have "finite {x. (u, x) \<in> dom (order_items db)}"
    by (rule finite_surj [OF orders_invD(2) [OF assms(1)], of _ snd]) force
  then show ?thesis using assms(2) by (auto simp: items_of_def)
qed

section \<open>Creating an order\<close>

lemma releaseAll_safe:
  assumes "\<not> published w u" and cu: "c u = Some u"
  shows "sound_prog c (Some u) (releaseAll cid u pids (Ret resp)) w"
  using assms(1)
proof (induction pids arbitrary: w)
  case (Cons pid pids)
  show ?case
  proof (simp only: releaseAll.simps, rule safe_call)
    fix w1 e r w2
    assume "rely (Some u) w w1" and I: "world_inv c w1" and V: "canon (e_pg e) = c"
      and f: "CatalogClient_Release cid u pid e w1 = (r, w2)"
    then have un: "\<not> published w1 u" using Cons.prems relyD(2) [of u w w1] by (simp add: leaves_def)
    show "world_inv c w2 \<and> guar (Some u) w1 w2 \<and> sound_prog c (Some u) (releaseAll cid u pids (Ret resp)) w2"
      using client_Release_outcome [OF f world_invD(6) [OF I]]
    proof (elim disjE exE conjE)
      assume "w2 = w1"
      then show ?thesis using I guar_refl Cons.IH [OF un] by simp
    next
      fix ou p q assume ou: "canon (e_pg e) u = Some ou" and q: "reservations (w_catalog w1) (ou, p) = Some q"
        and w2: "w2 = w1\<lparr>w_catalog := end_hold False (clock (e_pg e)) (ou, p) (w_catalog w1)\<rparr>"
      have u: "ou = u" using ou V cu by simp
      have step: "world_inv c w2 \<and> evolves w1 w2 \<and> (\<forall>v. v \<noteq> u \<or> published w1 u \<longrightarrow> leaves w1 w2 v)"
        using release_step [OF I q _ w2] un u by simp
      then have "guar (Some u) w1 w2" by (auto simp: guar_def)
      moreover have "\<not> published w2 u" using un w2 by simp
      ultimately show ?thesis using step Cons.IH by blast
    qed
  qed
qed simp

text \<open>What the program that creates \<open>u\<close> knows while \<open>u\<close> is not recorded: it holds exactly \<open>done\<close>.\<close>

definition holding :: "(string \<Rightarrow> string option) \<Rightarrow> world \<Rightarrow> string \<Rightarrow> OrderItem list \<Rightarrow> bool" where
  "holding c w u done \<longleftrightarrow> ords w u = None \<and> \<not> published w u
     \<and> (\<forall>p. res w u p = map_option fst (map_of (item_rows c u done) (u, p)))"

lemma holding_rely: "holding c w u done \<Longrightarrow> rely (Some u) w w1 \<Longrightarrow> holding c w1 u done"
  using relyD(2) [of u w w1] by (simp add: holding_def leaves_def)

lemma item_rows_append: "item_rows c u (xs @ ys) = item_rows c u xs @ item_rows c u ys"
  by (simp add: item_rows_def)

lemma holding_more:
  assumes "holding c w u done" and "c (i_ProductID it) = Some p" and "res w u p \<noteq> None"
  shows "holding c w u (done @ [it])"
proof -
  obtain v where "map_of (item_rows c u done) (u, p) = Some v" using assms(1,3) by (auto simp: holding_def)
  then have "map_of (item_rows c u (done @ [it])) (u, x) = map_of (item_rows c u done) (u, x)" for x
    using assms(2) by (auto simp: item_rows_append map_add_def item_rows_def split: option.splits)
  then show ?thesis using assms(1) by (simp add: holding_def)
qed

lemma holding_new:
  assumes "holding c w u done" and "c (i_ProductID it) = Some p" and "res w u p = None"
    and "ords w2 = ords w" and "published w2 = published w"
    and "reservations (w_catalog w2) = (reservations (w_catalog w))((u, p) \<mapsto> i_Quantity it)"
  shows "holding c w2 u (done @ [it])"
proof -
  have "map_of (item_rows c u done) (u, p) = None" using assms(1,3) by (simp add: holding_def)
  then have "map_of (item_rows c u (done @ [it])) (u, x)
      = (if x = p then Some (i_Quantity it, i_UnitCents it) else map_of (item_rows c u done) (u, x))" for x
    using assms(2) by (auto simp: item_rows_append map_add_def item_rows_def split: option.splits)
  then show ?thesis using assms(1,4-6) by (simp add: holding_def)
qed

lemma Publish_outcome: "Publish t k ev e w = (r, w2) \<Longrightarrow> w2 = w \<or> w2 = posted w t k ev"
  by (auto simp: Publish_def posted_def Let_def split: fate.splits)

text \<open>The order as its row says, with its items.\<close>

definition reads :: "world \<Rightarrow> string \<Rightarrow> Order \<Rightarrow> bool" where
  "reads w u ord \<longleftrightarrow> o_ID ord = u \<and> o_Items ord = items_of (w_orders w) u
     \<and> (\<exists>row. ords w u = Some row \<and> o_UserID ord = row_user row \<and> o_TotalCents ord = row_total row
          \<and> o_Currency ord = row_currency row)"

lemma OrderByID_reads:
  "OrderByID pg i oid (w_orders w) = Inr ord \<Longrightarrow> \<exists>u. canon pg oid = Some u \<and> reads w u ord"
  using OrderByID_Inr by (fastforce simp: reads_def order_of_row_def)

lemma reads_evolves:
  assumes "reads w u ord" and "evolves w w1"
  shows "reads w1 u ord"
proof -
  obtain row where row: "ords w u = Some row" and o: "o_ID ord = u" "o_Items ord = items_of (w_orders w) u"
    "o_UserID ord = row_user row" "o_TotalCents ord = row_total row" "o_Currency ord = row_currency row"
    using assms(1) by (auto simp: reads_def)
  obtain row' where "ords w1 u = Some row'" "row_user row' = row_user row" "row_total row' = row_total row"
    "row_currency row' = row_currency row"
    using evolvesD(1) [OF assms(2)] row unfolding orders_evolves_def by blast
  then show ?thesis using o evolvesD(9) [OF assms(2), of u] row by (simp add: reads_def)
qed

lemma PublishOrderCreated_step:
  assumes I: "world_inv c w" and ord: "reads w u ord" and f: "PublishOrderCreated cid ord e w = (r, w2)"
    and held: "\<And>p q cents. itms w u p = Some (q, cents) \<Longrightarrow> res w u p = Some q"
  shows "world_inv c w2 \<and> guar (Some u) w w2"
proof -
  note inv = world_invD [OF I]
  define oc where "oc = \<lparr>oc_OrderID = o_ID ord, oc_UserID = o_UserID ord, oc_AmountCents = o_TotalCents ord,
    oc_Currency = o_Currency ord,
    oc_Items = map (\<lambda>it. \<lparr>ei_ProductID = i_ProductID it, ei_Quantity = i_Quantity it\<rparr>) (o_Items ord)\<rparr>"
  define ev where "ev = NewEnvelope (newUUID (e_bytes e)) TypeOrderCreated cid (e_now e) (marshal_OrderCreated oc)"
  obtain row where row: "ords w u = Some row" and o: "o_ID ord = u" "o_Items ord = items_of (w_orders w) u"
    "o_UserID ord = row_user row" "o_TotalCents ord = row_total row" "o_Currency ord = row_currency row"
    using ord by (auto simp: reads_def)
  have "is_int64 (i_Quantity it)" if "it \<in> set (items_of (w_orders w) u)" for it
    using orders_invD(6) [OF inv(7) items_of_sound [OF inv(7) that]]
    by (auto simp: is_int4_def is_int64_def min_int64_def max_int64_def)
  then have "wf_OrderCreated oc"
    using orders_invD(4) [OF inv(7) row] o by (auto simp: wf_OrderCreated_def oc_def)
  then have dec: "Decode unmarshal_OrderCreated TypeOrderCreated ev = Inr oc" "oc_OrderID oc = u"
    using o by (simp_all add: ev_def Decode_def NewEnvelope_def oc_def [symmetric]) (simp add: oc_def)
  have ok: "created_ok w ev" using dec row o by (simp add: created_ok_def) (simp add: oc_def)
  have "w2 = w \<or> w2 = posted w TopicOrderCreated (o_ID ord) ev"
    using f by (intro Publish_outcome) (simp add: PublishOrderCreated_def Let_def ev_def oc_def)
  moreover have "world_inv c (posted w TopicOrderCreated (o_ID ord) ev)
      \<and> guar (Some u) w (posted w TopicOrderCreated (o_ID ord) ev)"
    by (rule publish_created_step [OF I ok dec]) (rule held)
  ultimately show ?thesis using I guar_refl by blast
qed

text \<open>Announcing an order whose items are all held.\<close>

lemma announce_safe:
  assumes rd: "reads w u order" and un: "\<not> published w u"
    and held: "\<And>p q cents. itms w u p = Some (q, cents) \<Longrightarrow> res w u p = Some q"
    and k: "\<And>pub w. sound_prog c (Some u) (k pub) w"
  shows "sound_prog c (Some u) (call (PublishOrderCreated cid order) k) w"
proof (rule safe_call)
  fix w1 e out w2
  assume R: "rely (Some u) w w1" and I: "world_inv c w1" and f: "PublishOrderCreated cid order e w1 = (out, w2)"
  have "res w1 u p = Some q" if "itms w1 u p = Some (q, cents)" for p q cents
    using that held [of p q cents] evolvesD(10) [OF relyD(1) [OF R], of u p] relyD(2) [OF R] un rd
    by (auto simp: leaves_def reads_def)
  then show "world_inv c w2 \<and> guar (Some u) w1 w2 \<and> sound_prog c (Some u) (k out) w2"
    using PublishOrderCreated_step [OF I reads_evolves [OF rd relyD(1) [OF R]] f] k by blast
qed

lemma record_order_safe:
  assumes hold: "holding c w u (o_Items ord)" and u: "o_ID ord = u" "c u = Some u" and ut: "uuid_type c"
    and lines: "o_TotalCents ord = wrap64 (\<Sum>it\<leftarrow>o_Items ord. i_UnitCents it * i_Quantity it)"
  shows "sound_prog c (Some u) (record_order r reserved ord) w"
  unfolding record_order_def
proof (rule safe_call)
  fix w1 e out w2
  assume R: "rely (Some u) w w1" and I: "world_inv c w1" and V: "canon (e_pg e) = c"
    and f: "orders_write (\<lambda>pg. CreateOrder pg ord) e w1 = (out, w2)"
  let ?rest = "\<lambda>out. case out of
         Inl _ \<Rightarrow> releaseAll (correlation r) (o_ID ord) reserved (Ret (WriteError r 500 ''could not create order''))
       | Inr order \<Rightarrow>
           call (PublishOrderCreated (correlation r) order) (\<lambda>pub.
             case pub of
               Inl _ \<Rightarrow> Ret (WriteError r 502 ''order created but could not be submitted for payment'')
             | Inr _ \<Rightarrow> Ret (WriteJSON r 201 (order_toView order)))"
  note h = holding_rely [OF hold R]
  obtain db' where c: "CreateOrder (e_pg e) ord (w_orders w1) = (out, db')" and w2: "w2 = w1\<lparr>w_orders := db'\<rparr>"
    using f by (auto simp: orders_write_def Let_def split: prod.splits)
  show "world_inv c w2 \<and> guar (Some u) w1 w2 \<and> sound_prog c (Some u) (?rest out) w2"
    using CreateOrder_outcome [OF c]
  proof (elim disjE exE conjE)
    assume "db' = w_orders w1" and "isl out"
    then have "w2 = w1" and "\<exists>e. out = Inl e" using w2 by (simp_all add: isl_def)
    moreover have "\<not> published w1 u" using h by (simp add: holding_def)
    ultimately show ?thesis using I guar_refl releaseAll_safe [where c = c] u by auto
  next
    fix ou
    assume ou: "canon (e_pg e) (o_ID ord) = Some ou" and none: "orders (w_orders w1) ou = None"
      and items: "o_Items ord \<noteq> []" "items_ok (canon (e_pg e)) (o_Items ord)"
      and total: "0 \<le> o_TotalCents ord" "is_int64 (o_TotalCents ord)"
      and db': "db' = place_order (e_pg e) ou ord (w_orders w1)"
      and got: "\<forall>got. out = Inr got \<longrightarrow> (\<exists>i. OrderByID (e_pg e) i (o_ID ord) db' = Inr got)"
    have [simp]: "ou = u" using ou V u by simp
    have step: "world_inv c w2 \<and> guar (Some u) w1 w2"
      by (rule place_order_step [OF I, of u "e_pg e" ord])
         (use none u V ut items total h w2 db' lines in \<open>simp_all add: holding_def\<close>)
    have un: "\<not> published w2 u" using h w2 by (simp add: holding_def)
    have held: "res w2 u p = Some q" if "itms w2 u p = Some (q, cents)" for p q cents
    proof -
      have "itms w1 u p = None"
      proof (cases "itms w1 u p")
        case (Some v)
        then show ?thesis using orders_invD(6) [OF world_invD(7) [OF I], of "(u, p)"] none by (cases v) auto
      qed
      then have "map_of (item_rows c u (o_Items ord)) (u, p) = Some (q, cents)"
        using that V by (auto simp: w2 db' place_order_items split: option.splits)
      then show ?thesis using h by (simp add: holding_def w2)
    qed
    have "sound_prog c (Some u) (?rest out) w2"
    proof (cases out)
      case (Inr order)
      then obtain i where "OrderByID (e_pg e) i (o_ID ord) (w_orders w2) = Inr order" using got w2 by auto
      from OrderByID_reads [OF this] have rd: "reads w2 u order" using ou by simp
      have "sound_prog c (Some u) (call (PublishOrderCreated (correlation r) order) k) w2"
        if "\<And>pub w. sound_prog c (Some u) (k pub) w" for k :: "_ \<Rightarrow> orderView response handler"
        by (rule announce_safe [OF rd un held that])
      then show ?thesis unfolding Inr by (simp add: safe.simps(1) split: sum.splits)
    qed (use releaseAll_safe [where c = c, OF un u(2)] u(1) in simp)
    then show ?thesis using step by blast
  qed
qed

lemma reserve_items_safe:
  assumes "holding c w u done" and "o_Items ord = done @ todo"
    and u: "o_ID ord = u" "c u = Some u" and ut: "uuid_type c"
    and lines: "o_TotalCents ord = wrap64 (\<Sum>it\<leftarrow>o_Items ord. i_UnitCents it * i_Quantity it)"
  shows "sound_prog c (Some u) (reserve_items r ord reserved todo) w"
  using assms(1,2)
proof (induction todo arbitrary: "done" reserved w)
  case Nil
  then show ?case using record_order_safe [OF _ u ut lines] by simp
next
  case (Cons item todo)
  show ?case
  proof (simp only: reserve_items.simps, rule safe_call)
    fix w1 e out w2
    assume R: "rely (Some u) w w1" and I: "world_inv c w1" and V: "canon (e_pg e) = c"
      and f: "CatalogClient_Reserve (correlation r) (o_ID ord) (i_ProductID item) (i_Quantity item) e w1 = (out, w2)"
    note h = holding_rely [OF Cons.prems(1) R]
    let ?rest = "case out of
         Inl err \<Rightarrow>
           releaseAll (correlation r) (o_ID ord) reserved
             (Ret (case err of
                ErrCatalogConflict \<Rightarrow> WriteError r 409 (''insufficient stock for product '' @ i_ProductID item)
              | ErrCatalogNotFound \<Rightarrow> WriteError r 400 (''unknown product: '' @ i_ProductID item)
              | CatalogFailed \<Rightarrow> WriteError r 502 ''could not reserve stock''))
       | Inr _ \<Rightarrow> reserve_items r ord (reserved @ [i_ProductID item]) todo"
    have fail: "sound_prog c (Some u) (releaseAll cid (o_ID ord) pids (Ret resp)) w2"
      if "published w2 = published w1" for cid pids and resp :: "orderView response"
    proof -
      have "\<not> published w2 u" using h that by (simp add: holding_def)
      then show ?thesis unfolding u(1) by (rule releaseAll_safe) (rule u(2))
    qed
    show "world_inv c w2 \<and> guar (Some u) w1 w2 \<and> sound_prog c (Some u) ?rest w2"
      using client_Reserve_outcome [OF f]
    proof (elim disjE exE conjE)
      assume same: "w2 = w1" and ok: "is_ok out \<longrightarrow> (\<exists>ou p. canon (e_pg e) (o_ID ord) = Some ou
        \<and> canon (e_pg e) (i_ProductID item) = Some p \<and> reservations (w_catalog w1) (ou, p) \<noteq> None)"
      have "sound_prog c (Some u) (reserve_items r ord rs todo) w1" if "is_ok out" for rs
      proof (rule Cons.IH)
        show "holding c w1 u (done @ [item])" using ok that V u holding_more [OF h] by auto
      qed (simp add: Cons.prems(2))
      then show ?thesis using same I guar_refl fail by (auto split: sum.splits)
    next
      fix ou p prod
      assume ou: "canon (e_pg e) (o_ID ord) = Some ou" and p: "canon (e_pg e) (i_ProductID item) = Some p"
        and none: "reservations (w_catalog w1) (ou, p) = None" and prod: "products (w_catalog w1) p = Some prod"
        and q: "0 < i_Quantity item" "i_Quantity item \<le> Available prod"
        and w2: "w2 = w1\<lparr>w_catalog := take_hold (clock (e_pg e)) (ou, p) (i_Quantity item) (w_catalog w1)\<rparr>"
      have [simp]: "ou = u" using ou V u by simp
      have step: "world_inv c w2 \<and> guar (Some u) w1 w2
          \<and> reservations (w_catalog w2) = (reservations (w_catalog w1))((u, p) \<mapsto> i_Quantity item)"
        using take_hold_step [OF I _ _ prod q w2] none h by (simp add: holding_def)
      have "holding c w2 u (done @ [item])"
        using holding_new [OF h, of item p w2] p V none step w2 by simp
      then have "sound_prog c (Some u) (reserve_items r ord rs todo) w2" for rs
        using Cons.IH Cons.prems(2) by simp
      then show ?thesis using step fail w2 by (simp split: sum.splits)
    qed
  qed
qed

lemma price_items_safe:
  assumes "holding c w u []" and "c u = Some u" and "uuid_type c"
    and "cents = wrap64 (\<Sum>it\<leftarrow>items. i_UnitCents it * i_Quantity it)"
  shows "sound_prog c (Some u) (price_items r u userID items cents currency todo) w"
  using assms(1,4)
proof (induction todo arbitrary: items cents currency w)
  case Nil
  then show ?case using assms(2,3) by (simp add: reserve_items_safe)
next
  case (Cons item todo)
  show ?case
    unfolding price_items.simps
  proof (rule safe_read)
    fix w1 e out w2
    assume R: "rely (Some u) w w1" and f: "CatalogClient_Product (correlation r) (or_ProductID item) e w1 = (out, w2)"
    have "w2 = w1" using f by (auto simp: CatalogClient_Product_def split: if_splits routed.splits response.splits)
    moreover have "sound_prog c (Some u) (price_items r u userID
        (items @ [\<lparr>i_ProductID = or_ProductID item, i_Quantity = or_Quantity item, i_UnitCents = price\<rparr>])
        (wrap64 (cents + wrap64 (price * or_Quantity item))) cur todo) w1" for price cur
      by (rule Cons.IH [OF holding_rely [OF Cons.prems(1) R]]) (simp add: Cons.prems(2) wrap64_plus)
    ultimately show "w2 = w1 \<and> sound_prog c (Some u) (case out of
         Inl ErrCatalogNotFound \<Rightarrow> Ret (WriteError r 400 (''unknown product: '' @ or_ProductID item))
       | Inl _ \<Rightarrow> Ret (WriteError r 502 ''could not price the order'')
       | Inr product \<Rightarrow>
           price_items r u userID
             (items @ [\<lparr>i_ProductID = or_ProductID item, i_Quantity = or_Quantity item, i_UnitCents = cp_PriceCents product\<rparr>])
             (wrap64 (cents + wrap64 (cp_PriceCents product * or_Quantity item)))
             (cp_Currency product) todo) w1"
      by (auto split: sum.splits catalog_error.splits)
  qed
qed

text \<open>A program that creates an order starts on an identifier of which nothing is recorded.\<close>

lemma createOrder_safe:
  assumes "world_inv c w" and "newUUID random = u" and "c u = Some u" and "uuid_type c"
    and "ords w u = None" and "\<And>p. res w u p = None"
  shows "sound_prog c (Some u) (createOrder random r) w"
proof -
  have "holding c w u []" using assms(5,6) world_invD(11) [OF assms(1), of u]
    by (auto simp: holding_def item_rows_def)
  then have "sound_prog c (Some u) (price_items r u userID [] 0 cur todo) w" for userID cur todo
    by (rule price_items_safe [OF _ assms(3,4)]) (simp add: wrap64_def)
  then show ?thesis using assms(2)
    by (auto simp: createOrder_def Let_def split: sum.splits option.splits)
qed

section \<open>The payment service\<close>

lemma publishOutcome_safe:
  assumes "w_payments w u = Some p" and "published w u" and "pay_OrderID p = u"
  shows "sound_prog c None (publishOutcome cid p) w"
  unfolding publishOutcome_def
proof (rule safe_call)
  fix w1 e out w2
  assume R: "rely None w w1" and I: "world_inv c w1"
    and f: "(case outcome_event cid p e of (topic, ev) \<Rightarrow> Publish topic (pay_OrderID p) ev e) w1 = (out, w2)"
  have p: "w_payments w1 u = Some p" using evolvesD(2) [OF relyD(1) [OF R]] assms(1) by (auto simp: map_le_def dom_def)
  have pub: "published w1 u" using evolvesD(8) [OF relyD(1) [OF R]] assms(2) by blast
  have row: "pay_Status p \<in> {StatusSucceeded, StatusFailed}" "is_int64 (pay_AmountCents p)" "text_ok (pay_FailureReason p)"
    using world_invD(8) [OF I] p unfolding payments_inv_def by blast+
  obtain t ev where tev: "outcome_event cid p e = (t, ev)" by force
  have ok: "t = TopicPaymentSucceeded \<and> succeeded_ok w1 ev \<or> t = TopicPaymentFailed \<and> failed_ok w1 ev"
  proof (cases "pay_Status p = StatusSucceeded")
    case True
    then show ?thesis using tev row p pub assms(3)
      by (auto simp: outcome_event_def succeeded_ok_def Decode_def NewEnvelope_def paid_def)
  next
    case False
    then show ?thesis using tev row p pub assms(3)
      by (auto simp: outcome_event_def failed_ok_def Decode_def NewEnvelope_def declined_def)
  qed
  have "w2 = w1 \<or> w2 = posted w1 t (pay_OrderID p) ev" using f Publish_outcome by (simp add: tev)
  then have "world_inv c w2 \<and> guar None w1 w2" using publish_outcome_step [OF I ok] I guar_refl by blast
  then show "world_inv c w2 \<and> guar None w1 w2 \<and> sound_prog c None
      (case out of Inl err \<Rightarrow> Ret (Inl (Publishing err)) | Inr _ \<Rightarrow> Ret (Inr ())) w2"
    by (simp split: sum.splits)
qed

lemma PaymentByOrderID_row:
  assumes "PaymentByOrderID pg oid (w_payments w) = Inr p" and "world_inv (canon pg) w"
  shows "\<exists>u. canon pg oid = Some u \<and> w_payments w u = Some p \<and> pay_OrderID p = u"
  using PaymentByOrderID_Inr [OF assms(1)] world_invD(8) [OF assms(2)] unfolding payments_inv_def by blast

text \<open>Recording a charge: marked as direct, or for an order as its event describes it.\<close>

lemma record_charge_step:
  assumes I: "world_inv c w" and V: "canon (e_pg e) = c" and f: "record_charge direct p e w = (out, w2)"
    and charged: "\<And>u. direct \<or> c (pay_OrderID p) \<noteq> Some u \<or> (\<exists>row. ords w u = Some row
       \<and> pay_AmountCents p = row_total row \<and> pay_Currency p = row_currency row \<and> pay_UserID p = row_user row)"
  shows "world_inv c w2 \<and> guar None w w2 \<and> (\<forall>got. out = Inr got \<longrightarrow>
    (\<exists>u. c (pay_OrderID p) = Some u \<and> w_payments w2 u = Some got \<and> pay_OrderID got = u))"
proof -
  obtain d where rc: "RecordCharge (e_pg e) (p\<lparr>pay_ID := newUUID (e_bytes e)\<rparr>) (w_payments w) = (out, d)"
    and w2: "w2 = w\<lparr>w_payments := d,
      w_direct := (if direct then w_direct w \<union> (dom d - dom (w_payments w)) else w_direct w)\<rparr>"
    using f by (auto simp: record_charge_def Let_def split: prod.splits)
  from RecordCharge_outcome [OF rc] show ?thesis
  proof (elim disjE exE conjE)
    assume "d = w_payments w" and "isl out"
    then show ?thesis using I w2 guar_refl [of None w] by (auto simp: isl_def)
  next
    fix u row
    assume u: "canon (e_pg e) (pay_OrderID (p\<lparr>pay_ID := newUUID (e_bytes e)\<rparr>)) = Some u"
      and none: "w_payments w u = None" and d: "d = (w_payments w)(u \<mapsto> row)"
      and row: "pay_OrderID row = u" "pay_UserID row = pay_UserID (p\<lparr>pay_ID := newUUID (e_bytes e)\<rparr>)"
        "pay_AmountCents row = pay_AmountCents (p\<lparr>pay_ID := newUUID (e_bytes e)\<rparr>)"
        "pay_Currency row = pay_Currency (p\<lparr>pay_ID := newUUID (e_bytes e)\<rparr>)"
        "pay_Status row \<in> {StatusSucceeded, StatusFailed}" "0 \<le> pay_AmountCents row" "is_int64 (pay_AmountCents row)"
        "text_ok (pay_FailureReason row)"
      and got: "\<forall>got. out = Inr got \<longrightarrow> got = row"
    have "payments_inv ((w_payments w)(u \<mapsto> row))"
      using world_invD(8) [OF I] row unfolding payments_inv_def by (auto split: if_splits)
    moreover have "u \<in> w_direct w2 \<or> (\<exists>r. ords w u = Some r \<and> pay_AmountCents row = row_total r
        \<and> pay_Currency row = row_currency r \<and> pay_UserID row = row_user r)"
      using charged [of u] u V row none by (auto simp: w2 d)
    ultimately have "world_inv c w2 \<and> guar None w w2"
      by (intro payments_step [OF I none, of row "w_direct w2"]) (auto simp: w2 d)
    moreover have "w_payments w2 u = Some row" using w2 d by simp
    ultimately show ?thesis using u V row(1) got by auto
  qed
qed

lemma gateway_call_safe:
  assumes "\<And>w1 out. rely None w w1 \<Longrightarrow> world_inv c w1 \<Longrightarrow> sound_prog c None (k out) w1"
  shows "sound_prog c None (call (Gateway_Charge gateway oid amount currency) k) w"
proof (rule safe_call)
  fix w1 e out w2
  assume R: "rely None w w1" and I: "world_inv c w1" and "Gateway_Charge gateway oid amount currency e w1 = (out, w2)"
  then have w2: "w2 = w1\<lparr>w_charges := w_charges w1 @ [(oid, amount, currency)]\<rparr>" by (simp add: Gateway_Charge_def)
  have step: "world_inv c w2 \<and> guar None w1 w2" unfolding w2 by (rule charges_log_step [OF I])
  then have "rely None w w2" using rely_trans' [OF R] guar_rely' [of None None w1 w2] by blast
  then show "world_inv c w2 \<and> guar None w1 w2 \<and> sound_prog c None (k out) w2" using step assms by blast
qed

lemma payments_read_safe:
  assumes "\<And>w1 pg. rely None w w1 \<Longrightarrow> world_inv c w1 \<Longrightarrow> canon pg = c \<Longrightarrow> sound_prog c None (k (f pg (w_payments w1))) w1"
  shows "sound_prog c None (call (payments_read f) k) w"
  by (rule safe_read) (use assms in \<open>auto simp: payments_read_def\<close>)

lemma HandleOrderCreated_safe:
  assumes "world_inv c w" and "(key, ev) \<in> set (w_topics w TopicOrderCreated)"
  shows "sound_prog c None (HandleOrderCreated gateway cid ev) w"
proof -
  obtain oc where oc: "Decode unmarshal_OrderCreated TypeOrderCreated ev = Inr oc"
    using world_invD(2) [OF assms(1)] assms(2) by (auto simp: events_inv_def created_ok_def)
  define u where "u = oc_OrderID oc"
  have later: "published w1 u \<and> c u = Some u \<and> (\<exists>row. ords w1 u = Some row \<and> oc_AmountCents oc = row_total row
      \<and> oc_Currency oc = row_currency row \<and> oc_UserID oc = row_user row)" if "world_inv c w1" "rely None w w1" for w1
  proof -
    have m: "(key, ev) \<in> set (w_topics w1 TopicOrderCreated)" using evolvesD(3) [OF relyD(1) [OF that(2)]] assms(2) .
    then have "created_ok w1 ev" using world_invD(2) [OF that(1)] by (auto simp: events_inv_def)
    moreover have "published w1 u" using m oc u_def by (auto simp: published_def)
    ultimately show ?thesis using oc world_invD(9) [OF that(1), of u] by (auto simp: created_ok_def u_def)
  qed
  have out: "sound_prog c None (publishOutcome cid p) w1"
    if "world_inv c w1" "rely None w w1" "canon pg = c" "PaymentByOrderID pg u (w_payments w1) = Inr p" for w1 pg p
    using PaymentByOrderID_row [OF that(4)] later [OF that(1,2)] that(1,3)
    by (auto intro!: publishOutcome_safe [where u = u])
  have recorded: "sound_prog c None (call (record_charge False (attempted u (oc_UserID oc) (oc_AmountCents oc) (oc_Currency oc) declined)) (\<lambda>rec.
        case rec of
          Inr payment \<Rightarrow> publishOutcome cid payment
        | Inl ErrAlreadyCharged \<Rightarrow>
            call (payments_read (\<lambda>pg. PaymentByOrderID pg u)) (\<lambda>again.
              case again of
                Inl err \<Rightarrow> Ret (Inl (LoadingWinner err))
              | Inr existing \<Rightarrow> publishOutcome cid existing)
        | Inl err \<Rightarrow> Ret (Inl (RecordingCharge err)))) w1"
    if w1: "world_inv c w1" "rely None w w1" for w1 declined
  proof (rule safe_call)
    fix w2 e rec w3
    assume R: "rely None w1 w2" and I: "world_inv c w2" and V: "canon (e_pg e) = c"
      and f: "record_charge False (attempted u (oc_UserID oc) (oc_AmountCents oc) (oc_Currency oc) declined) e w2 = (rec, w3)"
    have R2: "rely None w w2" using rely_trans' [OF w1(2) R] .
    have step: "world_inv c w3 \<and> guar None w2 w3 \<and> (\<forall>got. rec = Inr got \<longrightarrow>
        (\<exists>v. c u = Some v \<and> w_payments w3 v = Some got \<and> pay_OrderID got = v))"
      using record_charge_step [OF I V f] later [OF I R2] by (auto simp: attempted_def)
    then have R3: "rely None w w3" using rely_trans' [OF R2] guar_rely' [of None None w2 w3] by blast
    have "sound_prog c None (publishOutcome cid payment) w3" if "rec = Inr payment" for payment
      using step that later [of w3] R3 by (auto intro!: publishOutcome_safe [where u = u])
    moreover have "sound_prog c None (call (payments_read (\<lambda>pg. PaymentByOrderID pg u)) (\<lambda>again.
              case again of Inl err \<Rightarrow> Ret (Inl (LoadingWinner err)) | Inr existing \<Rightarrow> publishOutcome cid existing)) w3"
      by (rule payments_read_safe) (use out rely_trans' [OF R3] in \<open>auto split: sum.splits\<close>)
    ultimately show "world_inv c w3 \<and> guar None w2 w3 \<and> sound_prog c None (case rec of
          Inr payment \<Rightarrow> publishOutcome cid payment
        | Inl ErrAlreadyCharged \<Rightarrow>
            call (payments_read (\<lambda>pg. PaymentByOrderID pg u)) (\<lambda>again.
              case again of
                Inl err \<Rightarrow> Ret (Inl (LoadingWinner err))
              | Inr existing \<Rightarrow> publishOutcome cid existing)
        | Inl err \<Rightarrow> Ret (Inl (RecordingCharge err))) w3"
      using step by (auto split: sum.splits payment_error.splits)
  qed
  show ?thesis
    unfolding HandleOrderCreated_def oc sum.case u_def [symmetric]
    using out recorded rely_trans'
    by (auto intro!: payments_read_safe gateway_call_safe split: sum.splits payment_error.splits)
qed

lemma record_direct_safe:
  assumes "\<And>out w1. sound_prog c None (k out) w1"
  shows "sound_prog c None (call (record_charge True p) k) w"
proof (rule safe_call)
  fix w1 e out w2
  assume "world_inv c w1" and "canon (e_pg e) = c" and "record_charge True p e w1 = (out, w2)"
  then show "world_inv c w2 \<and> guar None w1 w2 \<and> sound_prog c None (k out) w2"
    using record_charge_step [of c w1 e True p out w2] assms by blast
qed

lemma charge_safe: "sound_prog c None (charge gateway r) w"
  unfolding charge_def Let_def
  by (auto intro!: payments_read_safe gateway_call_safe record_direct_safe split: sum.splits payment_error.splits)

section \<open>Settling an order\<close>

text \<open>
  Going through the items of an order, stopping at the first failure: the rest \<open>k\<close> runs only when
  every item's hold is gone.
\<close>

lemma settle_items_safe:
  assumes "world_inv c w" and "ords w u \<noteq> None"
    and step: "\<And>w1 e out w2 p. evolves w w1 \<Longrightarrow> world_inv c w1 \<Longrightarrow> canon (e_pg e) = c \<Longrightarrow> c p = Some p
      \<Longrightarrow> act p e w1 = (out, w2) \<Longrightarrow> world_inv c w2 \<and> guar None w1 w2 \<and> (is_ok out \<longrightarrow> res w2 u p = None)"
    and loop: "\<And>k. items [] k = k" "\<And>it its k. items (it # its) k = call (act (i_ProductID it))
      (\<lambda>out. case out of Inl err \<Rightarrow> Ret (Inl (wrap it err)) | Inr _ \<Rightarrow> items its k)"
    and keys: "\<And>it. it \<in> set its \<Longrightarrow> c (i_ProductID it) = Some (i_ProductID it)"
    and rest: "\<And>w1. evolves w w1 \<Longrightarrow> world_inv c w1 \<Longrightarrow> (\<And>it. it \<in> set its \<Longrightarrow> res w1 u (i_ProductID it) = None)
      \<Longrightarrow> sound_prog c None k w1"
  shows "sound_prog c None (items its k :: (saga_error, unit) result handler) w"
  using assms(1,2) step keys rest
proof (induction its arbitrary: w)
  case Nil
  then show ?case using evolves_refl [of w] by (simp add: loop(1))
next
  case (Cons it its)
  show ?case
    unfolding loop(2)
  proof (rule safe_call)
    fix w1 e out w2
    assume R: "rely None w w1" and I: "world_inv c w1" and V: "canon (e_pg e) = c"
      and f: "act (i_ProductID it) e w1 = (out, w2)"
    have st: "world_inv c w2 \<and> guar None w1 w2 \<and> (is_ok out \<longrightarrow> res w2 u (i_ProductID it) = None)"
      by (rule Cons.prems(3) [OF relyD(1) [OF R] I V _ f]) (simp add: Cons.prems(4))
    then have ev: "evolves w w2" using relyD(1) [OF R] evolves_trans by (auto simp: guar_def)
    have o: "ords w2 u \<noteq> None" by (rule evolvesD(5) [OF ev Cons.prems(2)])
    have "sound_prog c None (items its k) w2" if gone: "res w2 u (i_ProductID it) = None"
    proof (rule Cons.IH [OF _ o])
      fix w3 assume ev3: "evolves w2 w3" and I3: "world_inv c w3"
        and its: "\<And>x. x \<in> set its \<Longrightarrow> res w3 u (i_ProductID x) = None"
      have "res w3 u (i_ProductID it) = None" by (rule evolvesD(4) [OF ev3 o gone])
      then show "sound_prog c None k w3"
        by (intro Cons.prems(5) evolves_trans [OF ev ev3] I3) (use its in auto)
    next
      fix w3 e3 out3 w4 p
      assume "evolves w2 w3" and "world_inv c w3" and "canon (e_pg e3) = c" and "c p = Some p" and "act p e3 w3 = (out3, w4)"
      then show "world_inv c w4 \<and> guar None w3 w4 \<and> (is_ok out3 \<longrightarrow> res w4 u p = None)"
        by (intro Cons.prems(3) evolves_trans [OF ev])
    qed (use st Cons.prems(4) in simp_all)
    then show "world_inv c w2 \<and> guar None w1 w2
        \<and> sound_prog c None (case out of Inl err \<Rightarrow> Ret (Inl (wrap it err)) | Inr _ \<Rightarrow> items its k) w2"
      using st by (simp split: sum.splits)
  qed
qed

text \<open>One item's commit after a successful payment, and one item's release after a declined one.\<close>

lemma commit_call:
  assumes I: "world_inv c w" and V: "canon (e_pg e) = c" and keys: "c u = Some u" "c p = Some p"
    and "published w u" and "paid w u" and f: "CatalogClient_Commit cid u p e w = (out, w2)"
  shows "world_inv c w2 \<and> guar None w w2 \<and> (is_ok out \<longrightarrow> res w2 u p = None)"
  using client_Commit_outcome [OF f world_invD(6) [OF I]]
proof (elim disjE exE conjE)
  fix ou v q assume k: "canon (e_pg e) u = Some ou" "canon (e_pg e) p = Some v"
    and q: "reservations (w_catalog w) (ou, v) = Some q"
    and w2: "w2 = w\<lparr>w_catalog := end_hold True (clock (e_pg e)) (ou, v) (w_catalog w), w_shipped := (w_shipped w)((ou, v) \<mapsto> q)\<rparr>"
  have [simp]: "ou = u" "v = p" using k V keys by simp_all
  show ?thesis using commit_step [OF I q _ _ w2] assms(5,6) by simp
qed (use I V keys guar_refl [of None w] in auto)

lemma release_call:
  assumes I: "world_inv c w" and V: "canon (e_pg e) = c" and keys: "c u = Some u" "c p = Some p"
    and "published w u" and "declined w u" and f: "CatalogClient_Release cid u p e w = (out, w2)"
  shows "world_inv c w2 \<and> guar None w w2 \<and> (is_ok out \<longrightarrow> res w2 u p = None)"
  using client_Release_outcome [OF f world_invD(6) [OF I]]
proof (elim disjE exE conjE)
  fix ou v q assume k: "canon (e_pg e) u = Some ou" "canon (e_pg e) p = Some v"
    and q: "reservations (w_catalog w) (ou, v) = Some q"
    and w2: "w2 = w\<lparr>w_catalog := end_hold False (clock (e_pg e)) (ou, v) (w_catalog w)\<rparr>"
  have [simp]: "ou = u" "v = p" using k V keys by simp_all
  have "world_inv c w2 \<and> evolves w w2 \<and> (\<forall>v. leaves w w2 v)
      \<and> reservations (w_catalog w2) = (reservations (w_catalog w))((u, p) := None)"
    using release_step [OF I q _ w2] assms(5,6) by simp
  then show ?thesis by (simp add: guar_def)
qed (use I V keys guar_refl [of None w] in auto)

text \<open>The status change once no hold is left.\<close>

lemma settle_status_safe:
  assumes "st = StatusConfirmed \<and> paid w u \<or> st = StatusCancelled \<and> declined w u" and "published w u"
    and "\<And>p. res w u p = None" and "ords w u \<noteq> None" and "c u = Some u"
    and k: "\<And>out w1. sound_prog c None (k out) w1"
  shows "sound_prog c None (call (orders_write (\<lambda>pg. UpdateStatus pg u st msg)) k) w"
proof (rule safe_call)
  fix w1 e out w2
  assume R: "rely None w w1" and I: "world_inv c w1" and V: "canon (e_pg e) = c"
    and f: "orders_write (\<lambda>pg. UpdateStatus pg u st msg) e w1 = (out, w2)"
  obtain d where us: "UpdateStatus (e_pg e) u st msg (w_orders w1) = (out, d)" and w2: "w2 = w1\<lparr>w_orders := d\<rparr>"
    using f by (auto simp: orders_write_def Let_def split: prod.splits)
  note ev = relyD(1) [OF R]
  have st: "st = StatusConfirmed \<and> paid w1 u \<or> st = StatusCancelled \<and> declined w1 u"
    using assms(1) evolvesD(6,7) [OF ev] by blast
  have none: "res w1 u p = None" for p by (rule evolvesD(4) [OF ev assms(4) assms(3)])
  have "terminal st" using st by blast
  from UpdateStatus_outcome [OF us this, THEN conjunct1]
  have "world_inv c w2 \<and> guar None w1 w2"
  proof (elim disjE exE conjE)
    assume "d = w_orders w1" then show ?thesis using I w2 guar_refl [of None w1] by simp
  next
    fix ou row assume ou: "canon (e_pg e) u = Some ou" and row: "orders (w_orders w1) ou = Some row"
      and pend: "row_status row = StatusPending"
      and d: "d = set_status (clock (e_pg e)) ou st (if msg \<noteq> [] then Some msg else None) (w_orders w1)"
    have [simp]: "ou = u" using ou V assms(5) by simp
    show ?thesis
      using set_status_step [OF I _ pend, of u st w2] row st none evolvesD(8) [OF ev assms(2)] w2 d by auto
  qed
  then show "world_inv c w2 \<and> guar None w1 w2 \<and> sound_prog c None (k out) w2" using k by blast
qed

lemma orders_read_safe:
  assumes "\<And>w1 pg. rely ow w w1 \<Longrightarrow> world_inv c w1 \<Longrightarrow> canon pg = c \<Longrightarrow> sound_prog c ow (k (f pg (w_orders w1))) w1"
  shows "sound_prog c ow (call (orders_read f) k) w"
  by (rule safe_read) (use assms in \<open>auto simp: orders_read_def\<close>)

text \<open>When the hold of every item of an order is gone, so is every hold of the order.\<close>

lemma no_holds_left:
  assumes "world_inv c w" and "reads w0 u ord" and "evolves w0 w"
    and "\<And>it. it \<in> set (o_Items ord) \<Longrightarrow> res w u (i_ProductID it) = None"
  shows "res w u p = None"
proof (rule ccontr)
  note inv = world_invD [OF assms(1)]
  assume has: "res w u p \<noteq> None"
  have rd: "reads w u ord" by (rule reads_evolves [OF assms(2,3)])
  then obtain q cents where "itms w u p = Some (q, cents)"
    using inv(15) [of u p] has by (auto simp: reads_def)
  from items_of_covers [OF inv(7) this] assms(4) rd have "res w u p = None" by (force simp: reads_def)
  with has show False ..
qed

lemma items_canonical:
  "world_inv c w \<Longrightarrow> reads w u ord \<Longrightarrow> it \<in> set (o_Items ord) \<Longrightarrow> c (i_ProductID it) = Some (i_ProductID it)"
  using items_of_sound [of "w_orders w" it u] world_invD(7) [of c w] world_invD(10) [of c w u "i_ProductID it"]
  by (auto simp: reads_def)

lemma HandlePaymentSucceeded_safe:
  assumes "world_inv c w" and "(key, ev) \<in> set (w_topics w TopicPaymentSucceeded)"
  shows "sound_prog c None (HandlePaymentSucceeded cid ev) w"
proof -
  obtain ps where ps: "Decode unmarshal_PaymentSucceeded TypePaymentSucceeded ev = Inr ps"
    and paid: "paid w (ps_OrderID ps)" and pub: "published w (ps_OrderID ps)"
    using world_invD(2) [OF assms(1)] assms(2) by (auto simp: events_inv_def succeeded_ok_def)
  define u where "u = ps_OrderID ps"
  define finish :: "string \<Rightarrow> (saga_error, unit) result handler" where "finish v =
    call (orders_write (\<lambda>pg. UpdateStatus pg v StatusConfirmed '''')) (\<lambda>upd.
       case upd of
         Inl (ErrInvalidTransition _ _) \<Rightarrow> Ret (Inr ())
       | Inl err \<Rightarrow> Ret (Inl (ConfirmingOrder err))
       | Inr _ \<Rightarrow> Ret (Inr ()))" for v
  have "sound_prog c None (commit_items cid (o_ID ord) (o_Items ord) (finish (o_ID ord))) w1"
    if R: "rely None w w1" and I: "world_inv c w1" and V: "canon pg = c"
      and got: "OrderByID pg 0 u (w_orders w1) = Inr ord" for w1 pg ord
  proof -
    have p: "published w1 u" "paid w1 u" using evolvesD(6,8) [OF relyD(1) [OF R]] paid pub u_def by blast+
    have cu: "c u = Some u" using world_invD(9,11) [OF I] p(1) by blast
    have rd: "reads w1 u ord" using OrderByID_reads [OF got] V cu by simp
    then have id: "o_ID ord = u" and o: "ords w1 u \<noteq> None" by (auto simp: reads_def)
    have rest: "sound_prog c None (finish u) w2"
      if ev: "evolves w1 w2" and I2: "world_inv c w2"
        and gone: "\<And>it. it \<in> set (o_Items ord) \<Longrightarrow> res w2 u (i_ProductID it) = None" for w2
      unfolding finish_def
      by (rule settle_status_safe)
         (use evolvesD(5,6,8) [OF ev] p o cu no_holds_left [OF I2 rd ev gone]
          in \<open>auto split: sum.splits order_error.splits\<close>)
    have calls: "world_inv c w3 \<and> guar None w2 w3 \<and> (is_ok out \<longrightarrow> res w3 u x = None)"
      if ev: "evolves w1 w2" and "world_inv c w2" "canon (e_pg e) = c" "c x = Some x" "CatalogClient_Commit cid u x e w2 = (out, w3)"
      for w2 e out w3 x
      using commit_call [where c = c and u = u and p = x] that cu evolvesD(6,8) [OF ev] p by blast
    show ?thesis unfolding id
      by (rule settle_items_safe [where items = "commit_items cid u" and wrap = "\<lambda>it. CommittingReservation (i_ProductID it)"
            and act = "CatalogClient_Commit cid u", OF I o])
         (rule calls, assumption+, simp_all add: items_canonical [OF I rd] rest)
  qed
  then show ?thesis
    unfolding HandlePaymentSucceeded_def ps sum.case u_def [symmetric] finish_def
    by (intro orders_read_safe) (auto split: sum.splits order_error.splits)
qed

lemma HandlePaymentFailed_safe:
  assumes "world_inv c w" and "(key, ev) \<in> set (w_topics w TopicPaymentFailed)"
  shows "sound_prog c None (HandlePaymentFailed cid ev) w"
proof -
  obtain pf where pf: "Decode unmarshal_PaymentFailed TypePaymentFailed ev = Inr pf"
    and declined: "declined w (pf_OrderID pf)" and pub: "published w (pf_OrderID pf)"
    using world_invD(2) [OF assms(1)] assms(2) by (auto simp: events_inv_def failed_ok_def)
  define u where "u = pf_OrderID pf"
  define finish :: "string \<Rightarrow> (saga_error, unit) result handler" where "finish v =
    (let reason = (if pf_Reason pf = '''' then ''payment failed'' else pf_Reason pf) in
     call (orders_write (\<lambda>pg. UpdateStatus pg v StatusCancelled reason)) (\<lambda>upd.
       case upd of
         Inl (ErrInvalidTransition _ _) \<Rightarrow> Ret (Inr ())
       | Inl err \<Rightarrow> Ret (Inl (CancellingOrder err))
       | Inr _ \<Rightarrow> Ret (Inr ())))" for v
  have "sound_prog c None (release_items cid (o_ID ord) (o_Items ord) (finish (o_ID ord))) w1"
    if R: "rely None w w1" and I: "world_inv c w1" and V: "canon pg = c"
      and got: "OrderByID pg 0 u (w_orders w1) = Inr ord" for w1 pg ord
  proof -
    have p: "published w1 u" "declined w1 u" using evolvesD(7,8) [OF relyD(1) [OF R]] declined pub u_def by blast+
    have cu: "c u = Some u" using world_invD(9,11) [OF I] p(1) by blast
    have rd: "reads w1 u ord" using OrderByID_reads [OF got] V cu by simp
    then have id: "o_ID ord = u" and o: "ords w1 u \<noteq> None" by (auto simp: reads_def)
    have rest: "sound_prog c None (finish u) w2"
      if ev: "evolves w1 w2" and I2: "world_inv c w2"
        and gone: "\<And>it. it \<in> set (o_Items ord) \<Longrightarrow> res w2 u (i_ProductID it) = None" for w2
      unfolding finish_def Let_def
      by (rule settle_status_safe)
         (use evolvesD(5,7,8) [OF ev] p o cu no_holds_left [OF I2 rd ev gone]
          in \<open>auto split: sum.splits order_error.splits\<close>)
    have calls: "world_inv c w3 \<and> guar None w2 w3 \<and> (is_ok out \<longrightarrow> res w3 u x = None)"
      if ev: "evolves w1 w2" and "world_inv c w2" "canon (e_pg e) = c" "c x = Some x" "CatalogClient_Release cid u x e w2 = (out, w3)"
      for w2 e out w3 x
      using release_call [where c = c and u = u and p = x] that cu evolvesD(7,8) [OF ev] p by blast
    show ?thesis unfolding id
      by (rule settle_items_safe [where items = "release_items cid u" and wrap = "\<lambda>it. ReleasingReservation (i_ProductID it)"
            and act = "CatalogClient_Release cid u", OF I o])
         (rule calls, assumption+, simp_all add: items_canonical [OF I rd] rest)
  qed
  then show ?thesis
    unfolding HandlePaymentFailed_def pf sum.case u_def [symmetric] finish_def Let_def
    by (intro orders_read_safe) (auto split: sum.splits order_error.splits)
qed

end
