(* ===== verification/SagaSystem.thy ===== *)
theory SagaSystem
  imports SagaPrograms
begin

text \<open>
  The services together: any number of requests and event deliveries in progress, their calls in any
  order, with lost messages, lost replies and crashes anywhere.  Reservations are made and settled
  by the orders service only, as \<open>services/catalog/handlers.go\<close> states; the HTTP endpoints that let
  clients do it are the subject of \<open>SagaGaps\<close>.
\<close>

section \<open>The catalog's administration\<close>

definition catalog_request ::
  "(pg \<Rightarrow> 8 word list \<Rightarrow> request \<Rightarrow> catalog_db \<Rightarrow> productView response \<times> catalog_db) \<Rightarrow> request \<Rightarrow> productView response handler" where
  "catalog_request endpoint r =
     call (\<lambda>e w. let (resp, db) = endpoint (e_pg e) (e_bytes e) r (w_catalog w) in (resp, w\<lparr>w_catalog := db\<rparr>)) Ret"

lemma createProduct_tables:
  "snd (createProduct pg random r db) = db \<or> (\<exists>p. snd (createProduct pg random r db) = snd (CreateProduct pg p db))"
  by (auto simp: createProduct_def Let_def split: sum.splits prod.splits store_error.splits) (metis snd_conv)+

lemma addStock_tables:
  "snd (addStock pg r db) = db \<or> (\<exists>pid n. snd (addStock pg r db) = snd (AddStock pg pid n db))"
  by (auto simp: addStock_def split: sum.splits prod.splits) (metis snd_conv)+

lemma insert_product_reservations: "insert_product pg p db = (Inr a, db') \<Longrightarrow> reservations db' = reservations db"
  by (auto simp: insert_product_def Let_def split: option.splits if_splits)

lemma update_stock_reservations: "update_stock pg pid n db = (Inr a, db') \<Longrightarrow> reservations db' = reservations db"
  by (auto simp: update_stock_def update_product_def Let_def split: option.splits if_splits)

lemma CreateProduct_reservations: "reservations (snd (CreateProduct pg p db)) = reservations db"
  using on_pool_states [of "fates pg 0" "insert_product pg p" db] insert_product_reservations
  unfolding CreateProduct_snd by metis

lemma AddStock_reservations: "reservations (snd (AddStock pg pid n db)) = reservations db"
  using on_pool_states [of "fates pg 0" "update_stock pg pid n" db] update_stock_reservations
  unfolding AddStock_snd by (metis (full_types))

lemma CreateProduct_products: "catalog_inv db \<Longrightarrow> dom (products db) \<subseteq> dom (products (snd (CreateProduct pg p db)))"
  using catalog.exec_evolves [of db "DoCreate p" pg] by (fastforce simp: catalog_evolves_def)

lemma AddStock_products: "catalog_inv db \<Longrightarrow> dom (products db) \<subseteq> dom (products (snd (AddStock pg pid n db)))"
  using catalog.exec_evolves [of db "DoAddStock pid n" pg] by (fastforce simp: catalog_evolves_def)

lemma catalog_request_safe:
  assumes "\<And>pg random db. catalog_inv db \<Longrightarrow> catalog_inv (snd (endpoint pg random r db))
      \<and> dom (products db) \<subseteq> dom (products (snd (endpoint pg random r db)))
      \<and> reservations (snd (endpoint pg random r db)) = reservations db"
  shows "sound_prog c None (catalog_request endpoint r) w"
  unfolding catalog_request_def
proof (rule safe_call)
  fix w1 e out w2
  assume I: "world_inv c w1"
    and f: "(let (resp, db) = endpoint (e_pg e) (e_bytes e) r (w_catalog w1) in (resp, w1\<lparr>w_catalog := db\<rparr>)) = (out, w2)"
  define C where "C = snd (endpoint (e_pg e) (e_bytes e) r (w_catalog w1))"
  have C: "catalog_inv C" "dom (products (w_catalog w1)) \<subseteq> dom (products C)" "reservations C = reservations (w_catalog w1)"
    using assms world_invD(6) [OF I] by (simp_all add: C_def)
  have w2: "w2 = w1\<lparr>w_catalog := C, w_shipped := w_shipped w1\<rparr>"
    using f by (auto simp: C_def split: prod.splits)
  have "holds_inv w2" using world_invD(4) [OF I] C(3) by (simp add: w2 holds_inv_def)
  then have "world_inv c w2 \<and> evolves w1 w2"
    using catalog_step [OF I C(1,2), of "w_shipped w1"] C(3) w2 by simp
  moreover have "leaves w1 w2 v" for v using C(3) by (simp add: leaves_def w2)
  ultimately show "world_inv c w2 \<and> guar None w1 w2 \<and> sound_prog c None (Ret out) w2" by (simp add: guar_def)
qed

lemma admin_safe:
  "sound_prog c None (catalog_request createProduct r) w"
  "sound_prog c None (catalog_request (\<lambda>pg random. addStock pg) r) w"
proof -
  show "sound_prog c None (catalog_request createProduct r) w"
  proof (rule catalog_request_safe)
    fix pg random db assume "catalog_inv db"
    then show "catalog_inv (snd (createProduct pg random r db))
        \<and> dom (products db) \<subseteq> dom (products (snd (createProduct pg random r db)))
        \<and> reservations (snd (createProduct pg random r db)) = reservations db"
      using createProduct_tables [of pg random r db] catalog.exec_inv [of db "DoCreate p" pg for p]
        CreateProduct_products [of db] CreateProduct_reservations by fastforce
  qed
  show "sound_prog c None (catalog_request (\<lambda>pg random. addStock pg) r) w"
  proof (rule catalog_request_safe)
    fix pg random db assume "catalog_inv db"
    then show "catalog_inv (snd (addStock pg r db))
        \<and> dom (products db) \<subseteq> dom (products (snd (addStock pg r db))) \<and> reservations (snd (addStock pg r db)) = reservations db"
      using addStock_tables [of pg r db] catalog.exec_inv [of db "DoAddStock p n" pg for p n]
        AddStock_products [of db] AddStock_reservations by fastforce
  qed
qed

section \<open>The system\<close>

text \<open>
  What may start at any time.  An order is created under an identifier of which no other program, no
  order and no hold knows: the random identifiers are taken to be new.  A topic delivers any of its
  messages, any number of times.
\<close>

inductive starts :: "(string \<Rightarrow> string option) \<Rightarrow> gateway \<Rightarrow> world \<Rightarrow> (string option, env, world) threads
    \<Rightarrow> string option \<Rightarrow> unit handler \<Rightarrow> bool" for c gateway w ts where
  starts_order: "newUUID random = u \<Longrightarrow> c u = Some u \<Longrightarrow> Some u \<notin> fst ` set ts \<Longrightarrow> ords w u = None
     \<Longrightarrow> (\<And>p. res w u p = None) \<Longrightarrow> starts c gateway w ts (Some u) (void (createOrder random r))"
| starts_charge: "starts c gateway w ts None (void (charge gateway r))"
| starts_product: "starts c gateway w ts None (void (catalog_request createProduct r))"
| starts_stock: "starts c gateway w ts None (void (catalog_request (\<lambda>pg random. addStock pg) r))"
| starts_created: "(key, ev) \<in> set (w_topics w TopicOrderCreated)
     \<Longrightarrow> starts c gateway w ts None (void (HandleOrderCreated gateway cid ev))"
| starts_succeeded: "(key, ev) \<in> set (w_topics w TopicPaymentSucceeded)
     \<Longrightarrow> starts c gateway w ts None (void (HandlePaymentSucceeded cid ev))"
| starts_failed: "(key, ev) \<in> set (w_topics w TopicPaymentFailed)
     \<Longrightarrow> starts c gateway w ts None (void (HandlePaymentFailed cid ev))"

text \<open>The databases read identifiers as \<open>c\<close> does.\<close>

abbreviation reads_as :: "(string \<Rightarrow> string option) \<Rightarrow> env \<Rightarrow> bool" where
  "reads_as c e \<equiv> canon (e_pg e) = c"

lemma starts_safe:
  assumes "uuid_type c" and "world_inv c w" and "starts c gateway w ts ow p"
  shows "sound_prog c ow p w"
  using assms(3)
proof cases
  case (starts_order random u r)
  then show ?thesis using createOrder_safe [OF assms(2)] assms(1) by simp
qed (use assms(2) charge_safe admin_safe HandleOrderCreated_safe HandlePaymentSucceeded_safe HandlePaymentFailed_safe
      in auto)

lemma starts_alone: "starts c gateway w ts ow p \<Longrightarrow> ow \<noteq> None \<Longrightarrow> ow \<notin> fst ` set ts"
  by (cases rule: starts.cases) auto

text \<open>A reading of identifiers with \<open>uuid_type\<close>, and a plain one otherwise, so that the contract holds of every reading.\<close>

definition readings :: "(string \<Rightarrow> string option) \<Rightarrow> string \<Rightarrow> string option" where
  "readings c = (if uuid_type c then c else (\<lambda>s. if s = [] then None else Some s))"

lemma readings_type: "uuid_type (readings c)" "uuid_type c \<Longrightarrow> readings c = c"
  by (simp_all add: readings_def uuid_type_def)

interpretation saga: rely_guarantee "world_inv (readings c)" rely guar "reads_as (readings c)" "\<lambda>ow. ow \<noteq> None" "starts (readings c) gateway"
  for c gateway
proof unfold_locales
  show "rely o2 a b" if "o1 \<noteq> o2 \<or> \<not> o1 \<noteq> None" and "guar o1 a b" for o1 o2 a b
    using that guar_rely' [of o1 o2 a b] by blast
qed (use rely_refl' rely_trans' starts_safe [OF readings_type(1)] starts_alone in blast)+

definition empty_world :: world where
  "empty_world = \<lparr>w_catalog = empty_catalog, w_orders = empty_orders, w_payments = Map.empty, w_topics = (\<lambda>_. []),
     w_charges = [], w_shipped = Map.empty, w_direct = {}\<rparr>"

lemma empty_world_inv: "world_inv c empty_world"
  using empty_catalog_inv empty_orders_inv
  by (simp add: world_inv_def stores_inv_def events_inv_def status_inv_def holds_inv_def charges_inv_def empty_world_def
      payments_inv_def published_def empty_orders_def)

lemma reachable_inv:
  assumes "uuid_type c" and "reaches (starts c gateway) (reads_as c) (empty_world, []) (w, ts)"
  shows "world_inv c w"
  using saga.invariant [of c gateway empty_world w ts] assms empty_world_inv by (simp add: readings_type)

text \<open>What the invariant says of a settled order.\<close>

lemma settled_world:
  assumes "world_inv c w" and "ords w u = Some row"
  shows "row_status row = StatusConfirmed \<Longrightarrow> paid w u"
    and "row_status row = StatusConfirmed \<Longrightarrow> itms w u p = Some (q, cents) \<Longrightarrow> w_shipped w (u, p) = Some q"
    and "row_status row = StatusCancelled \<Longrightarrow> declined w u"
    and "row_status row = StatusCancelled \<Longrightarrow> w_shipped w (u, p) = None"
    and "row_status row \<noteq> StatusPending \<Longrightarrow> res w u p = None"
    and "w_shipped w (u, p) \<noteq> None \<Longrightarrow> paid w u"
proof -
  note inv = world_invD [OF assms(1)]
  note st = inv(12) [OF assms(2)] and ca = inv(13) [OF assms(2)] and no = inv(14) [OF assms(2)]
  show "row_status row = StatusConfirmed \<Longrightarrow> paid w u" "row_status row = StatusCancelled \<Longrightarrow> declined w u"
    "row_status row \<noteq> StatusPending \<Longrightarrow> res w u p = None" "w_shipped w (u, p) \<noteq> None \<Longrightarrow> paid w u"
    using st ca no inv(16) by blast+
  show "w_shipped w (u, p) = Some q" if "row_status row = StatusConfirmed" "itms w u p = Some (q, cents)"
    using inv(17) [of u p q cents] st [OF that(1)] no [of p] that not_paid_and_declined by auto
  show "w_shipped w (u, p) = None" if "row_status row = StatusCancelled"
    using inv(16) [of u p] ca [OF that] not_paid_and_declined by blast
qed

section \<open>What the saga guarantees\<close>


text \<open>
  C2.  The saga charges what was ordered.  In every reachable world a payment the saga recorded, rather
  than a client's own call of the payment endpoint, is to the order's owner, in its currency, and for its
  total, which is what its lines come to in 64-bit arithmetic.
\<close>

theorem saga_charges_the_order:
  assumes "uuid_type c" and "reaches (starts c gateway) (reads_as c) (empty_world, []) (w, ts)"
    and "w_payments w u = Some p" and "u \<notin> w_direct w"
  shows "\<exists>row. orders (w_orders w) u = Some row \<and> pay_UserID p = row_user row \<and> pay_Currency p = row_currency row
    \<and> pay_AmountCents p = row_total row
    \<and> row_total row = wrap64 (\<Sum>it\<leftarrow>items_of (w_orders w) u. i_UnitCents it * i_Quantity it)"
proof -
  note inv = world_invD [OF reachable_inv [OF assms(1,2)]]
  obtain row where "ords w u = Some row" "pay_AmountCents p = row_total row" "pay_Currency p = row_currency row"
    "pay_UserID p = row_user row"
    using inv(5) assms(3,4) unfolding charges_inv_def by blast
  then show ?thesis using inv(19) [of u row] by (auto simp: lines_total_def)
qed


end
