(* ===== verification/SagaProgress.thy ===== *)
theory SagaProgress
  imports SagaSystem
begin

text \<open>
  The saga makes progress: from any reachable world, an event handled while nothing is lost takes
  the order where the event says, whatever earlier attempts have left half done.
\<close>

text \<open>An environment in which every exchange and every round trip runs.\<close>

definition calm :: "(string \<Rightarrow> string option) \<Rightarrow> env \<Rightarrow> bool" where
  "calm c e \<longleftrightarrow> e_net e = Runs \<and> runs (e_pg e) \<and> canon (e_pg e) = c"

lemma calmD [simp]:
  "calm c e \<Longrightarrow> e_net e = Runs" "calm c e \<Longrightarrow> fates (e_pg e) i = Runs" "calm c e \<Longrightarrow> canon (e_pg e) = c"
  by (simp_all add: calm_def)

section \<open>Calls that run\<close>

lemma settle_call_runs:
  assumes "calm c e" and "action (e_pg e) u p (w_catalog w) = (Inr row, db)" and "u \<noteq> ''''" and "p \<noteq> ''''"
  shows "reservationCall (\<lambda>pg. reservationAction (action pg) msg) cid
           (JObj [(''order_id'', JStr u), (''product_id'', JStr p)]) e w = (Inr (), w\<lparr>w_catalog := db\<rparr>)"
  using assms by (simp add: reservationCall_def reservationAction_def DecodeJSON_def json_request_def reservationReply_def)

lemma reserve_call_runs:
  assumes "world_inv c w" and "calm c e" and "c u = Some u" and "c p = Some p" and "uuid_type c"
    and "res w u p = None" and "products (w_catalog w) p = Some row" and "0 < q" and "is_int4 q" and "q \<le> Available row"
  shows "CatalogClient_Reserve cid u p q e w = (Inr (), w\<lparr>w_catalog := take_hold (clock (e_pg e)) (u, p) q (w_catalog w)\<rparr>)"
proof -
  have ne: "u \<noteq> []" "p \<noteq> []" using assms(3-5) by (auto simp: uuid_type_def)
  have q: "is_int64 q" using assms(9) by (simp add: is_int4_def is_int64_def min_int64_def max_int64_def)
  have "\<exists>got. Reserve (e_pg e) u p q (w_catalog w) = (Inr got, take_hold (clock (e_pg e)) (u, p) q (w_catalog w))"
    using Reserve_runs [OF world_invD(6) [OF assms(1)], of "e_pg e" u u p p q] assms(2-4,6-10) by simp
  then show ?thesis using assms(2,8) ne q
    by (auto simp: CatalogClient_Reserve_def reservationCall_def reserve_def DecodeJSON_def json_request_def reservationReply_def)
qed

lemma commit_call_runs:
  assumes "world_inv c w" and "calm c e" and "c u = Some u" and "c p = Some p" and "uuid_type c"
    and "products (w_catalog w) p \<noteq> None"
  shows "fst (CatalogClient_Commit cid u p e w) = Inr ()"
proof -
  have "u \<noteq> ''''" "p \<noteq> ''''" using assms(3-5) by (auto simp: uuid_type_def)
  moreover obtain row where "products (end_hold True (clock (e_pg e)) (u, p) (w_catalog w)) p = Some row"
    using end_hold_products [of "w_catalog w" True "clock (e_pg e)" "(u, p)"] assms(6) by blast
  then have "Commit (e_pg e) u p (w_catalog w) = (Inr row, end_hold True (clock (e_pg e)) (u, p) (w_catalog w))"
    using Commit_runs [OF world_invD(6) [OF assms(1)], of "e_pg e" u u p p] assms(2-4) by simp
  ultimately show ?thesis
    using settle_call_runs [OF assms(2), of Commit u p w]
    by (simp add: CatalogClient_Commit_def commitReservation_def [abs_def] split: prod.splits)
qed

lemma release_call_runs:
  assumes "world_inv c w" and "calm c e" and "c u = Some u" and "c p = Some p" and "uuid_type c"
    and "products (w_catalog w) p \<noteq> None"
  shows "fst (CatalogClient_Release cid u p e w) = Inr ()"
proof -
  have "u \<noteq> ''''" "p \<noteq> ''''" using assms(3-5) by (auto simp: uuid_type_def)
  moreover obtain row where "products (end_hold False (clock (e_pg e)) (u, p) (w_catalog w)) p = Some row"
    using end_hold_products [of "w_catalog w" False "clock (e_pg e)" "(u, p)"] assms(6) by blast
  then have "Release (e_pg e) u p (w_catalog w) = (Inr row, end_hold False (clock (e_pg e)) (u, p) (w_catalog w))"
    using Release_runs [OF world_invD(6) [OF assms(1)], of "e_pg e" u u p p] assms(2-4) by simp
  ultimately show ?thesis
    using settle_call_runs [OF assms(2), of Release u p w]
    by (simp add: CatalogClient_Release_def release_def [abs_def])
qed

text \<open>Going through the items: every call succeeds, the order's row is not touched.\<close>

lemma run_items:
  assumes "world_inv c w" and "published w u" and "due w u" and "\<And>it. it \<in> set its \<Longrightarrow> itms w u (i_ProductID it) \<noteq> None"
    and act: "\<And>w e p out w2. world_inv c w \<Longrightarrow> published w u \<Longrightarrow> due w u \<Longrightarrow> calm c e \<Longrightarrow> itms w u p \<noteq> None
      \<Longrightarrow> act p e w = (out, w2) \<Longrightarrow> out = Inr () \<and> world_inv c w2 \<and> evolves w w2 \<and> w_orders w2 = w_orders w"
    and stays: "\<And>w w2. evolves w w2 \<Longrightarrow> due w u \<Longrightarrow> due w2 u"
    and loop: "\<And>k. items [] k = k" "\<And>it its k. items (it # its) k = call (act (i_ProductID it))
      (\<lambda>out. case out of Inl err \<Rightarrow> Ret (Inl (wrap it err)) | Inr _ \<Rightarrow> items its k)"
    and "\<And>i. calm c (es i)"
  shows "\<exists>w2. run (items its k :: (saga_error, unit) result handler) es w = run k (\<lambda>i. es (i + length its)) w2
    \<and> world_inv c w2 \<and> evolves w w2 \<and> w_orders w2 = w_orders w"
  using assms(1-4) assms(9)
proof (induction its arbitrary: w es)
  case Nil
  then show ?case using evolves_refl [of w] loop(1) by auto
next
  case (Cons it its)
  obtain out w1 where f: "act (i_ProductID it) (es 0) w = (out, w1)" by force
  have st: "out = Inr () \<and> world_inv c w1 \<and> evolves w w1 \<and> w_orders w1 = w_orders w"
    by (rule act [OF Cons.prems(1-3,5) _ f]) (use Cons.prems(4) in simp)
  have "\<exists>w2. run (items its k) (\<lambda>i. es (Suc i)) w1 = run k (\<lambda>i. es (Suc (i + length its))) w2
      \<and> world_inv c w2 \<and> evolves w1 w2 \<and> w_orders w2 = w_orders w1"
    using Cons.IH [of w1 "\<lambda>i. es (Suc i)"] st stays [of w w1] Cons.prems(2-5) evolvesD(8) [of w w1 u] by simp
  then obtain w2 where w2: "run (items its k) (\<lambda>i. es (Suc i)) w1 = run k (\<lambda>i. es (Suc (i + length its))) w2"
    "world_inv c w2" "evolves w1 w2" "w_orders w2 = w_orders w1" by blast
  have "run (items (it # its) k) es w = run (items its k) (\<lambda>i. es (Suc i)) w1"
    using st by (simp add: loop(2) run_call f)
  then show ?case using w2 st evolves_trans by (intro exI [of _ w2]) auto
qed

lemma UpdateStatus_runs:
  assumes "runs pg" and "canon pg oid = Some u" and "terminal st" and "text_ok msg"
    and "orders db u = Some row" and "row_status row = StatusPending"
  shows "\<exists>got. UpdateStatus pg oid st msg db = (Inr got, set_status (clock pg) u st (if msg \<noteq> [] then Some msg else None) db)"
proof -
  define reason where "reason = (if msg \<noteq> [] then Some msg else None)"
  have upd: "update_status pg oid st reason db = (Inr 1, set_status (clock pg) u st reason db)"
    using assms(2,4-6) by (auto simp: update_status_Inr reason_def)
  show ?thesis using assms upd
    by (auto simp: UpdateStatus_def reason_def [symmetric] store_simps OrderByID_runs set_status_def split: option.splits)
qed

section \<open>Events that are handled\<close>

lemma order_items_ready:
  assumes "world_inv c w" and "uuid_type c" and "itms w u p \<noteq> None" and "ords w u \<noteq> None"
  shows "c u = Some u" "c p = Some p" "products (w_catalog w) p \<noteq> None"
  using world_invD(9,10,18) [OF assms(1)] assms(3,4) by blast+

text \<open>Reading the order, going through its items, setting its status: what both handlers do.\<close>

lemma run_settling:
  assumes I: "world_inv c w" and ut: "uuid_type c" and pub: "published w u" and due: "due w u"
    and row: "ords w u = Some row" "row_status row = StatusPending"
    and st: "terminal st" "text_ok msg" and es: "\<And>i. calm c (es i)"
    and act: "\<And>w e p out w2. world_inv c w \<Longrightarrow> published w u \<Longrightarrow> due w u \<Longrightarrow> calm c e \<Longrightarrow> itms w u p \<noteq> None
      \<Longrightarrow> act p e w = (out, w2) \<Longrightarrow> out = Inr () \<and> world_inv c w2 \<and> evolves w w2 \<and> w_orders w2 = w_orders w"
    and stays: "\<And>w w2. evolves w w2 \<Longrightarrow> due w u \<Longrightarrow> due w2 u"
    and loop: "\<And>k. items u [] k = k" "\<And>it its k. items u (it # its) k = call (act (i_ProductID it))
      (\<lambda>out. case out of Inl err \<Rightarrow> Ret (Inl (wrap it err)) | Inr _ \<Rightarrow> items u its k)"
    and rest: "\<And>ord. rest (Inr ord) = items (o_ID ord) (o_Items ord)
      (call (orders_write (\<lambda>pg. UpdateStatus pg (o_ID ord) st msg)) (k :: _ \<Rightarrow> (saga_error, unit) result handler))"
    and k: "\<And>x. k (Inr x) = Ret (Inr ())"
  shows "\<exists>w' row'. run (call (orders_read (\<lambda>pg. OrderByID pg 0 u)) rest) es w = (Inr (), w')
    \<and> ords w' u = Some row' \<and> row_status row' = st"
proof -
  have cu: "c u = Some u" using world_invD(9) [OF I] row(1) by blast
  have E [simp]: "canon (e_pg (es i)) = c" "fates (e_pg (es i)) j = Runs" for i j using calmD [OF es] by simp_all
  define ord where "ord = (order_of_row u row)\<lparr>o_Items := items_of (w_orders w) u\<rparr>"
  have got: "OrderByID (e_pg (es 0)) 0 u (w_orders w) = Inr ord"
    using OrderByID_runs [of "e_pg (es 0)" u u 0 "w_orders w"] cu row by (simp add: ord_def)
  have id: "o_ID ord = u" "o_Items ord = items_of (w_orders w) u" by (simp_all add: ord_def order_of_row_def)
  define finish where "finish = call (orders_write (\<lambda>pg. UpdateStatus pg u st msg)) k"
  have "\<exists>w2. run (items u (o_Items ord) finish) (\<lambda>i. es (Suc i)) w
      = run finish (\<lambda>i. es (Suc (i + length (o_Items ord)))) w2
    \<and> world_inv c w2 \<and> evolves w w2 \<and> w_orders w2 = w_orders w"
    by (rule run_items [where due = due and act = act and items = "items u" and wrap = wrap, OF I pub due _ act stays loop])
       (use es items_of_sound [OF world_invD(7) [OF I]] id in auto)
  then obtain w2 where w2: "run (items u (o_Items ord) finish) (\<lambda>i. es (Suc i)) w
      = run finish (\<lambda>i. es (Suc (i + length (o_Items ord)))) w2" "w_orders w2 = w_orders w" by blast
  define pg where "pg = e_pg (es (Suc (length (o_Items ord))))"
  define reason where "reason = (if msg \<noteq> [] then Some msg else None)"
  obtain x where us: "UpdateStatus pg u st msg (w_orders w) = (Inr x, set_status (clock pg) u st reason (w_orders w))"
    using UpdateStatus_runs [of pg u u st msg "w_orders w" row] cu row st by (auto simp: pg_def reason_def)
  have "run (call (orders_read (\<lambda>pg. OrderByID pg 0 u)) rest) es w = run (items u (o_Items ord) finish) (\<lambda>i. es (Suc i)) w"
    by (simp add: run_call orders_read_def got rest finish_def id)
  also have "\<dots> = (Inr (), w2\<lparr>w_orders := set_status (clock pg) u st reason (w_orders w)\<rparr>)"
    by (simp only: w2(1)) (simp add: finish_def run_call orders_write_def w2(2) pg_def [symmetric] us k)
  finally show ?thesis using row(1) by (simp add: set_status_def)
qed

lemma run_payment_succeeded:
  assumes I: "world_inv c w" and ut: "uuid_type c" and ev: "(key, ev) \<in> set (w_topics w TopicPaymentSucceeded)"
    and ps: "Decode unmarshal_PaymentSucceeded TypePaymentSucceeded ev = Inr ps" and u: "u = ps_OrderID ps"
    and row: "ords w u = Some row" "row_status row = StatusPending" and es: "\<And>i. calm c (es i)"
  shows "\<exists>w' row'. run (HandlePaymentSucceeded cid ev) es w = (Inr (), w')
    \<and> ords w' u = Some row' \<and> row_status row' = StatusConfirmed"
proof -
  have ok: "paid w u" "published w u" using world_invD(2) [OF I] ev ps u by (auto simp: events_inv_def succeeded_ok_def)
  have act: "out = Inr () \<and> world_inv c w2 \<and> evolves w1 w2 \<and> w_orders w2 = w_orders w1"
    if a: "world_inv c w1" "published w1 u" "paid w1 u" "calm c e" "itms w1 u p \<noteq> None"
      and f: "CatalogClient_Commit cid u p e w1 = (out, w2)" for w1 e p out w2
  proof -
    note r = order_items_ready [OF a(1) ut a(5) world_invD(11) [OF a(1,2)]]
    show ?thesis
      using commit_call [OF a(1) calmD(3) [OF a(4)] r(1,2) a(2,3) f] commit_call_runs [OF a(1,4) r(1,2) ut r(3), of cid] f
        client_Commit_outcome [OF f world_invD(6) [OF a(1)]] by (auto simp: guar_def)
  qed
  show ?thesis
    unfolding HandlePaymentSucceeded_def ps sum.case u [symmetric]
    by (rule run_settling [where due = paid and act = "CatalogClient_Commit cid u" and items = "commit_items cid"
          and wrap = "\<lambda>it. CommittingReservation (i_ProductID it)" and msg = "''''"
          and k = "\<lambda>upd. case upd of Inl (ErrInvalidTransition _ _) \<Rightarrow> Ret (Inr ())
            | Inl err \<Rightarrow> Ret (Inl (ConfirmingOrder err)) | Inr _ \<Rightarrow> Ret (Inr ())", OF I ut ok(2,1) row _ _ es act])
       (simp_all add: text_ok_def evolvesD(6))
qed

lemma run_payment_failed:
  assumes I: "world_inv c w" and ut: "uuid_type c" and ev: "(key, ev) \<in> set (w_topics w TopicPaymentFailed)"
    and pf: "Decode unmarshal_PaymentFailed TypePaymentFailed ev = Inr pf" and u: "u = pf_OrderID pf"
    and row: "ords w u = Some row" "row_status row = StatusPending" and es: "\<And>i. calm c (es i)"
  shows "\<exists>w' row'. run (HandlePaymentFailed cid ev) es w = (Inr (), w')
    \<and> ords w' u = Some row' \<and> row_status row' = StatusCancelled"
proof -
  have ok: "declined w u" "published w u" "text_ok (pf_Reason pf)"
    using world_invD(2) [OF I] ev pf u by (auto simp: events_inv_def failed_ok_def)
  have act: "out = Inr () \<and> world_inv c w2 \<and> evolves w1 w2 \<and> w_orders w2 = w_orders w1"
    if a: "world_inv c w1" "published w1 u" "declined w1 u" "calm c e" "itms w1 u p \<noteq> None"
      and f: "CatalogClient_Release cid u p e w1 = (out, w2)" for w1 e p out w2
  proof -
    note r = order_items_ready [OF a(1) ut a(5) world_invD(11) [OF a(1,2)]]
    show ?thesis
      using release_call [OF a(1) calmD(3) [OF a(4)] r(1,2) a(2,3) f] release_call_runs [OF a(1,4) r(1,2) ut r(3), of cid] f
        client_Release_outcome [OF f world_invD(6) [OF a(1)]] by (auto simp: guar_def)
  qed
  have reason: "text_ok (if pf_Reason pf = '''' then ''payment failed'' else pf_Reason pf)"
    using ok(3) by (simp add: text_ok_def)
  show ?thesis
    unfolding HandlePaymentFailed_def pf sum.case u [symmetric] Let_def
    by (rule run_settling [where due = declined and act = "CatalogClient_Release cid u" and items = "release_items cid"
          and wrap = "\<lambda>it. ReleasingReservation (i_ProductID it)"
          and k = "\<lambda>upd. case upd of Inl (ErrInvalidTransition _ _) \<Rightarrow> Ret (Inr ())
            | Inl err \<Rightarrow> Ret (Inl (CancellingOrder err)) | Inr _ \<Rightarrow> Ret (Inr ())", OF I ut ok(2,1) row _ reason es act])
       (simp_all add: evolvesD(7))
qed

text \<open>An undisturbed run keeps the invariant and only moves forward.\<close>

lemma undisturbed:
  assumes "sound_prog c None p w" and "world_inv c w" and "\<And>i. calm c (es i)"
  shows "world_inv c (snd (run p es w)) \<and> evolves w (snd (run p es w))"
  by (rule run_safe [OF assms(1,2)]) (use assms(3) rely_refl' evolves_refl evolves_trans in \<open>auto simp: guar_def\<close>)

lemmas undisturbed_inv = undisturbed [THEN conjunct1]
lemmas undisturbed_evolves = undisturbed [THEN conjunct2]

end
