(* ===== verification/Scenario.thy ===== *)
theory Scenario
  imports SagaProgress
begin

text \<open>
  A checkout from an empty system, step by step: a product is created, an order placed and its event
  charged.  The worlds it passes through are where the theorems about reachable worlds are applied,
  and where the gaps of the design start from.
\<close>

definition plain :: "string \<Rightarrow> string option" where
  "plain s = (if s = [] then None else Some s)"

lemma plain_uuid_type: "uuid_type plain"
  by (simp add: uuid_type_def plain_def)

definition still :: "int \<Rightarrow> env" where
  "still n = \<lparr>e_net = Runs, e_pg = \<lparr>fates = (\<lambda>_. Runs), clock = n, canon = plain\<rparr>,
     e_bytes = replicate 16 (word_of_int n), e_now = n, e_path = Routed\<rparr>"

lemma still_calm: "calm plain (still n)"
  by (simp add: calm_def still_def)

lemma still_simps [simp]:
  "e_net (still n) = Runs" "fates (e_pg (still n)) i = Runs" "clock (e_pg (still n)) = n" "canon (e_pg (still n)) = plain"
  "e_bytes (still n) = replicate 16 (word_of_int n)" "e_now (still n) = n" "e_path (still n) = Routed"
  by (simp_all add: still_def)

lemma newUUID_nonempty [simp]: "newUUID b \<noteq> []" "[] \<noteq> newUUID b"
  by (simp_all add: newUUID_def Let_def)

lemma plain_simps [simp]: "plain (newUUID b) = Some (newUUID b)" "plain [] = None"
  by (simp_all add: plain_def)

definition post :: "string \<Rightarrow> json \<Rightarrow> request" where
  "post user j = \<lparr>header = (\<lambda>h. if h = ''X-User-ID'' then user else ''''), url_id = '''', query = (\<lambda>_. ''''),
     req_body = (Value j, End), correlation = ''cid''\<rparr>"

definition pid :: string where "pid = newUUID (replicate 16 1)"
definition oid :: string where "oid = newUUID (replicate 16 2)"

lemma ids [simp]: "pid \<noteq> []" "oid \<noteq> []" "plain pid = Some pid" "plain oid = Some oid"
  by (simp_all add: pid_def oid_def)

definition product_request :: "int \<Rightarrow> request" where
  "product_request price = post ''admin'' (JObj [(''sku'', JStr ''S''), (''name'', JStr ''N''), (''price_cents'', JInt price), (''stock'', JInt 10)])"

definition stocked :: "int \<Rightarrow> world" where
  "stocked price = empty_world\<lparr>w_catalog := \<lparr>products = [pid \<mapsto>
     \<lparr>p_ID = pid, p_SKU = ''S'', p_Name = ''N'', p_Description = '''', p_PriceCents = price, p_Currency = ''USD'',
      p_Stock = 10, p_Reserved = 0, p_CreatedAt = 1, p_UpdatedAt = 1\<rparr>], reservations = Map.empty\<rparr>\<rparr>"

lemma run_product:
  assumes "0 \<le> price" and "is_int64 price"
  shows "snd (run (catalog_request createProduct (product_request price)) (\<lambda>_. still 1) empty_world) = stocked price"
  using assms
  by (simp add: catalog_request_def run_call createProduct_def product_request_def post_def DecodeJSON_def
      decode_createProductRequest_def createProductRequest_fields_def field_simps_json TrimSpace_def ToUpper_def
      leading_space_def Let_def CreateProduct_def insert_product_def store_simps stocked_def empty_world_def empty_catalog_def
      pid_def row_ok_def row_in_range_def is_int4_def is_int64_def min_int64_def max_int64_def text_ok_def spaces_def)

definition order_request :: "int \<Rightarrow> request" where
  "order_request q = post ''u'' (JObj [(''items'', JArr [JObj [(''product_id'', JStr pid), (''quantity'', JInt q)]])])"

definition placed_event :: "int \<Rightarrow> int \<Rightarrow> Envelope" where
  "placed_event price q = NewEnvelope oid TypeOrderCreated ''cid'' 2 (marshal_OrderCreated
     \<lparr>oc_OrderID = oid, oc_UserID = ''u'', oc_AmountCents = wrap64 (price * q), oc_Currency = ''USD'',
      oc_Items = [\<lparr>ei_ProductID = pid, ei_Quantity = q\<rparr>]\<rparr>)"

definition placed :: "int \<Rightarrow> int \<Rightarrow> world" where
  "placed price q = (stocked price)\<lparr>
     w_catalog := take_hold 2 (oid, pid) q (w_catalog (stocked price)),
     w_orders := \<lparr>orders = [oid \<mapsto> \<lparr>row_user = ''u'', row_status = StatusPending, row_total = wrap64 (price * q),
         row_currency = ''USD'', row_reason = None, row_created = 2, row_updated = 2\<rparr>],
       order_items = [(oid, pid) \<mapsto> (q, price)]\<rparr>,
     w_topics := (\<lambda>_. [])(TopicOrderCreated := [(oid, placed_event price q)])\<rparr>"

lemma plain_canon [simp]: "plain s = Some u \<longleftrightarrow> s = u \<and> s \<noteq> []"
  by (auto simp: plain_def)

section \<open>Reaching the worlds\<close>

abbreviation reachable :: "gateway \<Rightarrow> world \<Rightarrow> bool" where
  "reachable gateway w \<equiv> reaches (starts plain gateway) (reads_as plain) (empty_world, []) (w, [])"

lemma stocked_reachable:
  assumes "0 \<le> price" and "is_int64 price"
  shows "reachable gateway (stocked price)"
  by (rule reaches_program [where start = "starts plain gateway", OF reaches_refl starts_product])
     (use run_product [OF assms] in simp_all)

lemma take_hold_stocked:
  "CatalogClient_Reserve ''cid'' oid pid q (still 2) (stocked price) =
     (Inr (), (stocked price)\<lparr>w_catalog := take_hold 2 (oid, pid) q (w_catalog (stocked price))\<rparr>)"
  if "0 \<le> price" "is_int64 price" "0 < q" "q \<le> 10"
  using reserve_call_runs [OF reachable_inv [OF plain_uuid_type stocked_reachable [OF that(1,2)]] still_calm, of oid pid _ q] that
  by (simp add: plain_uuid_type stocked_def is_int4_def Available_def)

definition draft :: "int \<Rightarrow> int \<Rightarrow> Order" where
  "draft price q = \<lparr>o_ID = oid, o_UserID = ''u'', o_Status = [], o_TotalCents = wrap64 (price * q), o_Currency = ''USD'',
     o_FailureReason = [], o_Items = [\<lparr>i_ProductID = pid, i_Quantity = q, i_UnitCents = price\<rparr>], o_CreatedAt = 0, o_UpdatedAt = 0\<rparr>"

lemma items_of_placed [simp]:
  "items_of (w_orders (placed price q)) oid = [\<lparr>i_ProductID = pid, i_Quantity = q, i_UnitCents = price\<rparr>]"
proof -
  have "{u. (oid, u) \<in> dom (order_items (w_orders (placed price q)))} = {pid}" by (auto simp: placed_def)
  then show ?thesis by (simp add: items_of_def) (simp add: placed_def)
qed

lemma placed_row: "orders (w_orders (placed price q)) oid = Some
  \<lparr>row_user = ''u'', row_status = StatusPending, row_total = wrap64 (price * q),
   row_currency = ''USD'', row_reason = None, row_created = 2, row_updated = 2\<rparr>"
  by (simp add: placed_def)

lemma create_draft:
  assumes "0 \<le> price" and "is_int64 price" and "0 < q" and "q \<le> 10" and "0 \<le> wrap64 (price * q)"
  shows "CreateOrder (e_pg (still 2)) (draft price q) empty_orders =
    (OrderByID (e_pg (still 2)) 4 oid (w_orders (placed price q)), w_orders (placed price q))"
  using assms
  by (simp add: CreateOrder_def store_simps insert_order_def draft_def insert_item_def empty_orders_def text_ok_def
      is_int4_def Let_def placed_def fun_eq_iff wrap64_range)

lemma run_record:
  assumes "0 \<le> price" and "is_int64 price" and "0 < q" and "q \<le> 10" and "0 \<le> wrap64 (price * q)"
    and "w = (stocked price)\<lparr>w_catalog := take_hold 2 (oid, pid) q (w_catalog (stocked price))\<rparr>" and "correlation r = ''cid''"
  shows "snd (run (record_order r reserved (draft price q)) (\<lambda>_. still 2) w) = placed price q"
proof -
  have "w_orders w = empty_orders" by (simp add: assms(6) stocked_def empty_world_def)
  moreover obtain ord where ord: "OrderByID (e_pg (still 2)) 4 oid (w_orders (placed price q)) = Inr ord"
      "o_ID ord = oid" "o_UserID ord = ''u''" "o_TotalCents ord = wrap64 (price * q)" "o_Currency ord = ''USD''"
      "o_Items ord = [\<lparr>i_ProductID = pid, i_Quantity = q, i_UnitCents = price\<rparr>]"
    using OrderByID_runs [of "e_pg (still 2)" oid oid 4 "w_orders (placed price q)"]
      placed_row [of price q] by (simp add: order_of_row_def)
  moreover have "newUUID (replicate 16 2) = oid" by (simp add: oid_def)
  ultimately show ?thesis using create_draft [OF assms(1-5)]
    by (simp add: record_order_def run_call orders_write_def PublishOrderCreated_def Publish_def Let_def placed_event_def
        assms(6,7) placed_def stocked_def empty_world_def)
qed

lemma order_program:
  assumes "0 < q" and "q \<le> 10"
  shows "createOrder (replicate 16 2) (order_request q)
    = price_items (order_request q) oid ''u'' [] 0 ''USD'' [\<lparr>or_ProductID = pid, or_Quantity = q\<rparr>]"
proof -
  have q: "is_int64 q" using assms by (simp add: is_int64_def min_int64_def max_int64_def)
  define r where "r = order_request q"
  have "createOrder (replicate 16 2) r = price_items r oid ''u'' [] 0 ''USD'' [\<lparr>or_ProductID = pid, or_Quantity = q\<rparr>]"
    using q assms(1)
    by (simp add: r_def createOrder_def order_request_def post_def DecodeJSON_def decode_createOrderRequest_def
        decode_orderItemRequest_def field_simps_json Subject_def maxItemsPerOrder_def Let_def oid_def)
  then show ?thesis by (simp add: r_def)
qed

lemma price_stocked:
  "CatalogClient_Product ''cid'' pid (still 2) (stocked price) =
     (Inr \<lparr>cp_ID = pid, cp_PriceCents = price, cp_Currency = ''USD'', cp_Available = 10\<rparr>, stocked price)"
  by (simp add: CatalogClient_Product_def json_request_def getProduct_def ProductByID_def select_product_def store_simps
      stocked_def product_toView_def WriteJSON_def Available_def wrap64_def)

lemma run_order:
  assumes "0 \<le> price" and "is_int64 price" and "0 < q" and "q \<le> 10" and "0 \<le> wrap64 (price * q)"
  shows "snd (run (createOrder (replicate 16 2) (order_request q)) (\<lambda>_. still 2) (stocked price)) = placed price q"
proof -
  have w: "wrap64 (wrap64 (price * q)) = wrap64 (price * q)" by (rule wrap64_id [OF wrap64_range])
  have cid: "correlation (order_request q) = ''cid''" by (simp add: order_request_def post_def)
  show ?thesis
    using run_record [OF assms refl cid, of "[pid]"]
    by (simp add: order_program [OF assms(3,4)] run_call cid price_stocked take_hold_stocked [OF assms(1-4)] w draft_def)
qed

lemma placed_reachable:
  assumes "0 \<le> price" and "is_int64 price" and "0 < q" and "q \<le> 10" and "0 \<le> wrap64 (price * q)"
  shows "reachable gateway (placed price q)"
proof (rule reaches_program [where start = "starts plain gateway" and ow = "Some oid", OF stocked_reachable [OF assms(1,2)]])
  show "starts plain gateway (stocked price) [] (Some oid) (void (createOrder (replicate 16 2) (order_request q)))"
    by (rule starts_order) (simp_all add: oid_def [symmetric], simp_all add: stocked_def empty_world_def empty_orders_def)
qed (use run_order [OF assms] in simp_all)

section \<open>The charge\<close>

definition payment_id :: string where "payment_id = newUUID (replicate 16 3)"

definition payment :: "int \<Rightarrow> int \<Rightarrow> string option \<Rightarrow> Payment" where
  "payment price q reply = (attempted oid ''u'' (wrap64 (price * q)) ''USD'' reply)\<lparr>pay_ID := payment_id, pay_CreatedAt := 3\<rparr>"

definition charged :: "int \<Rightarrow> int \<Rightarrow> string option \<Rightarrow> world" where
  "charged price q reply = (placed price q)\<lparr>
     w_payments := [oid \<mapsto> payment price q reply],
     w_charges := [(oid, wrap64 (price * q), ''USD'')],
     w_topics := (let (t, ev) = outcome_event ''cid'' (payment price q reply) (still 3) in
        (w_topics (placed price q))(t := [(oid, ev)]))\<rparr>"

lemma placed_decodes:
  assumes "0 < q" and "q \<le> 10"
  shows "Decode unmarshal_OrderCreated TypeOrderCreated (placed_event price q) = Inr
    \<lparr>oc_OrderID = oid, oc_UserID = ''u'', oc_AmountCents = wrap64 (price * q), oc_Currency = ''USD'',
     oc_Items = [\<lparr>ei_ProductID = pid, ei_Quantity = q\<rparr>]\<rparr>"
  using assms wrap64_range
  by (simp add: placed_event_def Decode_def NewEnvelope_def wf_OrderCreated_def is_int64_def [of q] min_int64_def max_int64_def)

lemma record_draft:
  assumes "0 \<le> wrap64 (price * q)" and "\<And>s. reply = Some s \<Longrightarrow> text_ok s"
  shows "RecordCharge (e_pg (still 3)) ((attempted oid ''u'' (wrap64 (price * q)) ''USD'' reply)\<lparr>pay_ID := payment_id\<rparr>) Map.empty
    = (Inr (payment price q reply), [oid \<mapsto> payment price q reply])"
  using assms wrap64_range
  by (cases reply)
     (simp_all add: RecordCharge_def insert_payment_def store_simps attempted_def payment_def payment_id_def Let_def text_ok_def)

lemma run_charge:
  assumes "0 < q" and "q \<le> 10" and "0 \<le> wrap64 (price * q)" and reply: "reply = gateway oid (wrap64 (price * q)) ''USD''"
    and "\<And>s. reply = Some s \<Longrightarrow> text_ok s"
  shows "snd (run (HandleOrderCreated gateway ''cid'' (placed_event price q)) (\<lambda>_. still 3) (placed price q)) = charged price q reply"
proof -
  have look: "PaymentByOrderID (e_pg (still 3)) oid Map.empty = Inl ErrPaymentNotFound"
    by (simp add: PaymentByOrderID_def select_payment_def store_simps)
  have empty: "w_payments (placed price q) = Map.empty" "w_charges (placed price q) = []" "w_direct (placed price q) = {}"
    by (simp_all add: placed_def stocked_def empty_world_def)
  have topics: "w_topics (placed price q) t = []" if "t \<noteq> TopicOrderCreated" for t using that by (simp add: placed_def)
  obtain t ev where ev: "outcome_event ''cid'' (payment price q reply) (still 3) = (t, ev)" by force
  have t: "t \<noteq> TopicOrderCreated" using ev by (auto simp: outcome_event_def split: if_splits)
  have id: "newUUID (replicate 16 3) = payment_id" "pay_OrderID (payment price q reply) = oid"
    by (simp_all add: payment_id_def payment_def attempted_def)
  show ?thesis
    unfolding HandleOrderCreated_def placed_decodes [OF assms(1,2)] sum.case
    by (simp add: run_call payments_read_def empty look Gateway_Charge_def reply [symmetric] record_charge_def id
        record_draft [OF assms(3,5)] publishOutcome_def Publish_def ev Let_def topics [OF t] charged_def)
qed

lemma charged_reachable:
  assumes "0 \<le> price" and "is_int64 price" and "0 < q" and "q \<le> 10" and "0 \<le> wrap64 (price * q)"
    and "reply = gateway oid (wrap64 (price * q)) ''USD''" and "\<And>s. reply = Some s \<Longrightarrow> text_ok s"
  shows "reachable gateway (charged price q reply)"
proof (rule reaches_program [where start = "starts plain gateway" and ow = None, OF placed_reachable [OF assms(1-5)]])
  show "starts plain gateway (placed price q) [] None (void (HandleOrderCreated gateway ''cid'' (placed_event price q)))"
    by (rule starts_created [where key = oid]) (simp add: placed_def)
  show "snd (run (HandleOrderCreated gateway ''cid'' (placed_event price q)) (\<lambda>_. still 3) (placed price q)) = charged price q reply"
    by (rule run_charge [where gateway = gateway, OF assms(3-6)]) (rule assms(7))
qed simp

section \<open>Two checkouts to their ends\<close>

definition approve :: gateway where "approve = (\<lambda>_ _ _. None)"
definition decline :: gateway where "decline = (\<lambda>_ _ _. Some ''card declined'')"

lemma small [simp]: "is_int64 500" "wrap64 1000 = 1000"
  by (simp_all add: wrap64_def is_int64_def min_int64_def max_int64_def)

definition approved_world :: world where "approved_world = charged 500 2 None"
definition declined_world :: world where "declined_world = charged 500 2 (Some ''card declined'')"

lemma approved_reachable: "reachable approve approved_world"
  unfolding approved_world_def by (rule charged_reachable) (simp_all add: approve_def)

lemma declined_reachable: "reachable decline declined_world"
  unfolding declined_world_def by (rule charged_reachable) (auto simp: decline_def text_ok_def)

definition approved_event :: Envelope where
  "approved_event = snd (outcome_event ''cid'' (payment 500 2 None) (still 3))"
definition declined_event :: Envelope where
  "declined_event = snd (outcome_event ''cid'' (payment 500 2 (Some ''card declined'')) (still 3))"

definition approved_payload :: PaymentSucceeded where
  "approved_payload = \<lparr>ps_OrderID = oid, ps_PaymentID = payment_id, ps_AmountCents = 1000, ps_Currency = ''USD''\<rparr>"
definition declined_payload :: PaymentFailed where
  "declined_payload = \<lparr>pf_OrderID = oid, pf_Reason = ''card declined''\<rparr>"

lemma approved_event:
  "(oid, approved_event) \<in> set (w_topics approved_world TopicPaymentSucceeded)"
  "Decode unmarshal_PaymentSucceeded TypePaymentSucceeded approved_event = Inr approved_payload"
  by (simp_all add: approved_world_def charged_def approved_event_def outcome_event_def payment_def attempted_def
      Decode_def NewEnvelope_def approved_payload_def is_int64_def min_int64_def max_int64_def)

lemma declined_event:
  "(oid, declined_event) \<in> set (w_topics declined_world TopicPaymentFailed)"
  "Decode unmarshal_PaymentFailed TypePaymentFailed declined_event = Inr declined_payload"
  by (simp_all add: declined_world_def charged_def declined_event_def outcome_event_def payment_def attempted_def
      Decode_def NewEnvelope_def declined_payload_def)

lemma pending_rows:
  "orders (w_orders approved_world) oid = Some \<lparr>row_user = ''u'', row_status = StatusPending, row_total = 1000,
     row_currency = ''USD'', row_reason = None, row_created = 2, row_updated = 2\<rparr>"
  "orders (w_orders declined_world) oid = Some \<lparr>row_user = ''u'', row_status = StatusPending, row_total = 1000,
     row_currency = ''USD'', row_reason = None, row_created = 2, row_updated = 2\<rparr>"
  "order_items (w_orders approved_world) (oid, pid) = Some (2, 500)"
  "order_items (w_orders declined_world) (oid, pid) = Some (2, 500)"
  using placed_row [of 500 2] by (simp_all add: approved_world_def declined_world_def charged_def) (simp_all add: placed_def)

section \<open>Progress\<close>





section \<open>Witnesses of the properties of reachable worlds\<close>

lemma confirmed_reachable:
  "\<exists>w row. reachable approve w \<and> evolves approved_world w \<and> orders (w_orders w) oid = Some row \<and> row_status row = StatusConfirmed"
proof -
  note I = reachable_inv [OF plain_uuid_type approved_reachable]
  obtain w row where w: "run (HandlePaymentSucceeded ''cid'' approved_event) (\<lambda>_. still 4) approved_world = (Inr (), w)"
      "orders (w_orders w) oid = Some row" "row_status row = StatusConfirmed"
    using run_payment_succeeded [where cid = "''cid''" and es = "\<lambda>_. still 4", OF I plain_uuid_type approved_event refl _ _ still_calm]
      pending_rows by (auto simp: approved_payload_def)
  have "reachable approve w"
  proof (rule reaches_program [where start = "starts plain approve" and ow = None and es = "\<lambda>_. still 4", OF approved_reachable])
    show "starts plain approve approved_world [] None (void (HandlePaymentSucceeded ''cid'' approved_event))"
      by (rule starts_succeeded [OF approved_event(1)])
  qed (use w(1) in simp_all)
  moreover have "evolves approved_world w"
    using undisturbed_evolves [where es = "\<lambda>_. still 4", OF HandlePaymentSucceeded_safe [OF I approved_event(1)] I still_calm]
      w(1) by (metis snd_conv)
  ultimately show ?thesis using w by blast
qed


theorem saga_charges_the_order_witness:
  "\<exists>p row. w_payments approved_world oid = Some p \<and> orders (w_orders approved_world) oid = Some row
     \<and> pay_AmountCents p = row_total row \<and> row_total row = 1000"
proof -
  have "w_payments approved_world oid = Some (payment 500 2 None)" and "oid \<notin> w_direct approved_world"
    by (simp_all add: approved_world_def charged_def) (simp add: placed_def stocked_def empty_world_def)
  from saga_charges_the_order [OF plain_uuid_type approved_reachable this] this(1) pending_rows show ?thesis by auto
qed


end
