(* ===== verification/SagaGaps.thy ===== *)
theory SagaGaps
  imports Scenario
begin

text \<open>
  What the services do not guarantee, each shown by a concrete run: where a comment or the design
  says more than the code keeps.
\<close>

section \<open>Paying too little\<close>

definition underpaid_request :: request where
  "underpaid_request = post ''eve'' (JObj [(''order_id'', JStr oid), (''amount_cents'', JInt 1), (''currency'', JStr ''USD'')])"

definition token_payment :: Payment where
  "token_payment = (attempted oid ''eve'' 1 ''USD'' None)\<lparr>pay_ID := payment_id, pay_CreatedAt := 3\<rparr>"

definition underpaid :: world where
  "underpaid = (placed 500 2)\<lparr>w_payments := [oid \<mapsto> token_payment], w_charges := [(oid, 1, ''USD'')], w_direct := {oid}\<rparr>"

lemma no_payments_yet [simp]:
  "w_payments (placed price q) = Map.empty" "w_charges (placed price q) = []" "w_direct (placed price q) = {}"
  by (simp_all add: placed_def stocked_def empty_world_def)

lemma payment_lookups [simp]:
  "PaymentByOrderID (e_pg (still n)) oid Map.empty = Inl ErrPaymentNotFound"
  "PaymentByOrderID (e_pg (still n)) oid [oid \<mapsto> p] = Inr p"
  by (simp_all add: PaymentByOrderID_def select_payment_def store_simps)

lemma run_underpaid:
  "snd (run (charge approve underpaid_request) (\<lambda>_. still 3) (placed 500 2)) = underpaid"
proof -
  have usd: "ToUpper (TrimSpace ''USD'') = ''USD''" by code_simp
  have rec: "RecordCharge (e_pg (still 3)) ((attempted oid ''eve'' 1 ''USD'' None)\<lparr>pay_ID := payment_id\<rparr>) Map.empty
      = (Inr token_payment, [oid \<mapsto> token_payment])"
    by (simp add: RecordCharge_def insert_payment_def store_simps attempted_def token_payment_def payment_id_def Let_def
        text_ok_def is_int64_def min_int64_def max_int64_def)
  have id: "newUUID (replicate 16 3) = payment_id" by (simp add: payment_id_def)
  show ?thesis
    by (simp add: charge_def underpaid_request_def post_def Subject_def DecodeJSON_def decode_chargeRequest_def field_simps_json
        is_int64_def min_int64_def max_int64_def usd Let_def run_call payments_read_def Gateway_Charge_def approve_def
        record_charge_def id rec underpaid_def)
qed

lemma underpaid_reachable: "reachable approve underpaid"
proof (rule reaches_program [where start = "starts plain approve" and ow = None and es = "\<lambda>_. still 3", OF placed_reachable])
  show "starts plain approve (placed 500 2) [] None (void (charge approve underpaid_request))" by (rule starts_charge)
qed (simp_all add: run_underpaid)

definition token_event :: Envelope where
  "token_event = snd (outcome_event ''cid'' token_payment (still 4))"

definition announced :: world where
  "announced = underpaid\<lparr>w_topics := (w_topics underpaid)(TopicPaymentSucceeded := [(oid, token_event)])\<rparr>"

lemma placed_topics [simp]: "t \<noteq> TopicOrderCreated \<Longrightarrow> w_topics (placed price q) t = []"
  by (simp add: placed_def)

lemma run_announced:
  "snd (run (HandleOrderCreated approve ''cid'' (placed_event 500 2)) (\<lambda>_. still 4) underpaid) = announced"
proof -
  have "outcome_event ''cid'' token_payment (still 4) = (TopicPaymentSucceeded, token_event)" "pay_OrderID token_payment = oid"
    by (simp_all add: outcome_event_def token_payment_def attempted_def token_event_def)
  moreover have "w_payments underpaid = [oid \<mapsto> token_payment]" "w_topics underpaid TopicPaymentSucceeded = []"
    by (simp_all add: underpaid_def)
  ultimately show ?thesis
    unfolding HandleOrderCreated_def placed_decodes [of 2, simplified] sum.case
    by (simp add: run_call payments_read_def publishOutcome_def Publish_def Let_def announced_def)
qed

lemma announced_reachable: "reachable approve announced"
proof (rule reaches_program [where start = "starts plain approve" and ow = None and es = "\<lambda>_. still 4", OF underpaid_reachable])
  show "starts plain approve underpaid [] None (void (HandleOrderCreated approve ''cid'' (placed_event 500 2)))"
    by (rule starts_created [where key = oid]) (simp add: underpaid_def placed_def)
qed (simp_all add: run_announced)

text \<open>
  C29.  The payment endpoint trusts its caller: it asks neither what an order costs nor whose it is, and the
  saga takes any recorded charge as the order's.  A stranger's payment of one cent confirms an
  order of 1000 cents.
\<close>

theorem one_cent_confirms:
  "\<exists>w row p. reaches (starts plain approve) (reads_as plain) (empty_world, []) (w, [])
     \<and> orders (w_orders w) oid = Some row \<and> row_status row = StatusConfirmed \<and> row_total row = 1000 \<and> row_user row = ''u''
     \<and> w_payments w oid = Some p \<and> pay_AmountCents p = 1 \<and> pay_UserID p = ''eve''"
proof -
  note I = reachable_inv [OF plain_uuid_type announced_reachable]
  have ev: "(oid, token_event) \<in> set (w_topics announced TopicPaymentSucceeded)" by (simp add: announced_def)
  have dec: "Decode unmarshal_PaymentSucceeded TypePaymentSucceeded token_event =
      Inr \<lparr>ps_OrderID = oid, ps_PaymentID = payment_id, ps_AmountCents = 1, ps_Currency = ''USD''\<rparr>"
    by (simp add: token_event_def outcome_event_def token_payment_def attempted_def Decode_def NewEnvelope_def
        is_int64_def min_int64_def max_int64_def)
  have row: "orders (w_orders announced) oid = Some \<lparr>row_user = ''u'', row_status = StatusPending, row_total = 1000,
     row_currency = ''USD'', row_reason = None, row_created = 2, row_updated = 2\<rparr>"
    using placed_row [of 500 2] by (simp add: announced_def underpaid_def)
  obtain w row where w: "run (HandlePaymentSucceeded ''cid'' token_event) (\<lambda>_. still 5) announced = (Inr (), w)"
      "orders (w_orders w) oid = Some row" "row_status row = StatusConfirmed"
    using run_payment_succeeded [where cid = "''cid''" and es = "\<lambda>_. still 5", OF I plain_uuid_type ev dec refl _ _ still_calm] row
    by auto
  have "reachable approve w"
  proof (rule reaches_program [where start = "starts plain approve" and ow = None and es = "\<lambda>_. still 5", OF announced_reachable])
    show "starts plain approve announced [] None (void (HandlePaymentSucceeded ''cid'' token_event))"
      by (rule starts_succeeded [OF ev])
  qed (use w(1) in simp_all)
  moreover have e: "evolves announced w"
    using undisturbed_evolves [where es = "\<lambda>_. still 5", OF HandlePaymentSucceeded_safe [OF I ev] I still_calm] w(1) by (metis snd_conv)
  have "w_payments announced oid = Some token_payment" by (simp add: announced_def underpaid_def)
  then have "w_payments w oid = Some token_payment" using evolvesD(2) [OF e] by (auto simp: map_le_def dom_def)
  moreover have "row_total row = 1000 \<and> row_user row = ''u''"
    using evolvesD(1) [OF e] row w(2) unfolding orders_evolves_def by fastforce
  ultimately show ?thesis using w(2,3) by (auto simp: token_payment_def attempted_def)
qed

section \<open>Charging twice\<close>

text \<open>An environment whose database refuses every statement.\<close>

definition db_down :: "int \<Rightarrow> env" where
  "db_down n = (still n)\<lparr>e_pg := \<lparr>fates = (\<lambda>_. Refused), clock = n, canon = plain\<rparr>\<rparr>"

definition charged_in_vain :: world where
  "charged_in_vain = (placed 500 2)\<lparr>w_charges := [(oid, 1000, ''USD'')]\<rparr>"

lemma run_in_vain:
  "snd (run (HandleOrderCreated approve ''cid'' (placed_event 500 2)) (\<lambda>i. if i = 2 then db_down 3 else still 3) (placed 500 2))
     = charged_in_vain"
proof -
  have "on_pool (fates (e_pg (db_down 3)) 0) st db = (Inl Unreachable, db)" for st :: "(payments_db, Payment) stmt" and db
    by (simp add: db_down_def on_pool_def)
  then have "RecordCharge (e_pg (db_down 3)) p db = (Inl (PaymentWrapped ''recording charge'' Unreachable), db)" for p db
    by (simp add: RecordCharge_def)
  then show ?thesis
    unfolding HandleOrderCreated_def placed_decodes [of 2, simplified] sum.case
    by (simp add: run_call payments_read_def Gateway_Charge_def approve_def record_charge_def Let_def charged_in_vain_def)
qed

lemma in_vain_reachable: "reachable approve charged_in_vain"
proof (rule reaches_program [where start = "starts plain approve" and ow = None and es = "\<lambda>i. if i = 2 then db_down 3 else still 3", OF placed_reachable])
  show "starts plain approve (placed 500 2) [] None (void (HandleOrderCreated approve ''cid'' (placed_event 500 2)))"
    by (rule starts_created [where key = oid]) (simp add: placed_def)
  show "reads_as plain (if i = 2 then db_down 3 else still 3)" for i :: nat by (simp add: db_down_def)
qed (simp_all add: run_in_vain)


section \<open>Stock held by nobody\<close>

definition lost_reply :: "int \<Rightarrow> env" where
  "lost_reply n = (still n)\<lparr>e_net := Unanswered\<rparr>"

lemma reservationCall_lost:
  "reservationCall endpoint cid payload (e\<lparr>e_net := Unanswered\<rparr>) w =
     (Inl CatalogFailed, snd (reservationCall endpoint cid payload (e\<lparr>e_net := Runs\<rparr>) w))"
  by (simp add: reservationCall_def Let_def split: prod.splits)

definition stranded :: world where
  "stranded = (stocked 500)\<lparr>w_catalog := take_hold 2 (oid, pid) 2 (w_catalog (stocked 500))\<rparr>"

lemma run_stranded:
  "run (createOrder (replicate 16 2) (order_request 2)) (\<lambda>i. if i = 1 then lost_reply 2 else still 2) (stocked 500)
     = (WriteError (order_request 2) 502 ''could not reserve stock'', stranded)"
proof -
  have runs: "(still 2)\<lparr>e_net := Runs\<rparr> = still 2" by (simp add: still_def)
  have "CatalogClient_Reserve ''cid'' oid pid 2 (lost_reply 2) (stocked 500) = (Inl CatalogFailed, stranded)"
    using take_hold_stocked [of 500 2]
    by (simp add: lost_reply_def CatalogClient_Reserve_def reservationCall_lost stranded_def runs)
  moreover have "CatalogClient_Product ''cid'' pid (still 2) (stocked 500) =
      (Inr \<lparr>cp_ID = pid, cp_PriceCents = 500, cp_Currency = ''USD'', cp_Available = 10\<rparr>, stocked 500)"
    by (rule price_stocked)
  moreover have "correlation (order_request 2) = ''cid''" by (simp add: order_request_def post_def)
  ultimately show ?thesis using order_program [of 2] by (simp add: run_call)
qed


section \<open>Totals that wrap around\<close>

text \<open>
  The total of an order is a 64-bit sum of 64-bit products and wraps around: four pieces at
  \<open>2 ^ 62\<close> cents make an order whose total is zero.
\<close>

theorem total_wraps_to_zero:
  "\<exists>w row. reaches (starts plain approve) (reads_as plain) (empty_world, []) (w, [])
     \<and> orders (w_orders w) oid = Some row \<and> row_total row = 0 \<and> order_items (w_orders w) (oid, pid) = Some (4, 2 ^ 62)"
proof -
  have zero: "wrap64 (2 ^ 62 * 4) = 0" by (simp add: wrap64_def)
  have "reachable approve (placed (2 ^ 62) 4)"
    by (rule placed_reachable) (simp_all only: zero, simp_all add: is_int64_def min_int64_def max_int64_def)
  moreover have "order_items (w_orders (placed (2 ^ 62) 4)) (oid, pid) = Some (4, 2 ^ 62)" by (simp add: placed_def)
  ultimately show ?thesis using placed_row [of "2 ^ 62" 4] zero by (metis order_row.select_convs(3))
qed

section \<open>Reservations in the hands of clients\<close>

definition release_request :: request where
  "release_request = post ''eve'' (JObj [(''order_id'', JStr oid), (''product_id'', JStr pid)])"

definition released :: world where
  "released = snd (run (catalog_request (\<lambda>pg random. release pg) release_request) (\<lambda>_. still 4) approved_world)"

lemma approved_hold:
  "reservations (w_catalog approved_world) (oid, pid) = Some 2" "products (w_catalog approved_world) pid \<noteq> None"
  "w_shipped approved_world (oid, pid) = None"
  by (simp_all add: approved_world_def charged_def) (simp_all add: placed_def stocked_def take_hold_def empty_world_def)

lemma released_eq: "released = approved_world\<lparr>w_catalog := end_hold False 4 (oid, pid) (w_catalog approved_world)\<rparr>"
proof -
  note I = reachable_inv [OF plain_uuid_type approved_reachable]
  obtain row where "products (end_hold False 4 (oid, pid) (w_catalog approved_world)) pid = Some row"
    using end_hold_products [of "w_catalog approved_world" False 4 "(oid, pid)"] approved_hold(2) by blast
  then have "Release (e_pg (still 4)) oid pid (w_catalog approved_world)
      = (Inr row, end_hold False 4 (oid, pid) (w_catalog approved_world))"
    using Release_runs [OF world_invD(6) [OF I], of "e_pg (still 4)" oid oid pid pid] by simp
  then show ?thesis
    by (simp add: released_def catalog_request_def run_call release_def reservationAction_def DecodeJSON_def
        release_request_def post_def)
qed

text \<open>
  C35.  The reservation endpoints are open to every client the gateway lets in, for any order.  A stranger's
  release between the order and its payment gives the stock back, and the saga still confirms the
  order: paid, with nothing of it shipped.
\<close>

theorem stranger_releases_the_hold:
  "\<exists>w' row. run (HandlePaymentSucceeded ''cid'' approved_event) (\<lambda>_. still 5) released = (Inr (), w')
     \<and> orders (w_orders w') oid = Some row \<and> row_status row = StatusConfirmed
     \<and> order_items (w_orders w') (oid, pid) = Some (2, 500) \<and> w_shipped w' (oid, pid) = None"
proof -
  note I = reachable_inv [OF plain_uuid_type approved_reachable]
  let ?C = "end_hold False 4 (oid, pid) (w_catalog approved_world)"
  have inv: "catalog_inv ?C" by (rule end_hold_inv [OF world_invD(6) [OF I]])
  have none: "reservations ?C (oid, pid) = None" using end_hold_reservations [OF world_invD(6) [OF I] approved_hold(1)] by simp
  obtain row where row: "products ?C pid = Some row"
    using end_hold_products [of "w_catalog approved_world" False 4 "(oid, pid)"] approved_hold(2) by blast
  have same: "end_hold True 5 (oid, pid) ?C = ?C" using none by (simp add: end_hold_def split: option.splits)
  have "Commit (e_pg (still 5)) oid pid ?C = (Inr row, ?C)"
    using Commit_runs [OF inv, of "e_pg (still 5)" oid oid pid pid] row same by simp
  then have "reservationCall (\<lambda>pg. reservationAction (Commit pg) ''could not commit stock'') ''cid''
      (JObj [(''order_id'', JStr oid), (''product_id'', JStr pid)]) (still 5) released = (Inr (), released)"
    using settle_call_runs [OF still_calm, of Commit 5 oid pid released] by (simp add: released_eq)
  moreover have "ship (w_catalog released) (w_catalog released) (w_shipped released) = w_shipped released"
    by (rule ext) (auto simp: ship_def)
  ultimately have commit: "CatalogClient_Commit ''cid'' oid pid (still 5) released = (Inr (), released)"
    by (simp add: CatalogClient_Commit_def commitReservation_def [abs_def])
  have orders: "w_orders released = w_orders (placed 500 2)" by (simp add: released_eq approved_world_def charged_def)
  obtain got where upd: "UpdateStatus (e_pg (still 5)) oid StatusConfirmed '''' (w_orders (placed 500 2))
      = (Inr got, set_status 5 oid StatusConfirmed None (w_orders (placed 500 2)))"
    using UpdateStatus_runs [of "e_pg (still 5)" oid oid StatusConfirmed "''''" "w_orders (placed 500 2)"] placed_row
    by (auto simp: text_ok_def)
  have "OrderByID (e_pg (still 5)) 0 oid (w_orders (placed 500 2)) = Inr
      ((order_of_row oid (the (orders (w_orders (placed 500 2)) oid)))\<lparr>o_Items := [\<lparr>i_ProductID = pid, i_Quantity = 2, i_UnitCents = 500\<rparr>]\<rparr>)"
    using OrderByID_runs [of "e_pg (still 5)" oid oid 0 "w_orders (placed 500 2)"] placed_row by simp
  then have "run (HandlePaymentSucceeded ''cid'' approved_event) (\<lambda>_. still 5) released
      = (Inr (), released\<lparr>w_orders := set_status 5 oid StatusConfirmed None (w_orders (placed 500 2))\<rparr>)"
    unfolding HandlePaymentSucceeded_def approved_event(2) sum.case
    by (simp add: run_call orders_read_def orders_write_def orders approved_payload_def order_of_row_def commit upd)
  then show ?thesis using placed_row [of 500 2] approved_hold(3) pending_rows(3)
    by (simp add: set_status_def released_eq approved_world_def charged_def)
qed

end
