(* ===== verification/Http.thy ===== *)
theory Http
  imports Httpx Limiter
begin

text \<open>
  What the gateway and the middleware of \<open>pkg\<close> use of \<open>net/http\<close>: header maps with canonical names,
  requests with their context, response writers, handlers and middleware, \<open>http.Error\<close>,
  \<open>net.SplitHostPort\<close>.  A handler is a function of the request, the writer and the state it can
  reach; a middleware is a function from handlers to handlers.
\<close>

section \<open>Header maps\<close>

text \<open>
  A header map holds the values of each canonical name, oldest first; an absent name has none.
  Canonical names have a capital at the start and after each hyphen.  A name with a byte that no
  header name may hold is left as it is.
\<close>

type_synonym headers = "string \<Rightarrow> string list"

definition token_chars :: string where
  "token_chars = ''!#$%&'' @ [CHR 0x27] @ ''*+-.0123456789ABCDEFGHIJKLMNOPQRSTUVWXYZ^_`abcdefghijklmnopqrstuvwxyz|~''"

fun canonical_from :: "bool \<Rightarrow> string \<Rightarrow> string" where
  "canonical_from upper [] = []"
| "canonical_from upper (c # s) =
     (if upper then ascii_upper c else ascii_lower c) # canonical_from (c = CHR ''-'') s"

definition CanonicalHeaderKey :: "string \<Rightarrow> string" where
  "CanonicalHeaderKey s = (if list_all (\<lambda>c. c \<in> set token_chars) s then canonical_from True s else s)"

definition Header_Get :: "headers \<Rightarrow> string \<Rightarrow> string" where
  "Header_Get h k = (case h (CanonicalHeaderKey k) of [] \<Rightarrow> [] | v # _ \<Rightarrow> v)"

definition Header_Set :: "string \<Rightarrow> string \<Rightarrow> headers \<Rightarrow> headers" where
  "Header_Set k v h = h(CanonicalHeaderKey k := [v])"

definition Header_Del :: "string \<Rightarrow> headers \<Rightarrow> headers" where
  "Header_Del k h = h(CanonicalHeaderKey k := [])"

definition Header_Add :: "string \<Rightarrow> string \<Rightarrow> headers \<Rightarrow> headers" where
  "Header_Add k v h = h(CanonicalHeaderKey k := h (CanonicalHeaderKey k) @ [v])"

text \<open>The server reads header lines in order; it makes every name canonical.\<close>

definition read_headers :: "(string \<times> string) list \<Rightarrow> headers" where
  "read_headers ls = fold (\<lambda>(k, v). Header_Add k v) ls (\<lambda>_. [])"

lemma Header_Set_same [simp]: "Header_Get (Header_Set k v h) k = v"
  by (simp add: Header_Get_def Header_Set_def)

lemma Header_Set_apply [simp]:
  "Header_Set k v h j = (if j = CanonicalHeaderKey k then [v] else h j)"
  by (simp add: Header_Set_def)

lemma Header_Del_apply [simp]:
  "Header_Del k h j = (if j = CanonicalHeaderKey k then [] else h j)"
  by (simp add: Header_Del_def)

lemma Header_Add_apply [simp]:
  "Header_Add k v h j = (if j = CanonicalHeaderKey k then h j @ [v] else h j)"
  by (simp add: Header_Add_def)

lemma fold_Del_apply:
  "fold Header_Del ks h j = (if j \<in> CanonicalHeaderKey ` set ks then [] else h j)"
  by (induction ks arbitrary: h) auto

section \<open>Requests\<close>

text \<open>
  A request as the server hands it to the first handler, with the values its context carries.  The
  last three fields are what serving this request will observe: the instant the rate limiter reads,
  the bytes the random source yields, the time the inner handler takes.  The path is the one the
  router matches.
\<close>

record Claims = c_Subject :: string

record inbound =
  r_Method :: string
  r_Path :: string
  r_Host :: string
  r_TLS :: bool
  r_RemoteAddr :: string
  r_Header :: headers
  ctx_correlationID :: "string option"
  ctx_claims :: "Claims option"
  ctx_shared :: "string option"
  at_now :: time
  at_rand :: "8 word list"
  at_took :: duration

section \<open>Responses\<close>

text \<open>
  A response writer: the header map to be sent, the interim (1xx) responses sent, the final status
  with the headers as they were when it was sent, and the body.  \<open>w_recs\<close> are the recorders wrapped
  around it, innermost first; each sees every call made through it.
\<close>

datatype chunk =
    ErrorJSONBody string string
  | ObjectBody "(string \<times> string) list"
  | TextBody string

record statusRecorder =
  rec_status :: int
  wroteHeader :: bool

definition statusRecorder_WriteHeader :: "int \<Rightarrow> statusRecorder \<Rightarrow> statusRecorder" where
  "statusRecorder_WriteHeader code r =
     (if wroteHeader r then r else r\<lparr>rec_status := code, wroteHeader := True\<rparr>)"

definition statusRecorder_Write :: "statusRecorder \<Rightarrow> statusRecorder" where
  "statusRecorder_Write r =
     (if wroteHeader r then r else r\<lparr>rec_status := 200, wroteHeader := True\<rparr>)"

record writer =
  w_header :: headers
  w_interim :: "(int \<times> headers) list"
  w_sent :: "(int \<times> headers) option"
  w_body :: "chunk list"
  w_recs :: "statusRecorder list"

definition fresh_writer :: writer where
  "fresh_writer = \<lparr>w_header = (\<lambda>_. []), w_interim = [], w_sent = None, w_body = [], w_recs = []\<rparr>"

definition on_header :: "(headers \<Rightarrow> headers) \<Rightarrow> writer \<Rightarrow> writer" where
  "on_header f w = w\<lparr>w_header := f (w_header w)\<rparr>"

text \<open>
  \<open>WriteHeader\<close> of the server: the first final status fixes the response, a later one is ignored, an
  informational status (1xx but 101) is sent at once and fixes nothing.
\<close>

definition server_WriteHeader :: "int \<Rightarrow> writer \<Rightarrow> writer" where
  "server_WriteHeader code w =
     (if w_sent w \<noteq> None then w
      else if 100 \<le> code \<and> code \<le> 199 \<and> code \<noteq> 101
      then w\<lparr>w_interim := w_interim w @ [(code, w_header w)]\<rparr>
      else w\<lparr>w_sent := Some (code, w_header w)\<rparr>)"

definition WriteHeader :: "int \<Rightarrow> writer \<Rightarrow> writer" where
  "WriteHeader code w =
     server_WriteHeader code (w\<lparr>w_recs := map (statusRecorder_WriteHeader code) (w_recs w)\<rparr>)"

text \<open>The server sends status 200 before the first byte of a body that has no status yet.\<close>

definition Write :: "chunk \<Rightarrow> writer \<Rightarrow> writer" where
  "Write b w =
     (let w1 = w\<lparr>w_recs := map statusRecorder_Write (w_recs w)\<rparr>;
          w2 = server_WriteHeader 200 w1
      in w2\<lparr>w_body := w_body w2 @ [b]\<rparr>)"

text \<open>When the first handler returns, the server sends status 200 if nothing was sent.\<close>

definition finish :: "writer \<Rightarrow> int \<times> headers" where
  "finish w = (case w_sent w of None \<Rightarrow> (200, w_header w) | Some s \<Rightarrow> s)"

definition http_Error :: "string \<Rightarrow> int \<Rightarrow> writer \<Rightarrow> writer" where
  "http_Error msg code w =
     Write (TextBody msg) (WriteHeader code (on_header
       (\<lambda>h. Header_Set ''X-Content-Type-Options'' ''nosniff''
              (Header_Set ''Content-Type'' ''text/plain; charset=utf-8''
                (Header_Del ''Content-Length'' h))) w))"

lemma statusRecorder_sticky [simp]:
  "wroteHeader r \<Longrightarrow> statusRecorder_WriteHeader c r = r"
  "wroteHeader r \<Longrightarrow> statusRecorder_Write r = r"
  by (simp_all add: statusRecorder_WriteHeader_def statusRecorder_Write_def)

section \<open>Handlers\<close>

type_synonym 's http_handler = "inbound \<Rightarrow> writer \<Rightarrow> 's \<Rightarrow> writer \<times> 's"
type_synonym 's middleware = "'s http_handler \<Rightarrow> 's http_handler"

text \<open>Serving one request from a fresh writer: the status, the headers and the body sent.\<close>

definition serve :: "'s http_handler \<Rightarrow> inbound \<Rightarrow> 's \<Rightarrow> (int \<times> headers \<times> chunk list) \<times> 's" where
  "serve h r s = (case h r fresh_writer s of (w, s') \<Rightarrow> ((fst (finish w), snd (finish w), w_body w), s'))"

section \<open>Addresses\<close>

text \<open>The host part of \<open>net.SplitHostPort\<close>; \<open>None\<close> is any of its errors.\<close>

fun index_of :: "char \<Rightarrow> string \<Rightarrow> nat option" where
  "index_of c [] = None"
| "index_of c (x # xs) = (if x = c then Some 0 else map_option Suc (index_of c xs))"

fun last_index_of :: "char \<Rightarrow> string \<Rightarrow> nat option" where
  "last_index_of c [] = None"
| "last_index_of c (x # xs) =
     (case last_index_of c xs of Some i \<Rightarrow> Some (Suc i) | None \<Rightarrow> if x = c then Some 0 else None)"

definition no_brackets :: "string \<Rightarrow> nat \<Rightarrow> nat \<Rightarrow> bool" where
  "no_brackets s j k \<longleftrightarrow> index_of (CHR ''['') (drop j s) = None \<and> index_of (CHR '']'') (drop k s) = None"

definition SplitHost :: "string \<Rightarrow> string option" where
  "SplitHost s =
     (case last_index_of (CHR '':'') s of
        None \<Rightarrow> None
      | Some i \<Rightarrow>
          if hd s = CHR ''['' then
            (case index_of (CHR '']'') s of
               None \<Rightarrow> None
             | Some e \<Rightarrow>
                 if e + 1 = i \<and> no_brackets s 1 (e + 1) then Some (take (e - 1) (drop 1 s)) else None)
          else
            (let host = take i s in
             if index_of (CHR '':'') host \<noteq> None then None
             else if no_brackets s 0 0 then Some host else None))"

lemma SplitHost_examples:
  "SplitHost ''10.0.0.7:5123'' = Some ''10.0.0.7''"
  "SplitHost ''[::1]:80'' = Some ''::1''"
  "SplitHost ''::1:80'' = None"
  "SplitHost ''10.0.0.7'' = None"
  "SplitHost ''[::1]'' = None"
  by (simp_all add: SplitHost_def no_brackets_def Let_def)

section \<open>Decimal numbers\<close>

text \<open>\<open>strconv.Itoa\<close>, and its inverse on 64-bit numbers, \<open>Atoi\<close>.\<close>

fun decimal :: "nat \<Rightarrow> string" where
  "decimal n = (if n < 10 then [char_of (48 + n)] else decimal (n div 10) @ [char_of (48 + n mod 10)])"

declare decimal.simps [simp del]

definition Itoa :: "int \<Rightarrow> string" where
  "Itoa n = (if n < 0 then CHR ''-'' # decimal (nat (- n)) else decimal (nat n))"

lemma digits_val_append:
  "digits_val (s @ t) acc = (case digits_val s acc of None \<Rightarrow> None | Some m \<Rightarrow> digits_val t m)"
  by (induction s arbitrary: acc) (auto split: option.splits)

lemma digit_val_char: "d < 10 \<Longrightarrow> digit_val (char_of (48 + d)) = Some (int d)"
  by (simp add: digit_val_def)

lemma digits_val_decimal: "digits_val (decimal n) 0 = Some (int n)"
proof (induction n rule: decimal.induct)
  case (1 n)
  show ?case
  proof (cases "n < 10")
    case True
    then show ?thesis by (simp add: decimal.simps digit_val_char)
  next
    case False
    then have "digits_val (decimal n) 0 = digits_val [char_of (48 + n mod 10)] (int (n div 10))"
      using 1 by (subst decimal.simps) (simp add: digits_val_append)
    also have "\<dots> = Some (10 * int (n div 10) + int (n mod 10))" by (simp add: digit_val_char)
    also have "10 * int (n div 10) + int (n mod 10) = int n"
      by (simp add: zdiv_int zmod_int)
    finally show ?thesis .
  qed
qed

lemma decimal_nonempty: "decimal n \<noteq> []"
  by (subst decimal.simps) simp

lemma hd_decimal: "digit_val (hd (decimal n)) \<noteq> None"
  using digits_val_decimal [of n] decimal_nonempty [of n]
  by (cases "decimal n") (auto split: option.splits)

lemma Atoi_Itoa: "is_int64 n \<Longrightarrow> Atoi (Itoa n) = Some n"
proof -
  assume n: "is_int64 n"
  have s: "hd (decimal m) \<noteq> CHR ''-''" "hd (decimal m) \<noteq> CHR ''+''" for m
    using hd_decimal [of m] by (auto simp: digit_val_def)
  show ?thesis using n s decimal_nonempty digits_val_decimal
    by (auto simp: Atoi_def Itoa_def Let_def)
qed

section \<open>Names up to case\<close>

text \<open>Evaluation of names that are given.\<close>

lemmas name_eval = CanonicalHeaderKey_def token_chars_def ascii_upper_def ascii_lower_def char_of_eq_iff
  ToLower_def

text \<open>Two names denote the same header only if they agree up to case.\<close>

lemma lower_upper: "ascii_lower (ascii_upper c) = ascii_lower c" "ascii_lower (ascii_lower c) = ascii_lower c"
  by (auto simp: ascii_lower_def ascii_upper_def)

lemma ToLower_canonical_from: "ToLower (canonical_from b s) = ToLower s"
  by (induction s arbitrary: b) (auto simp: ToLower_def lower_upper)

lemma ToLower_canonical: "ToLower (CanonicalHeaderKey s) = ToLower s"
  by (simp add: CanonicalHeaderKey_def ToLower_canonical_from)

lemma not_canonical:
  assumes "ToLower k \<notin> ToLower ` set ks"
  shows "k \<notin> CanonicalHeaderKey ` set ks"
proof
  assume "k \<in> CanonicalHeaderKey ` set ks"
  then obtain s where "s \<in> set ks" and "k = CanonicalHeaderKey s" by auto
  then show False using assms by (auto simp: ToLower_canonical)
qed

end
