(* ===== verification/Correlation.thy ===== *)
theory Correlation
  imports Http
begin

text \<open>
  Package \<open>correlation\<close> (\<open>pkg/correlation/correlation.go\<close>): the identifier of a request's trace, its
  check, the middleware every service runs, and its copy onto outbound calls.
\<close>

text \<open>The gateway and the package agree on the spelling of the header.\<close>

definition Header :: string where "Header = ''X-Correlation-ID''"

definition FromContext :: "inbound \<Rightarrow> string" where
  "FromContext r = (case ctx_shared r of None \<Rightarrow> [] | Some i \<Rightarrow> i)"

definition NewContext :: "string \<Rightarrow> inbound \<Rightarrow> inbound" where
  "NewContext i r = r\<lparr>ctx_shared := Some i\<rparr>"

text \<open>\<open>New\<close> as a function of the 16 random bytes.\<close>

definition New_ID :: "8 word list \<Rightarrow> string" where
  "New_ID b = concat (map hex_byte b)"

definition maxLen :: nat where "maxLen = 128"

definition printable :: "char \<Rightarrow> bool" where
  "printable c \<longleftrightarrow> 0x20 < (of_char c :: nat) \<and> (of_char c :: nat) < 0x7F"

definition IsValid :: "string \<Rightarrow> bool" where
  "IsValid i = (if i = [] \<or> maxLen < length i then False else list_all printable i)"

definition Correlation_Middleware :: "'s middleware" where
  "Correlation_Middleware next r w s =
     (let i0 = Header_Get (r_Header r) Header;
          i = (if IsValid i0 then i0 else New_ID (at_rand r))
      in next (NewContext i r) (on_header (Header_Set Header i) w) s)"

definition SetHeader :: "inbound \<Rightarrow> headers \<Rightarrow> headers" where
  "SetHeader r h = (let i = FromContext r in if i \<noteq> [] then Header_Set Header i h else h)"

section \<open>Properties\<close>

lemma canonical_Header: "CanonicalHeaderKey Header = ''X-Correlation-Id''"
  by (simp add: Header_def name_eval)

lemma hex_printable: "c \<in> set hex_chars \<Longrightarrow> printable c"
  by (auto simp: hex_chars_def printable_def)

lemma concat_hex: "length (concat (map hex_byte b)) = 2 * length b"
  "list_all (\<lambda>c. c \<in> set hex_chars) (concat (map hex_byte b))"
  by (induction b) (auto simp: hex_byte_def hex_digit_mem)

text \<open>Whatever the bytes, a minted identifier passes the check, as 32 hexadecimal digits.\<close>

lemma New_ID_shape:
  assumes "length b = 16"
  shows "length (New_ID b) = 32" and "list_all (\<lambda>c. c \<in> set hex_chars) (New_ID b)"
  using assms concat_hex [of b] by (simp_all add: New_ID_def)

lemma New_ID_valid: "length b = 16 \<Longrightarrow> IsValid (New_ID b)"
  using New_ID_shape [of b] by (auto simp: IsValid_def maxLen_def list_all_iff intro: hex_printable)

text \<open>The bytes can be read back: no two draws share an identifier.\<close>

lemma hex_digit_inj: "hex_digit a = hex_digit b \<Longrightarrow> unat a mod 16 = unat b mod 16"
  unfolding hex_digit_def
  by (rule nth_eq_iff_index_eq [of "''0123456789abcdef''", THEN iffD1]) simp_all

lemma hex_byte_inj: "hex_byte a = hex_byte b \<Longrightarrow> a = b"
proof -
  assume h: "hex_byte a = hex_byte b"
  have lo: "unat (x AND 0x0F) mod 16 = unat x mod 16" for x :: "8 word"
  proof -
    have "x AND 0x0F = take_bit 4 x" by (simp add: take_bit_eq_mask mask_eq_exp_minus_1)
    moreover have "unat (take_bit 4 x) = take_bit 4 (unat x)" by (rule unsigned_take_bit_eq)
    ultimately show ?thesis by (simp only: take_bit_eq_mod) simp
  qed
  have range: "unat x < 256" for x :: "8 word" using unsigned_less [of x] by simp
  have hi: "unat (drop_bit 4 x) = unat x div 16" for x :: "8 word"
    using range [of x]
    by (simp only: unsigned_drop_bit_eq take_bit_drop_bit) (simp add: drop_bit_eq_div take_bit_nat_eq_self)
  from range have small: "unat x div 16 mod 16 = unat x div 16" for x :: "8 word"
    by (simp add: less_mult_imp_div_less)
  have "unat a div 16 = unat b div 16" and "unat a mod 16 = unat b mod 16"
    using h hex_digit_inj [of "drop_bit 4 a" "drop_bit 4 b"] hex_digit_inj [of "a AND 0x0F" "b AND 0x0F"]
    by (simp_all add: hex_byte_def hi small lo)
  then have "unat a = unat b" by (metis div_mult_mod_eq)
  then show ?thesis by (simp only: word_unat_eq_iff)
qed

lemma New_ID_inj: "length a = length b \<Longrightarrow> New_ID a = New_ID b \<Longrightarrow> a = b"
proof (induction a b rule: list_induct2)
  case (Cons x xs y ys)
  have "hex_byte x = hex_byte y" "New_ID xs = New_ID ys"
    using Cons.prems by (auto simp: New_ID_def hex_byte_def)
  then show ?case using Cons.IH hex_byte_inj by blast
qed simp

end
