(* ===== verification/GatewayAuth.thy ===== *)
theory GatewayAuth
  imports Correlation
begin

text \<open>
  The gateway's identity middleware: correlation identifiers (\<open>gateway/middleware/correlation.go\<close>)
  and bearer tokens (\<open>gateway/middleware/auth.go\<close>).  The JWT library is a parameter: the function
  from parser options, key and text to the claims it accepts.
\<close>

definition SubjectHeader :: string where "SubjectHeader = ''X-User-ID''"

definition AuthorizationHeader :: string where "AuthorizationHeader = ''Authorization''"

definition CorrelationIDHeader :: string where "CorrelationIDHeader = ''X-Correlation-ID''"

section \<open>Correlation identifiers\<close>

definition CorrelationID :: "inbound \<Rightarrow> string" where
  "CorrelationID r = (case ctx_correlationID r of None \<Rightarrow> [] | Some i \<Rightarrow> i)"

definition ContextWithCorrelationID :: "string \<Rightarrow> inbound \<Rightarrow> inbound" where
  "ContextWithCorrelationID i r = r\<lparr>ctx_correlationID := Some i\<rparr>"

definition maxCorrelationIDLen :: nat where "maxCorrelationIDLen = 128"

definition isValidCorrelationID :: "string \<Rightarrow> bool" where
  "isValidCorrelationID i =
     (if i = [] \<or> maxCorrelationIDLen < length i then False
      else list_all (\<lambda>c. \<not> ((of_char c :: nat) \<le> 0x20 \<or> 0x7F \<le> (of_char c :: nat))) i)"

definition newCorrelationID :: "8 word list \<Rightarrow> string" where
  "newCorrelationID b = concat (map hex_byte b)"

definition CorrelationIDMiddleware :: "'s middleware" where
  "CorrelationIDMiddleware next r w s =
     (let i0 = Header_Get (r_Header r) CorrelationIDHeader;
          i = (if \<not> isValidCorrelationID i0 then newCorrelationID (at_rand r) else i0);
          w1 = on_header (Header_Set CorrelationIDHeader i) w;
          r1 = NewContext i (ContextWithCorrelationID i r);
          r2 = r1\<lparr>r_Header := Header_Set CorrelationIDHeader i (r_Header r1)\<rparr>
      in next r2 w1 s)"

text \<open>The gateway's check is the one the services make.\<close>

lemma isValidCorrelationID_eq: "isValidCorrelationID = IsValid"
  by (rule ext) (auto simp: isValidCorrelationID_def IsValid_def maxLen_def maxCorrelationIDLen_def
      printable_def list_all_iff not_le)

lemma newCorrelationID_eq: "newCorrelationID = New_ID"
  by (rule ext) (simp add: newCorrelationID_def New_ID_def)

section \<open>Error responses\<close>

definition writeError :: "inbound \<Rightarrow> int \<Rightarrow> string \<Rightarrow> writer \<Rightarrow> writer" where
  "writeError r st msg w =
     Write (ErrorJSONBody msg (CorrelationID r))
       (WriteHeader st (on_header (Header_Set ''Content-Type'' ''application/json; charset=utf-8'') w))"

definition unauthorized :: "inbound \<Rightarrow> string \<Rightarrow> writer \<Rightarrow> writer" where
  "unauthorized r msg w =
     writeError r 401 msg (on_header (Header_Set ''WWW-Authenticate'' ''Bearer realm=\"api\"'') w)"

section \<open>Bearer tokens\<close>

record JWTConfig =
  jwt_Secret :: string
  jwt_Issuer :: string
  jwt_Audience :: string

datatype jwt_config_error = SecretEmpty | SecretShort nat

definition JWTConfig_Validate :: "JWTConfig \<Rightarrow> jwt_config_error option" where
  "JWTConfig_Validate c =
     (if length (jwt_Secret c) = 0 then Some SecretEmpty
      else if length (jwt_Secret c) < 32 then Some (SecretShort (length (jwt_Secret c)))
      else None)"

datatype ParserOption =
    WithValidMethods "string list"
  | WithExpirationRequired
  | WithIssuer string
  | WithAudience string

definition parserOptions :: "JWTConfig \<Rightarrow> ParserOption list" where
  "parserOptions c =
     [WithValidMethods [''HS256''], WithExpirationRequired]
     @ (if jwt_Issuer c \<noteq> [] then [WithIssuer (jwt_Issuer c)] else [])
     @ (if jwt_Audience c \<noteq> [] then [WithAudience (jwt_Audience c)] else [])"

text \<open>
  The library's parser: options, the key the key function returns, the token, the time of the check.
\<close>

type_synonym jwt_parser = "ParserOption list \<Rightarrow> string \<Rightarrow> string \<Rightarrow> time \<Rightarrow> Claims option"

definition bearerToken :: "inbound \<Rightarrow> (string, string) result" where
  "bearerToken r =
     (let h = Header_Get (r_Header r) AuthorizationHeader in
      if h = [] then Inl ''no Authorization header''
      else if length h \<le> 7 \<or> ToLower (take 7 h) \<noteq> ''bearer '' then Inl ''not a bearer token''
      else
        (let token = TrimSpace (drop 7 h) in
         if token = [] then Inl ''empty bearer token'' else Inr token))"

definition RequireJWT :: "jwt_parser \<Rightarrow> JWTConfig \<Rightarrow> 's middleware" where
  "RequireJWT parse cfg next r w s =
     (case bearerToken r of
        Inl _ \<Rightarrow> (unauthorized r ''missing or malformed Authorization header'' w, s)
      | Inr raw \<Rightarrow>
          (case parse (parserOptions cfg) (jwt_Secret cfg) raw (at_now r) of
             None \<Rightarrow> (unauthorized r ''invalid token'' w, s)
           | Some claims \<Rightarrow>
               if c_Subject claims = [] then (unauthorized r ''token has no subject'' w, s)
               else next (r\<lparr>r_Header := Header_Set SubjectHeader (c_Subject claims) (r_Header r),
                            ctx_claims := Some claims\<rparr>) w s))"

definition ClaimsFromContext :: "inbound \<Rightarrow> Claims option" where
  "ClaimsFromContext r = ctx_claims r"

text \<open>The identity a request proves: the subject of an accepted bearer token.\<close>

definition identity :: "jwt_parser \<Rightarrow> JWTConfig \<Rightarrow> inbound \<Rightarrow> string option" where
  "identity parse cfg r =
     (case bearerToken r of
        Inl _ \<Rightarrow> None
      | Inr raw \<Rightarrow>
          (case parse (parserOptions cfg) (jwt_Secret cfg) raw (at_now r) of
             None \<Rightarrow> None
           | Some claims \<Rightarrow> if c_Subject claims = [] then None else Some (c_Subject claims)))"

text \<open>A request passes exactly with an identity, and then carries it in header and context.\<close>

lemma RequireJWT_rejects:
  assumes "identity parse cfg r = None"
  shows "\<exists>msg. RequireJWT parse cfg next r w s = (unauthorized r msg w, s)"
  using assms by (auto simp: RequireJWT_def identity_def split: sum.splits option.splits if_splits)

lemma RequireJWT_passes:
  assumes "identity parse cfg r = Some sub"
  shows "sub \<noteq> [] \<and> (\<exists>claims. c_Subject claims = sub
    \<and> RequireJWT parse cfg next r w s
      = next (r\<lparr>r_Header := Header_Set SubjectHeader sub (r_Header r), ctx_claims := Some claims\<rparr>) w s)"
  using assms by (auto simp: RequireJWT_def identity_def split: sum.splits option.splits if_splits)

lemma identity_context [simp]:
  "identity parse cfg (r\<lparr>ctx_shared := x\<rparr>) = identity parse cfg r"
  "identity parse cfg (r\<lparr>ctx_correlationID := y\<rparr>) = identity parse cfg r"
  by (simp_all add: identity_def bearerToken_def cong: sum.case_cong option.case_cong)

lemma canonical_names:
  "CanonicalHeaderKey SubjectHeader = ''X-User-Id''"
  "CanonicalHeaderKey CorrelationIDHeader = ''X-Correlation-Id''"
  "CanonicalHeaderKey AuthorizationHeader = ''Authorization''"
  "CanonicalHeaderKey ''Content-Type'' = ''Content-Type''"
  "CanonicalHeaderKey ''WWW-Authenticate'' = ''Www-Authenticate''"
  by (simp_all add: SubjectHeader_def CorrelationIDHeader_def AuthorizationHeader_def name_eval)

text \<open>The scheme is read in any case and the token without surrounding space.\<close>

lemma bearerToken_examples:
  "bearerToken (r\<lparr>r_Header := read_headers [(''authorization'', ''bEaReR  abc '')]\<rparr>) = Inr ''abc''"
  "bearerToken (r\<lparr>r_Header := read_headers [(''Authorization'', ''Basic abc'')]\<rparr>) = Inl ''not a bearer token''"
  "bearerToken (r\<lparr>r_Header := read_headers [(''Authorization'', ''Bearer  '')]\<rparr>) = Inl ''empty bearer token''"
proof -
  have a: "CanonicalHeaderKey ''authorization'' = ''Authorization''"
    "CanonicalHeaderKey ''Authorization'' = ''Authorization''" by (simp_all add: name_eval)
  note defs = bearerToken_def read_headers_def Header_Get_def AuthorizationHeader_def Let_def a
  have l: "ToLower ''bEaReR '' = ''bearer ''" "ToLower ''Basic a'' \<noteq> ''bearer ''" "ToLower ''Bearer '' = ''bearer ''"
    by (simp_all add: name_eval)
  have t: "TrimSpace '' abc '' = ''abc''" "TrimSpace '' '' = []" by (simp_all add: TrimSpace_def spaces_def leading_space_def)
  show "bearerToken (r\<lparr>r_Header := read_headers [(''authorization'', ''bEaReR  abc '')]\<rparr>) = Inr ''abc''"
    "bearerToken (r\<lparr>r_Header := read_headers [(''Authorization'', ''Basic abc'')]\<rparr>) = Inl ''not a bearer token''"
    "bearerToken (r\<lparr>r_Header := read_headers [(''Authorization'', ''Bearer  '')]\<rparr>) = Inl ''empty bearer token''"
    by (simp_all add: defs l t)
qed

end
