(* ===== verification/Metrics.thy ===== *)
theory Metrics
  imports Http
begin

text \<open>
  Package \<open>metrics\<close> (\<open>pkg/metrics\<close>): the counters and gauges a service keeps, the middleware that
  counts every request under its status, and the records of rate-limit decisions and saga events.
  The Prometheus instruments are the functions from labels to values they stand for; a histogram is
  the list of what it observed.
\<close>

record Metrics =
  requests :: "string \<times> string \<times> int \<Rightarrow> nat"
  errors :: "string \<times> string \<Rightarrow> nat"
  durations :: "string \<times> string \<Rightarrow> rat list"
  inFlight :: int
  rateLimitDecisions :: "string \<times> string \<Rightarrow> nat"
  rateLimitRemaining :: "string \<Rightarrow> int"
  eventsPublished :: "string \<times> string \<Rightarrow> nat"
  eventsConsumed :: "string \<times> string \<times> string \<Rightarrow> nat"
  sagaOutcomes :: "string \<Rightarrow> nat"

definition Metrics_New :: Metrics where
  "Metrics_New = \<lparr>requests = (\<lambda>_. 0), errors = (\<lambda>_. 0), durations = (\<lambda>_. []), inFlight = 0,
     rateLimitDecisions = (\<lambda>_. 0), rateLimitRemaining = (\<lambda>_. 0), eventsPublished = (\<lambda>_. 0),
     eventsConsumed = (\<lambda>_. 0), sagaOutcomes = (\<lambda>_. 0)\<rparr>"

definition inc :: "'l \<Rightarrow> ('l \<Rightarrow> nat) \<Rightarrow> 'l \<Rightarrow> nat" where
  "inc l f = f(l := f l + 1)"

text \<open>
  \<open>ChiRoute\<close>: the pattern the router matched, if the request went through one and it has a pattern.
\<close>

definition ChiRoute :: "(inbound \<Rightarrow> string option) \<Rightarrow> inbound \<Rightarrow> string" where
  "ChiRoute pattern r =
     (case pattern r of Some p \<Rightarrow> if p \<noteq> [] then p else ''unmatched'' | None \<Rightarrow> ''unmatched'')"

text \<open>
  The middleware of the metrics \<open>on\<close> reaches in the state.  The recorder is wrapped around the
  writer for the inner handler and read when it returns.
\<close>

definition wrap_writer :: "writer \<Rightarrow> writer" where
  "wrap_writer w = w\<lparr>w_recs := \<lparr>rec_status = 200, wroteHeader = False\<rparr> # w_recs w\<rparr>"

definition unwrap_writer :: "writer \<Rightarrow> writer" where
  "unwrap_writer w = w\<lparr>w_recs := tl (w_recs w)\<rparr>"

definition Metrics_Middleware ::
  "((Metrics \<Rightarrow> Metrics) \<Rightarrow> 's \<Rightarrow> 's) \<Rightarrow> (inbound \<Rightarrow> string) \<Rightarrow> 's middleware" where
  "Metrics_Middleware on route next r w s =
     (if r_Path r = ''/metrics'' then next r w s
      else
        (let s1 = on (\<lambda>m. m\<lparr>inFlight := inFlight m + 1\<rparr>) s;
             (w2, s2) = next r (wrap_writer w) s1;
             status = rec_status (hd (w_recs w2));
             l = route r;
             s3 = on (\<lambda>m. m\<lparr>requests := inc (r_Method r, l, status) (requests m)\<rparr>) s2;
             s4 = on (\<lambda>m. m\<lparr>durations := (durations m)
                       ((r_Method r, l) := durations m (r_Method r, l) @ [seconds (at_took r)])\<rparr>) s3;
             s5 = (if 500 \<le> status then on (\<lambda>m. m\<lparr>errors := inc (r_Method r, l) (errors m)\<rparr>) s4 else s4)
         in (unwrap_writer w2, on (\<lambda>m. m\<lparr>inFlight := inFlight m - 1\<rparr>) s5)))"

definition RecordRateLimitDecision :: "string \<Rightarrow> bool \<Rightarrow> int \<Rightarrow> Metrics \<Rightarrow> Metrics" where
  "RecordRateLimitDecision algorithm allowed remaining m =
     m\<lparr>rateLimitDecisions :=
          inc (algorithm, if allowed then ''allowed'' else ''denied'') (rateLimitDecisions m),
       rateLimitRemaining := (rateLimitRemaining m)(algorithm := remaining)\<rparr>"

definition RecordEventPublished :: "string \<Rightarrow> string \<Rightarrow> Metrics \<Rightarrow> Metrics" where
  "RecordEventPublished topic etype m = m\<lparr>eventsPublished := inc (topic, etype) (eventsPublished m)\<rparr>"

definition RecordEventConsumed :: "string \<Rightarrow> string \<Rightarrow> string \<Rightarrow> Metrics \<Rightarrow> Metrics" where
  "RecordEventConsumed topic etype outcome m =
     m\<lparr>eventsConsumed := inc (topic, etype, outcome) (eventsConsumed m)\<rparr>"

definition RecordSagaOutcome :: "string \<Rightarrow> Metrics \<Rightarrow> Metrics" where
  "RecordSagaOutcome outcome m = m\<lparr>sagaOutcomes := inc outcome (sagaOutcomes m)\<rparr>"

section \<open>Recorders tell the truth\<close>

text \<open>
  A writer is \<open>recorded\<close> when every recorder agrees with the response: no status yet, or the status
  that was sent.  Informational statuses break the agreement, everything else keeps it.
\<close>

definition recorded :: "writer \<Rightarrow> bool" where
  "recorded w \<longleftrightarrow> (\<forall>r \<in> set (w_recs w).
     case w_sent w of None \<Rightarrow> \<not> wroteHeader r \<and> rec_status r = 200
     | Some (code, _) \<Rightarrow> wroteHeader r \<and> rec_status r = code)"

lemma recorded_status:
  "recorded w \<Longrightarrow> r \<in> set (w_recs w) \<Longrightarrow> rec_status r = fst (finish w)"
  by (auto simp: recorded_def finish_def split: option.splits prod.splits)

lemma recorded_fresh [simp]: "recorded fresh_writer"
  by (simp add: recorded_def fresh_writer_def)

lemma recorded_on_header [simp]: "recorded (on_header f w) = recorded w"
  by (simp add: recorded_def on_header_def)

lemma recorded_WriteHeader:
  "recorded w \<Longrightarrow> \<not> (100 \<le> code \<and> code \<le> 199 \<and> code \<noteq> 101) \<Longrightarrow> recorded (WriteHeader code w)"
  by (cases "w_sent w")
    (auto simp: recorded_def WriteHeader_def server_WriteHeader_def statusRecorder_WriteHeader_def)

lemma recorded_Write: "recorded w \<Longrightarrow> recorded (Write b w)"
  by (cases "w_sent w")
    (auto simp: recorded_def Write_def server_WriteHeader_def statusRecorder_Write_def)

lemma recorded_http_Error:
  "recorded w \<Longrightarrow> \<not> (100 \<le> code \<and> code \<le> 199 \<and> code \<noteq> 101) \<Longrightarrow> recorded (http_Error msg code w)"
  unfolding http_Error_def by (intro recorded_Write recorded_WriteHeader) auto

text \<open>The calls of a writer keep the number of its recorders.\<close>

lemma length_recs [simp]:
  "length (w_recs (on_header f w)) = length (w_recs w)"
  "length (w_recs (WriteHeader code w)) = length (w_recs w)"
  "length (w_recs (Write b w)) = length (w_recs w)"
  "length (w_recs (http_Error msg code w)) = length (w_recs w)"
  by (auto simp: on_header_def WriteHeader_def server_WriteHeader_def Write_def http_Error_def Let_def)

text \<open>The contract of a handler: recorders stay truthful and as many as they were.\<close>

definition truthful :: "'s http_handler \<Rightarrow> bool" where
  "truthful h \<longleftrightarrow> (\<forall>r w s. recorded w \<and> w_sent w = None \<longrightarrow>
     recorded (fst (h r w s)) \<and> length (w_recs (fst (h r w s))) = length (w_recs w))"

lemma truthfulI:
  assumes "\<And>r w s. recorded w \<Longrightarrow> w_sent w = None \<Longrightarrow>
      recorded (fst (h r w s)) \<and> length (w_recs (fst (h r w s))) = length (w_recs w)"
  shows "truthful h"
  using assms by (simp add: truthful_def)

lemma truthfulD:
  "truthful h \<Longrightarrow> recorded w \<Longrightarrow> w_sent w = None \<Longrightarrow> h r w s = (w', s') \<Longrightarrow>
   recorded w' \<and> length (w_recs w') = length (w_recs w)"
  using truthful_def [of h] by (metis fst_conv)

lemma recorded_wrap: "w_sent w = None \<Longrightarrow> recorded w \<Longrightarrow> recorded (wrap_writer w)"
  by (simp add: recorded_def wrap_writer_def)

lemma recorded_unwrap: "recorded w \<Longrightarrow> recorded (unwrap_writer w)"
  by (auto simp: recorded_def unwrap_writer_def dest: list.set_sel(2) split: option.splits prod.splits)
    (metis empty_iff list.sel(2) list.set(1) list.set_sel(2))+

lemma wrap_fields [simp]:
  "w_sent (wrap_writer w) = w_sent w" "length (w_recs (wrap_writer w)) = Suc (length (w_recs w))"
  "w_sent (unwrap_writer w) = w_sent w" "length (w_recs (unwrap_writer w)) = length (w_recs w) - 1"
  "finish (unwrap_writer w) = finish w" "w_header (wrap_writer w) = w_header w"
  "w_header (unwrap_writer w) = w_header w"
  by (auto simp: wrap_writer_def unwrap_writer_def finish_def split: option.splits)

text \<open>What the recorder of a wrapping middleware reads when the inner handler has returned.\<close>

lemma recorder_reads:
  assumes "truthful next" and "recorded w" and "w_sent w = None"
    and "next r (wrap_writer w) s = (w', s')"
  shows "rec_status (hd (w_recs w')) = fst (finish w')"
    and "recorded (unwrap_writer w')" and "length (w_recs (unwrap_writer w')) = length (w_recs w)"
proof -
  have w': "recorded w'" "length (w_recs w') = Suc (length (w_recs w))"
    using truthfulD [OF assms(1) recorded_wrap [OF assms(3,2)] _ assms(4)] assms(3) by simp_all
  then have "hd (w_recs w') \<in> set (w_recs w')" by (metis hd_in_set length_0_conv nat.distinct(1))
  then show "rec_status (hd (w_recs w')) = fst (finish w')" by (rule recorded_status [OF w'(1)])
  show "recorded (unwrap_writer w')" by (rule recorded_unwrap [OF w'(1)])
  show "length (w_recs (unwrap_writer w')) = length (w_recs w)" using w'(2) by simp
qed

lemma truthful_Metrics [inv_intros]: "truthful next \<Longrightarrow> truthful (Metrics_Middleware on route next)"
proof (rule truthfulI)
  fix r w and s :: 'a
  assume h: "truthful next" "recorded w" "w_sent w = None"
  show "recorded (fst (Metrics_Middleware on route next r w s))
    \<and> length (w_recs (fst (Metrics_Middleware on route next r w s))) = length (w_recs w)"
  proof (cases "r_Path r = ''/metrics''")
    case True
    then show ?thesis using h truthful_def [of "next"] by (simp add: Metrics_Middleware_def)
  next
    case False
    obtain w' s' where n: "next r (wrap_writer w) (on (\<lambda>m. m\<lparr>inFlight := inFlight m + 1\<rparr>) s) = (w', s')"
      by (cases "next r (wrap_writer w) (on (\<lambda>m. m\<lparr>inFlight := inFlight m + 1\<rparr>) s)")
    then show ?thesis using recorder_reads [OF h n] False
      by (simp add: Metrics_Middleware_def Let_def)
  qed
qed

end

