(* ===== verification/GatewayLimit.thy ===== *)
theory GatewayLimit
  imports GatewayAuth Metrics
begin

text \<open>
  The gateway's rate-limit middleware (\<open>gateway/middleware/ratelimit.go\<close>): the key of a request, the
  decision of a limiter, the headers that report it.  The limiter is any function with the type of
  \<open>Limiter.Allow\<close>.
\<close>

section \<open>Keys\<close>

definition ClientIP :: "inbound \<Rightarrow> string" where
  "ClientIP r = (case SplitHost (r_RemoteAddr r) of None \<Rightarrow> r_RemoteAddr r | Some host \<Rightarrow> host)"

definition KeyBySubjectOrIP :: "inbound \<Rightarrow> string" where
  "KeyBySubjectOrIP r =
     (case ClaimsFromContext r of
        Some claims \<Rightarrow> if c_Subject claims \<noteq> [] then ''user:'' @ c_Subject claims else ''ip:'' @ ClientIP r
      | None \<Rightarrow> ''ip:'' @ ClientIP r)"

section \<open>Headers\<close>

text \<open>Whole seconds, rounded up; the conversion goes through floating point.\<close>

definition secondsCeil :: "duration \<Rightarrow> int" where
  "secondsCeil d = (if d \<le> 0 then 0 else f2i (fceil (seconds d)))"

definition retryAfterSeconds :: "duration \<Rightarrow> string" where
  "retryAfterSeconds d = (let s = secondsCeil d in Itoa (if s < 1 then 1 else s))"

definition setRateLimitHeaders :: "Result \<Rightarrow> headers \<Rightarrow> headers" where
  "setRateLimitHeaders res h =
     Header_Set ''X-RateLimit-Reset'' (Itoa (secondsCeil (ResetAfter res)))
       (Header_Set ''X-RateLimit-Remaining'' (Itoa (Remaining res))
         (Header_Set ''X-RateLimit-Limit'' (Itoa (Limit res)) h))"

section \<open>The middleware\<close>

text \<open>
  The state of a gateway: its limiter, the requests handed to the transport with their targets, its
  metrics, its access log.
\<close>

record url =
  url_Scheme :: string
  url_Host :: string
  url_Path :: string

record outbound =
  out_Method :: string
  out_Path :: string
  out_Host :: string
  out_Header :: headers

record log_line =
  log_correlation :: string
  log_method :: string
  log_path :: string
  log_status :: int
  log_duration_ms :: int
  log_remote_ip :: string

record 'l gateway =
  g_limiter :: 'l
  g_forwarded :: "(url \<times> outbound) list"
  g_metrics :: Metrics
  g_access :: "log_line list"

type_synonym 'l gw_handler = "'l gateway http_handler"

record 'l RateLimitConfig =
  rl_Limiter :: "'l allow_fun"
  rl_FailOpen :: bool
  rl_Metrics :: bool
  rl_Algorithm :: string

text \<open>
  The gateway's own configuration leaves \<open>KeyFunc\<close> unset, so the key is \<open>KeyBySubjectOrIP\<close>;
  \<open>rl_Metrics\<close> says whether metrics are configured.
\<close>

definition RateLimit :: "'l RateLimitConfig \<Rightarrow> 'l gateway middleware" where
  "RateLimit cfg next r w s =
     (let algorithm = (if rl_Algorithm cfg = [] then ''unknown'' else rl_Algorithm cfg);
          key = KeyBySubjectOrIP r;
          (answer, l) = rl_Limiter cfg (g_limiter s) (at_now r) key;
          s1 = s\<lparr>g_limiter := l\<rparr>
      in case answer of
           Inl _ \<Rightarrow>
             (if \<not> rl_FailOpen cfg then (writeError r 503 ''rate limiter unavailable'' w, s1)
              else next r w s1)
         | Inr res \<Rightarrow>
             (let s2 = (if rl_Metrics cfg
                        then s1\<lparr>g_metrics := RecordRateLimitDecision algorithm (Allowed res) (Remaining res) (g_metrics s1)\<rparr>
                        else s1);
                  w1 = on_header (setRateLimitHeaders res) w
              in if \<not> Allowed res
                 then (writeError r 429 ''rate limit exceeded''
                         (on_header (Header_Set ''Retry-After'' (retryAfterSeconds (RetryAfter res))) w1), s2)
                 else next r w1 s2))"

end
