(* ===== verification/GatewayRouter.thy ===== *)
theory GatewayRouter
  imports GatewayLimit
begin

text \<open>
  The gateway's access log, its reverse proxies and its router (\<open>gateway/middleware/access.go\<close>,
  \<open>gateway/router\<close>).  The chi router, the JWT library, the Prometheus page, URL parsing and the
  services behind the gateway are parameters; the header handling of \<open>httputil.ReverseProxy\<close> is
  modelled step by step.  Bodies, query strings and escaped paths are forwarded as they are and are
  left out.
\<close>

section \<open>Access log\<close>

definition AccessLog :: "'l gateway middleware" where
  "AccessLog next r w s =
     (if r_Path r = ''/metrics'' then next r w s
      else
        (let (w', s') = next r (wrap_writer w) s;
             line = \<lparr>log_correlation = FromContext r, log_method = r_Method r, log_path = r_Path r,
                     log_status = rec_status (hd (w_recs w')),
                     log_duration_ms = go_div (at_took r) Millisecond, log_remote_ip = ClientIP r\<rparr>
         in (unwrap_writer w', s'\<lparr>g_access := g_access s' @ [line]\<rparr>)))"

section \<open>Reverse proxy\<close>

fun split_comma :: "string \<Rightarrow> string list" where
  "split_comma [] = [[]]"
| "split_comma (c # s) =
     (if c = CHR '','' then [] # split_comma s
      else (case split_comma s of [] \<Rightarrow> [[c]] | f # fs \<Rightarrow> (c # f) # fs))"

definition ascii_space :: "char \<Rightarrow> bool" where
  "ascii_space c \<longleftrightarrow> (of_char c :: nat) \<in> {9, 10, 13, 32}"

definition TrimString :: "string \<Rightarrow> string" where
  "TrimString s = rev (dropWhile ascii_space (rev (dropWhile ascii_space s)))"

text \<open>The names a \<open>Connection\<close> header nominates, and a token among the values of a header.\<close>

definition nominated :: "headers \<Rightarrow> string list" where
  "nominated h = filter (\<lambda>t. t \<noteq> []) (map TrimString (concat (map split_comma (h ''Connection''))))"

definition contains_token :: "string list \<Rightarrow> string \<Rightarrow> bool" where
  "contains_token vs t \<longleftrightarrow> (\<exists>v \<in> set vs. \<exists>f \<in> set (split_comma v). ToLower (TrimString f) = ToLower t)"

definition hopHeaders :: "string list" where
  "hopHeaders = [''Connection'', ''Proxy-Connection'', ''Keep-Alive'', ''Proxy-Authenticate'',
     ''Proxy-Authorization'', ''Te'', ''Trailer'', ''Transfer-Encoding'', ''Upgrade'']"

definition removeHopByHopHeaders :: "headers \<Rightarrow> headers" where
  "removeHopByHopHeaders h = fold Header_Del hopHeaders (fold Header_Del (nominated h) h)"

definition upgradeType :: "headers \<Rightarrow> string" where
  "upgradeType h = (if contains_token (h ''Connection'') ''Upgrade'' then Header_Get h ''Upgrade'' else [])"

text \<open>The request \<open>ReverseProxy\<close> gives to \<open>Rewrite\<close>.\<close>

definition forwarding_headers :: "string list" where
  "forwarding_headers = [''Forwarded'', ''X-Forwarded-For'', ''X-Forwarded-Host'', ''X-Forwarded-Proto'']"

definition before_rewrite :: "headers \<Rightarrow> headers" where
  "before_rewrite h =
     (let h1 = removeHopByHopHeaders h;
          h2 = (if contains_token (h ''Te'') ''trailers'' then Header_Set ''Te'' ''trailers'' h1 else h1);
          h3 = (if upgradeType h \<noteq> []
                then Header_Set ''Upgrade'' (upgradeType h) (Header_Set ''Connection'' ''Upgrade'' h2) else h2)
      in fold Header_Del forwarding_headers h3)"

definition SetXForwarded :: "inbound \<Rightarrow> headers \<Rightarrow> headers" where
  "SetXForwarded r h =
     (let prior = h ''X-Forwarded-For'';
          h1 = (case SplitHost (r_RemoteAddr r) of
                  Some ip \<Rightarrow> Header_Set ''X-Forwarded-For''
                              (concat (map (\<lambda>p. p @ '', '') prior) @ ip) h
                | None \<Rightarrow> Header_Del ''X-Forwarded-For'' h)
      in Header_Set ''X-Forwarded-Proto'' (if r_TLS r then ''https'' else ''http'')
           (Header_Set ''X-Forwarded-Host'' (r_Host r) h1))"

definition hopByHopHeaders :: "string list" where
  "hopByHopHeaders = [''Connection'', ''Keep-Alive'', ''Proxy-Authenticate'', ''Proxy-Authorization'',
     ''Te'', ''Trailer'', ''Transfer-Encoding'', ''Upgrade'']"

definition singleJoiningSlash :: "string \<Rightarrow> string \<Rightarrow> string" where
  "singleJoiningSlash a b =
     (let aslash = (a \<noteq> [] \<and> last a = CHR ''/''); bslash = (b \<noteq> [] \<and> hd b = CHR ''/'') in
      if aslash \<and> bslash then a @ tl b
      else if \<not> aslash \<and> \<not> bslash then a @ ''/'' @ b
      else a @ b)"

text \<open>\<open>Rewrite\<close> of \<open>newProxy\<close>, and the user agent \<open>ReverseProxy\<close> sets when there is none.\<close>

definition Rewrite :: "url \<Rightarrow> inbound \<Rightarrow> outbound" where
  "Rewrite target r =
     (let h1 = SetXForwarded r (before_rewrite (r_Header r));
          h2 = fold Header_Del hopByHopHeaders h1;
          h3 = (if h2 ''User-Agent'' = [] then Header_Set ''User-Agent'' [] h2 else h2)
      in \<lparr>out_Method = r_Method r, out_Path = singleJoiningSlash (url_Path target) (r_Path r),
          out_Host = r_Host r, out_Header = h3\<rparr>)"

text \<open>
  What the service behind a proxy does with a request, given all requests handed over so far: interim
  responses, then a final one or a transport error.
\<close>

record reply =
  rp_interim :: "(int \<times> headers) list"
  rp_final :: "(int \<times> headers \<times> string) option"

type_synonym upstream = "(url \<times> outbound) list \<Rightarrow> reply"

definition copyHeader :: "headers \<Rightarrow> headers \<Rightarrow> headers" where
  "copyHeader src dst = (\<lambda>k. dst k @ src k)"

text \<open>An interim response is passed on with the headers set so far, which are then cleared.\<close>

definition pass_interim :: "int \<times> headers \<Rightarrow> writer \<Rightarrow> writer" where
  "pass_interim ch w = on_header (\<lambda>_ _. []) (WriteHeader (fst ch) (on_header (copyHeader (snd ch)) w))"

definition newProxy :: "upstream \<Rightarrow> url \<Rightarrow> 'l gw_handler" where
  "newProxy up target r w s =
     (if \<not> list_all (\<lambda>c. 0x20 \<le> (of_char c :: nat) \<and> (of_char c :: nat) \<le> 0x7E) (upgradeType (r_Header r))
      then (http_Error ''{\"error\":\"upstream unavailable\"}'' 502 w, s)
      else
        (let s1 = s\<lparr>g_forwarded := g_forwarded s @ [(target, Rewrite target r)]\<rparr>;
             rep = up (g_forwarded s1);
             w1 = fold pass_interim (rp_interim rep) w
         in case rp_final rep of
              None \<Rightarrow> (http_Error ''{\"error\":\"upstream unavailable\"}'' 502 w1, s1)
            | Some (st, h, body) \<Rightarrow>
                (Write (TextBody body)
                   (WriteHeader st (on_header (copyHeader (removeHopByHopHeaders h)) w1)), s1)))"

definition stripUntrustedHeaders :: "'s middleware" where
  "stripUntrustedHeaders next r w s =
     next (r\<lparr>r_Header := Header_Del SubjectHeader (r_Header r)\<rparr>) w s"

section \<open>Routing\<close>

text \<open>
  The router finds the route of a request among methods and patterns, or refuses it with a response
  of its own; it also knows the pattern it matched.  \<open>page\<close> is the Prometheus exposition.
\<close>

datatype found = Route nat | Refuse int "(string \<times> string) list" string

record libs =
  lib_jwt :: jwt_parser
  lib_find :: "(string option \<times> string) list \<Rightarrow> string \<Rightarrow> string \<Rightarrow> found"
  lib_pattern :: "(string option \<times> string) list \<Rightarrow> inbound \<Rightarrow> string option"
  lib_url :: "string \<Rightarrow> url option"
  lib_page :: "Metrics \<Rightarrow> (string \<times> string) list \<times> string"
  lib_upstream :: upstream

definition answer_with :: "int \<Rightarrow> (string \<times> string) list \<Rightarrow> string \<Rightarrow> writer \<Rightarrow> writer" where
  "answer_with st hs body w =
     Write (TextBody body) (WriteHeader st (on_header (fold (\<lambda>(k, v). Header_Set k v) hs) w))"

type_synonym 's route = "(string option \<times> string) \<times> 's http_handler"

definition mux :: "libs \<Rightarrow> 's route list \<Rightarrow> 's http_handler" where
  "mux L routes r w s =
     (case lib_find L (map fst routes) (r_Method r) (r_Path r) of
        Route i \<Rightarrow> snd (routes ! i) r w s
      | Refuse st hs body \<Rightarrow> (answer_with st hs body w, s))"

definition health :: "'s http_handler" where
  "health r w s =
     (Write (ObjectBody [(''status'', ''ok'')])
        (WriteHeader 200 (on_header (Header_Set ''Content-Type'' ''application/json; charset=utf-8'') w)), s)"

definition Metrics_Handler :: "libs \<Rightarrow> 'l gw_handler" where
  "Metrics_Handler L r w s =
     (case lib_page L (g_metrics s) of (hs, body) \<Rightarrow> (answer_with 200 hs body w, s))"

record 'l Config =
  cfg_Limiter :: "'l allow_fun option"
  cfg_JWT :: JWTConfig
  cfg_Services :: "(string \<times> string) list"
  cfg_FailOpen :: bool
  cfg_Metrics :: bool
  cfg_Algorithm :: string

datatype router_error =
    LimiterRequired
  | BadJWT jwt_config_error
  | InvalidURL string string
  | RelativeURL string string

fun parse_services :: "(string \<Rightarrow> url option) \<Rightarrow> (string \<times> string) list
    \<Rightarrow> (router_error, (string \<times> url) list) result" where
  "parse_services parse [] = Inr []"
| "parse_services parse ((name, raw) # rest) =
     (case parse raw of
        None \<Rightarrow> Inl (InvalidURL name raw)
      | Some u \<Rightarrow>
          if url_Scheme u = [] \<or> url_Host u = [] then Inl (RelativeURL name raw)
          else (case parse_services parse rest of Inl e \<Rightarrow> Inl e | Inr us \<Rightarrow> Inr ((name, u) # us)))"

definition protected_names :: "string list" where
  "protected_names = [''catalog'', ''orders'', ''payment'']"

text \<open>The routes in the order they are registered, each with the middleware of its group.\<close>

definition routes_of ::
  "libs \<Rightarrow> 'l Config \<Rightarrow> 'l allow_fun \<Rightarrow> (string \<times> url) list \<Rightarrow> 'l gateway route list" where
  "routes_of L cfg allow services =
     (let rateLimit = RateLimit \<lparr>rl_Limiter = allow, rl_FailOpen = cfg_FailOpen cfg,
                        rl_Metrics = cfg_Metrics cfg, rl_Algorithm = cfg_Algorithm cfg\<rparr>;
          proxy = (\<lambda>u. newProxy (lib_upstream L) u)
      in (if cfg_Metrics cfg then [((None, ''/metrics''), Metrics_Handler L)] else [])
         @ [((Some ''GET'', ''/healthz''), health)]
         @ (case map_of services ''auth'' of
              None \<Rightarrow> [] | Some u \<Rightarrow> [((None, ''/auth/*''), rateLimit (proxy u))])
         @ concat (map (\<lambda>name. case map_of services name of
              None \<Rightarrow> []
            | Some u \<Rightarrow> [((None, ''/'' @ name @ ''/*''),
                         RequireJWT (lib_jwt L) (cfg_JWT cfg) (rateLimit (proxy u)))]) protected_names))"

definition on_metrics :: "(Metrics \<Rightarrow> Metrics) \<Rightarrow> 'l gateway \<Rightarrow> 'l gateway" where
  "on_metrics f s = s\<lparr>g_metrics := f (g_metrics s)\<rparr>"

definition New_Router :: "libs \<Rightarrow> 'l Config \<Rightarrow> (router_error, 'l gw_handler) result" where
  "New_Router L cfg =
     (case cfg_Limiter cfg of
        None \<Rightarrow> Inl LimiterRequired
      | Some allow \<Rightarrow>
          (case JWTConfig_Validate (cfg_JWT cfg) of
             Some e \<Rightarrow> Inl (BadJWT e)
           | None \<Rightarrow>
               (case parse_services (lib_url L) (cfg_Services cfg) of
                  Inl e \<Rightarrow> Inl e
                | Inr services \<Rightarrow>
                    (let routes = routes_of L cfg allow services;
                         inner = mux L routes;
                         measured = (if cfg_Metrics cfg
                                     then Metrics_Middleware on_metrics (ChiRoute (lib_pattern L (map fst routes))) inner
                                     else inner)
                     in Inr (stripUntrustedHeaders (CorrelationIDMiddleware (AccessLog measured)))))))"

end
