(* ===== verification/GatewayProps.thy ===== *)
theory GatewayProps
  imports GatewayRouter
begin

text \<open>
  What the gateway guarantees whatever a client sends: who it says a forwarded request is from, what
  has passed before a service sees a request, the identifier on every response, the truth of its log.
\<close>

section \<open>The router's contract\<close>

text \<open>
  chi's documented behaviour: a pattern ending in an asterisk matches every path with that prefix,
  any other pattern matches itself; a request is given to a route that matches it if there is one,
  and otherwise refused with 404 or 405.
\<close>

definition pattern_matches :: "string \<Rightarrow> string \<Rightarrow> bool" where
  "pattern_matches pat path =
     (if pat \<noteq> [] \<and> last pat = CHR ''*'' then take (length pat - 1) path = butlast pat else pat = path)"

definition route_matches :: "string option \<times> string \<Rightarrow> string \<Rightarrow> string \<Rightarrow> bool" where
  "route_matches rt m p = ((case fst rt of None \<Rightarrow> True | Some m' \<Rightarrow> m' = m) \<and> pattern_matches (snd rt) p)"

definition chi_contract :: "((string option \<times> string) list \<Rightarrow> string \<Rightarrow> string \<Rightarrow> found) \<Rightarrow> bool" where
  "chi_contract finder \<longleftrightarrow> (\<forall>routes m p.
     case finder routes m p of
       Route i \<Rightarrow> i < length routes \<and> route_matches (routes ! i) m p
     | Refuse st hs body \<Rightarrow> (\<forall>i < length routes. \<not> route_matches (routes ! i) m p) \<and> st \<in> {404, 405}
         \<and> (\<forall>(k, v) \<in> set hs. CanonicalHeaderKey k \<noteq> ''X-Correlation-Id''))"

text \<open>The first route that matches: an instance of the contract.\<close>

fun first_match :: "(string option \<times> string) list \<Rightarrow> string \<Rightarrow> string \<Rightarrow> nat option" where
  "first_match [] m p = None"
| "first_match (rt # rts) m p =
     (if route_matches rt m p then Some 0 else map_option Suc (first_match rts m p))"

definition find_first :: "(string option \<times> string) list \<Rightarrow> string \<Rightarrow> string \<Rightarrow> found" where
  "find_first routes m p =
     (case first_match routes m p of Some i \<Rightarrow> Route i
      | None \<Rightarrow> Refuse 404 [(''Content-Type'', ''text/plain; charset=utf-8'')] ''404 page not found'')"

lemma first_match_Some:
  "first_match routes m p = Some i \<Longrightarrow> i < length routes \<and> route_matches (routes ! i) m p"
  by (induction routes arbitrary: i) (auto split: if_splits)

lemma first_match_None:
  "first_match routes m p = None \<Longrightarrow> i < length routes \<Longrightarrow> \<not> route_matches (routes ! i) m p"
  by (induction routes arbitrary: i) (auto simp: nth_Cons split: if_splits nat.splits)

lemma find_first_contract: "chi_contract find_first"
  unfolding chi_contract_def
proof (intro allI)
  fix routes m p
  have "CanonicalHeaderKey ''Content-Type'' \<noteq> ''X-Correlation-Id''" by (simp add: name_eval)
  then show "case find_first routes m p of
       Route i \<Rightarrow> i < length routes \<and> route_matches (routes ! i) m p
     | Refuse st hs body \<Rightarrow> (\<forall>i < length routes. \<not> route_matches (routes ! i) m p) \<and> st \<in> {404, 405}
         \<and> (\<forall>(k, v) \<in> set hs. CanonicalHeaderKey k \<noteq> ''X-Correlation-Id'')"
    using first_match_Some [of routes m p] first_match_None [of routes m p]
    by (auto simp: find_first_def split: option.splits)
qed

section \<open>From the router in\<close>

text \<open>The correlation identifier of a request, and the request as the routes see it.\<close>

definition request_id :: "inbound \<Rightarrow> string" where
  "request_id r =
     (let i = Header_Get (r_Header r) CorrelationIDHeader in
      if isValidCorrelationID i then i else newCorrelationID (at_rand r))"

definition entering :: "inbound \<Rightarrow> inbound" where
  "entering r =
     r\<lparr>ctx_correlationID := Some (request_id r), ctx_shared := Some (request_id r),
       r_Header := Header_Set CorrelationIDHeader (request_id r) (Header_Del SubjectHeader (r_Header r))\<rparr>"

lemma names_differ [simp]:
  "CanonicalHeaderKey SubjectHeader \<noteq> CanonicalHeaderKey CorrelationIDHeader"
  "CanonicalHeaderKey CorrelationIDHeader \<noteq> CanonicalHeaderKey SubjectHeader"
  "CanonicalHeaderKey SubjectHeader \<noteq> CanonicalHeaderKey AuthorizationHeader"
  "CanonicalHeaderKey AuthorizationHeader \<noteq> CanonicalHeaderKey SubjectHeader"
  "CanonicalHeaderKey AuthorizationHeader \<noteq> CanonicalHeaderKey CorrelationIDHeader"
  by (simp_all add: canonical_names)

lemma request_id_valid: "length (at_rand r) = 16 \<Longrightarrow> IsValid (request_id r)"
  by (simp add: request_id_def Let_def isValidCorrelationID_eq newCorrelationID_eq New_ID_valid)

lemma entering_headers:
  "Header_Get (r_Header (entering r)) CorrelationIDHeader = request_id r"
  "r_Header (entering r) (CanonicalHeaderKey SubjectHeader) = []"
  "Header_Get (r_Header (entering r)) AuthorizationHeader = Header_Get (r_Header r) AuthorizationHeader"
  by (simp_all add: entering_def Header_Get_def)

lemma entering_same [simp]:
  "r_Path (entering r) = r_Path r" "r_Method (entering r) = r_Method r" "at_now (entering r) = at_now r"
  "r_RemoteAddr (entering r) = r_RemoteAddr r" "ctx_claims (entering r) = ctx_claims r"
  "at_took (entering r) = at_took r"
  by (simp_all add: entering_def)

lemma identity_entering [simp]: "identity parse cfg (entering r) = identity parse cfg r"
  by (simp add: identity_def bearerToken_def entering_headers cong: sum.case_cong option.case_cong)

lemma New_Router_ok:
  assumes "New_Router L cfg = Inr h"
  obtains allow services where "cfg_Limiter cfg = Some allow"
    and "JWTConfig_Validate (cfg_JWT cfg) = None"
    and "parse_services (lib_url L) (cfg_Services cfg) = Inr services"
    and "h = stripUntrustedHeaders (CorrelationIDMiddleware (AccessLog
      (if cfg_Metrics cfg
       then Metrics_Middleware on_metrics (ChiRoute (lib_pattern L (map fst (routes_of L cfg allow services))))
              (mux L (routes_of L cfg allow services))
       else mux L (routes_of L cfg allow services))))"
  using assms by (auto simp: New_Router_def Let_def split: option.splits sum.splits if_splits)

lemma strip_correlate:
  "stripUntrustedHeaders (CorrelationIDMiddleware next) r w s
   = next (entering r) (on_header (Header_Set CorrelationIDHeader (request_id r)) w) s"
proof -
  have "Header_Get (Header_Del SubjectHeader (r_Header r)) CorrelationIDHeader
      = Header_Get (r_Header r) CorrelationIDHeader"
    by (simp add: Header_Get_def)
  then show ?thesis
    by (simp add: stripUntrustedHeaders_def CorrelationIDMiddleware_def Let_def entering_def request_id_def
        NewContext_def ContextWithCorrelationID_def)
qed

text \<open>
  What the outer middleware leaves to the router: a writer that has sent nothing and holds the
  identifier, a state with the same limiter and the same forwarded requests; and what it does with
  the response: nothing.
\<close>

definition outer_writer :: "string \<Rightarrow> writer \<Rightarrow> bool" where
  "outer_writer i w \<longleftrightarrow> w_sent w = None \<and> w_interim w = [] \<and> w_body w = []
     \<and> w_header w = Header_Set CorrelationIDHeader i (\<lambda>_. []) \<and> recorded w"

definition outer_state :: "'l gateway \<Rightarrow> 'l gateway \<Rightarrow> bool" where
  "outer_state s t \<longleftrightarrow> g_limiter t = g_limiter s \<and> g_forwarded t = g_forwarded s"

lemma outer_state_metrics [simp]: "outer_state s (on_metrics f t) = outer_state s t"
  by (simp add: outer_state_def on_metrics_def)

lemma outer_state_refl [simp]: "outer_state s s"
  by (simp add: outer_state_def)

lemma outer_wrap [simp]: "outer_writer i w \<Longrightarrow> outer_writer i (wrap_writer w)"
  by (simp add: outer_writer_def recorded_wrap) (simp add: wrap_writer_def)

definition same_response :: "writer \<Rightarrow> writer \<Rightarrow> bool" where
  "same_response w v \<longleftrightarrow> w_sent w = w_sent v \<and> w_header w = w_header v \<and> w_body w = w_body v
     \<and> w_interim w = w_interim v"

lemma same_response_unwrap [simp]: "same_response (unwrap_writer w) v = same_response w v"
  by (simp add: same_response_def unwrap_writer_def)

lemma same_response_refl [simp]: "same_response w w"
  by (simp add: same_response_def)

lemma Metrics_transparent:
  assumes "outer_writer i w"
  obtains w1 s1 w2 s2 where "next r w1 s1 = (w2, s2)" and "outer_writer i w1" and "outer_state s s1"
    and "same_response (fst (Metrics_Middleware on_metrics route next r w s)) w2"
    and "outer_state s2 (snd (Metrics_Middleware on_metrics route next r w s))"
proof (cases "r_Path r = ''/metrics''")
  case True
  then show thesis using assms
    by (intro that [of w s "fst (next r w s)" "snd (next r w s)"]) (simp_all add: Metrics_Middleware_def)
next
  case False
  define s1 where "s1 = on_metrics (\<lambda>m. m\<lparr>inFlight := inFlight m + 1\<rparr>) s"
  obtain w2 s2 where n: "next r (wrap_writer w) s1 = (w2, s2)" by (cases "next r (wrap_writer w) s1")
  show thesis using assms n False
    by (intro that [of "wrap_writer w" s1 w2 s2])
      (simp_all add: Metrics_Middleware_def Let_def flip: s1_def, simp add: s1_def)
qed

lemma AccessLog_transparent:
  assumes "outer_writer i w"
  obtains w1 w2 s2 where "next r w1 s = (w2, s2)" and "outer_writer i w1"
    and "same_response (fst (AccessLog next r w s)) w2" and "outer_state s2 (snd (AccessLog next r w s))"
proof (cases "r_Path r = ''/metrics''")
  case True
  then show thesis using assms
    by (intro that [of w "fst (next r w s)" "snd (next r w s)"]) (simp_all add: AccessLog_def)
next
  case False
  obtain w2 s2 where n: "next r (wrap_writer w) s = (w2, s2)" by (cases "next r (wrap_writer w) s")
  show thesis using assms n False
    by (intro that [of "wrap_writer w" w2 s2]) (simp_all add: AccessLog_def Let_def outer_state_def)
qed

lemma outer_fresh: "outer_writer i (on_header (Header_Set CorrelationIDHeader i) fresh_writer)"
  by (simp add: outer_writer_def) (simp add: on_header_def fresh_writer_def)

text \<open>
  Serving is routing: the response and the effects on limiter and services of a request are those of
  the route it is given to.
\<close>

lemma serve_routes:
  assumes "New_Router L cfg = Inr h"
  obtains allow services w1 s1 w2 s2 where "cfg_Limiter cfg = Some allow"
    and "parse_services (lib_url L) (cfg_Services cfg) = Inr services"
    and "mux L (routes_of L cfg allow services) (entering r) w1 s1 = (w2, s2)"
    and "outer_writer (request_id r) w1" and "outer_state s s1"
    and "fst (serve h r s) = (fst (finish w2), snd (finish w2), w_body w2)"
    and "outer_state s2 (snd (serve h r s))"
proof -
  from New_Router_ok [OF assms] obtain allow services where
    c: "cfg_Limiter cfg = Some allow" "parse_services (lib_url L) (cfg_Services cfg) = Inr services"
    and h: "h = stripUntrustedHeaders (CorrelationIDMiddleware (AccessLog
      (if cfg_Metrics cfg
       then Metrics_Middleware on_metrics (ChiRoute (lib_pattern L (map fst (routes_of L cfg allow services))))
              (mux L (routes_of L cfg allow services))
       else mux L (routes_of L cfg allow services))))"
    by metis
  define m where "m = mux L (routes_of L cfg allow services)"
  define route where "route = ChiRoute (lib_pattern L (map fst (routes_of L cfg allow services)))"
  define inner where "inner = (if cfg_Metrics cfg then Metrics_Middleware on_metrics route m else m)"
  define w0 where "w0 = on_header (Header_Set CorrelationIDHeader (request_id r)) fresh_writer"
  have h': "h r fresh_writer s = AccessLog inner (entering r) w0 s"
    unfolding h m_def [symmetric] route_def [symmetric] inner_def [symmetric] w0_def
    by (rule strip_correlate)
  obtain w1 w2 s2 where a: "inner (entering r) w1 s = (w2, s2)" "outer_writer (request_id r) w1"
    "same_response (fst (AccessLog inner (entering r) w0 s)) w2"
    "outer_state s2 (snd (AccessLog inner (entering r) w0 s))"
    using AccessLog_transparent [OF outer_fresh] unfolding w0_def by metis
  obtain v1 t1 v2 t2 where b: "m (entering r) v1 t1 = (v2, t2)" "outer_writer (request_id r) v1"
    "outer_state s t1" "same_response w2 v2" "outer_state t2 s2"
  proof (cases "cfg_Metrics cfg")
    case True
    then have "inner = Metrics_Middleware on_metrics route m" by (simp add: inner_def)
    then show thesis using Metrics_transparent [OF a(2), of m "entering r" s route] a(1) that by fastforce
  next
    case False
    then show thesis using a that by (simp add: inner_def)
  qed
  have "same_response (fst (h r fresh_writer s)) v2" using a(3) b(4) h' by (simp add: same_response_def)
  then have "fst (serve h r s) = (fst (finish v2), snd (finish v2), w_body v2)"
    by (cases "h r fresh_writer s")
      (simp add: serve_def same_response_def finish_def cong: option.case_cong)
  moreover have "outer_state t2 (snd (serve h r s))"
    using a(4) b(5) h'
    by (cases "AccessLog inner (entering r) w0 s") (simp add: serve_def outer_state_def)
  ultimately show thesis using that c b(1-3) by (simp add: m_def)
qed

section \<open>Routes\<close>

definition under :: "string \<Rightarrow> string \<Rightarrow> bool" where
  "under name p \<longleftrightarrow> take (length name + 2) p = ''/'' @ name @ ''/''"

lemma pattern_under: "pattern_matches (''/'' @ name @ ''/*'') p = under name p"
  by (auto simp: pattern_matches_def under_def butlast_append)

definition service_names :: "string list" where
  "service_names = [''auth'', ''catalog'', ''orders'', ''payment'']"

lemma under_second: "under name p \<Longrightarrow> name \<noteq> [] \<Longrightarrow> p ! 1 = hd name"
proof -
  assume u: "under name p" and n: "name \<noteq> []"
  have "p ! 1 = take (length name + 2) p ! 1" by simp
  also have "\<dots> = hd name" using u n by (cases name) (simp_all add: under_def)
  finally show "p ! 1 = hd name" .
qed

lemma under_unique:
  assumes "under a p" and "under b p" and "a \<in> set service_names" and "b \<in> set service_names"
  shows "a = b"
  using under_second [OF assms(1)] under_second [OF assms(2)] assms(3,4)
  by (auto simp: service_names_def)

lemma under_not_fixed:
  assumes "under a p" and "a \<in> set service_names"
  shows "\<not> pattern_matches ''/metrics'' p" and "\<not> pattern_matches ''/healthz'' p"
  using under_second [OF assms(1)] assms(2)
  by (auto simp: service_names_def pattern_matches_def)

abbreviation rate_limit :: "'l Config \<Rightarrow> 'l allow_fun \<Rightarrow> 'l gateway middleware" where
  "rate_limit cfg allow \<equiv> RateLimit \<lparr>rl_Limiter = allow, rl_FailOpen = cfg_FailOpen cfg,
     rl_Metrics = cfg_Metrics cfg, rl_Algorithm = cfg_Algorithm cfg\<rparr>"

text \<open>The handler behind the prefix of a service.\<close>

definition service_handler ::
  "libs \<Rightarrow> 'l Config \<Rightarrow> 'l allow_fun \<Rightarrow> string \<Rightarrow> url \<Rightarrow> 'l gw_handler" where
  "service_handler L cfg allow name u =
     (if name = ''auth'' then rate_limit cfg allow (newProxy (lib_upstream L) u)
      else RequireJWT (lib_jwt L) (cfg_JWT cfg) (rate_limit cfg allow (newProxy (lib_upstream L) u)))"

definition service_entry ::
  "libs \<Rightarrow> 'l Config \<Rightarrow> 'l allow_fun \<Rightarrow> (string \<times> url) list \<Rightarrow> string \<Rightarrow> 'l gateway route list" where
  "service_entry L cfg allow services name =
     (case map_of services name of None \<Rightarrow> []
      | Some u \<Rightarrow> [((None, ''/'' @ name @ ''/*''), service_handler L cfg allow name u)])"

lemma routes_of_entries:
  "routes_of L cfg allow services =
     (if cfg_Metrics cfg then [((None, ''/metrics''), Metrics_Handler L)] else [])
     @ [((Some ''GET'', ''/healthz''), health)]
     @ concat (map (service_entry L cfg allow services) service_names)"
  by (simp add: routes_of_def service_entry_def service_handler_def service_names_def
      protected_names_def Let_def cong: option.case_cong)

lemma entry_iff:
  "x \<in> set (service_entry L cfg allow services name) \<longleftrightarrow>
   (\<exists>u. map_of services name = Some u \<and> x = ((None, ''/'' @ name @ ''/*''), service_handler L cfg allow name u))"
  by (cases "map_of services name") (simp_all add: service_entry_def)

lemma routes_cases:
  assumes "(rt, act) \<in> set (routes_of L cfg allow services)"
  obtains (metrics) "rt = (None, ''/metrics'')" and "act = Metrics_Handler L"
    | (health) "rt = (Some ''GET'', ''/healthz'')" and "act = health"
    | (service) name u where "name \<in> set service_names" and "map_of services name = Some u"
        and "rt = (None, ''/'' @ name @ ''/*'')" and "act = service_handler L cfg allow name u"
proof -
  have "(rt, act) = ((None, ''/metrics''), Metrics_Handler L) \<or> (rt, act) = ((Some ''GET'', ''/healthz''), health)
    \<or> (\<exists>name \<in> set service_names. (rt, act) \<in> set (service_entry L cfg allow services name))"
    using assms unfolding routes_of_entries by (simp only: set_append set_concat set_map) (auto split: if_splits)
  then show thesis using metrics health service unfolding entry_iff by (simp only: prod.inject) metis
qed

lemma service_route:
  assumes "name \<in> set service_names" and "map_of services name = Some u"
  shows "((None, ''/'' @ name @ ''/*''), service_handler L cfg allow name u) \<in> set (routes_of L cfg allow services)"
proof -
  have "((None, ''/'' @ name @ ''/*''), service_handler L cfg allow name u)
      \<in> set (service_entry L cfg allow services name)"
    using assms(2) entry_iff by metis
  then show ?thesis using assms(1) unfolding routes_of_entries
    by (simp only: set_append set_concat set_map) blast
qed

lemma mux_cases:
  assumes "chi_contract (lib_find L)"
  obtains (refused) st hs body where "mux L routes r w s = (answer_with st hs body w, s)"
        and "\<forall>rt act. (rt, act) \<in> set routes \<longrightarrow> \<not> route_matches rt (r_Method r) (r_Path r)"
        and "st \<in> {404, 405}" and "\<forall>(k, v) \<in> set hs. CanonicalHeaderKey k \<noteq> ''X-Correlation-Id''"
    | (handled) rt act where "(rt, act) \<in> set routes" and "route_matches rt (r_Method r) (r_Path r)"
        and "mux L routes r w s = act r w s"
proof (cases "lib_find L (map fst routes) (r_Method r) (r_Path r)")
  case (Route i)
  then have i: "i < length routes" "route_matches (map fst routes ! i) (r_Method r) (r_Path r)"
    using assms [unfolded chi_contract_def, rule_format, of "map fst routes" "r_Method r" "r_Path r"] by auto
  then have "(fst (routes ! i), snd (routes ! i)) \<in> set routes" by simp
  with i Route show thesis by (intro handled) (auto simp: mux_def)
next
  case (Refuse st hs body)
  then have c: "\<forall>i < length (map fst routes). \<not> route_matches (map fst routes ! i) (r_Method r) (r_Path r)"
    "st \<in> {404, 405}" "\<forall>(k, v) \<in> set hs. CanonicalHeaderKey k \<noteq> ''X-Correlation-Id''"
    using assms [unfolded chi_contract_def, rule_format, of "map fst routes" "r_Method r" "r_Path r"] by auto
  have "\<forall>rt act. (rt, act) \<in> set routes \<longrightarrow> \<not> route_matches rt (r_Method r) (r_Path r)"
    using c(1) by (force simp: in_set_conv_nth)
  with Refuse c show thesis by (intro refused) (simp_all add: mux_def)
qed

text \<open>A request under the prefix of a configured service gets to the handler of that service.\<close>

lemma mux_service:
  assumes "chi_contract (lib_find L)" and "name \<in> set service_names" and "map_of services name = Some u"
    and "under name (r_Path r)"
  shows "mux L (routes_of L cfg allow services) r w s = service_handler L cfg allow name u r w s"
  using assms(1)
proof (cases rule: mux_cases [where routes = "routes_of L cfg allow services" and r = r and w = w and s = s])
  case (refused st hs body)
  have "route_matches (None, ''/'' @ name @ ''/*'') (r_Method r) (r_Path r)"
    using assms(4) by (simp add: route_matches_def pattern_under del: append_Cons)
  then show ?thesis using refused(2) service_route [OF assms(2,3)] by metis
next
  case (handled rt act)
  from handled(1) show ?thesis
  proof (cases rule: routes_cases)
    case metrics
    then show ?thesis using handled(2) under_not_fixed [OF assms(4,2)] by (simp add: route_matches_def)
  next
    case health
    then show ?thesis using handled(2) under_not_fixed [OF assms(4,2)] by (simp add: route_matches_def)
  next
    case (service name' u')
    then have "under name' (r_Path r)"
      using handled(2) by (simp add: route_matches_def pattern_under del: append_Cons)
    then have "name' = name" using under_unique assms(2,4) service(1) by metis
    then show ?thesis using service assms(3) handled(3) by simp
  qed
qed

section \<open>What a service is sent\<close>

text \<open>
  A header the proxy neither drops nor writes reaches the service as the routes saw it, unless the
  client nominated it in a \<open>Connection\<close> header.
\<close>

definition nominates :: "inbound \<Rightarrow> string \<Rightarrow> bool" where
  "nominates r k \<longleftrightarrow> k \<in> CanonicalHeaderKey ` set (nominated (r_Header r))"

definition proxy_headers :: "string list" where
  "proxy_headers = hopHeaders @ hopByHopHeaders @ forwarding_headers
     @ [''User-Agent'', ''X-Forwarded-For'', ''X-Forwarded-Host'', ''X-Forwarded-Proto'']"

lemma Rewrite_passes:
  assumes "k \<notin> CanonicalHeaderKey ` set proxy_headers"
  shows "out_Header (Rewrite target r) k = (if nominates r k then [] else r_Header r k)"
proof -
  have k: "k \<notin> CanonicalHeaderKey ` set hopHeaders" "k \<notin> CanonicalHeaderKey ` set hopByHopHeaders"
    "k \<notin> CanonicalHeaderKey ` set forwarding_headers" "k \<noteq> CanonicalHeaderKey ''User-Agent''"
    "k \<noteq> CanonicalHeaderKey ''X-Forwarded-For''" "k \<noteq> CanonicalHeaderKey ''X-Forwarded-Host''"
    "k \<noteq> CanonicalHeaderKey ''X-Forwarded-Proto''"
    using assms by (auto simp: proxy_headers_def)
  have t: "k \<noteq> CanonicalHeaderKey ''Te''" "k \<noteq> CanonicalHeaderKey ''Upgrade''"
    "k \<noteq> CanonicalHeaderKey ''Connection''"
    using k(1) by (auto simp: hopHeaders_def)
  have rm: "removeHopByHopHeaders (r_Header r) k = (if nominates r k then [] else r_Header r k)"
    unfolding removeHopByHopHeaders_def fold_Del_apply nominates_def using k(1) by simp
  have bw: "before_rewrite (r_Header r) k = (if nominates r k then [] else r_Header r k)"
    unfolding before_rewrite_def Let_def fold_Del_apply using k(3) t rm by simp
  have "SetXForwarded r h k = h k" for h
    unfolding SetXForwarded_def Let_def using k(5-7) by (simp split: option.split)
  then show ?thesis
    unfolding Rewrite_def Let_def using k(2,4) bw by (simp add: fold_Del_apply)
qed

lemma identity_not_proxied: "''X-User-Id'' \<notin> CanonicalHeaderKey ` set proxy_headers"
  "''X-Correlation-Id'' \<notin> CanonicalHeaderKey ` set proxy_headers"
  by (rule not_canonical, simp add: proxy_headers_def hopHeaders_def hopByHopHeaders_def forwarding_headers_def name_eval)+

lemma nominated_Set [simp]:
  "CanonicalHeaderKey k \<noteq> ''Connection'' \<Longrightarrow> nominated (Header_Set k v h) = nominated h"
  "CanonicalHeaderKey k \<noteq> ''Connection'' \<Longrightarrow> nominated (Header_Del k h) = nominated h"
  by (simp_all add: nominated_def)

lemma nominates_entering:
  "nominates (entering r) k = nominates r k"
  by (simp add: nominates_def entering_def canonical_names)

text \<open>The request a service is sent on behalf of an identity, or of nobody.\<close>

definition presented :: "string option \<Rightarrow> inbound \<Rightarrow> inbound" where
  "presented who r =
     (case who of None \<Rightarrow> entering r
      | Some sub \<Rightarrow> (entering r)\<lparr>r_Header := Header_Set SubjectHeader sub (r_Header (entering r)),
                               ctx_claims := Some \<lparr>c_Subject = sub\<rparr>\<rparr>)"

lemma nominates_presented [simp]: "nominates (presented who r) k = nominates r k"
  using nominates_entering [of r k]
  by (cases who) (simp_all add: presented_def nominates_def canonical_names)

lemma presented_headers:
  "r_Header (presented who r) ''X-User-Id'' = (case who of None \<Rightarrow> [] | Some sub \<Rightarrow> [sub])"
  "r_Header (presented who r) ''X-Correlation-Id'' = [request_id r]"
  using entering_headers [of r]
  by (cases who; simp add: presented_def canonical_names entering_def)+

text \<open>The identity and the correlation identifier a service reads.\<close>

lemma sent_headers:
  "out_Header (Rewrite u (presented who r)) ''X-User-Id''
     = (if nominates r ''X-User-Id'' then [] else case who of None \<Rightarrow> [] | Some sub \<Rightarrow> [sub])"
  "out_Header (Rewrite u (presented who r)) ''X-Correlation-Id''
     = (if nominates r ''X-Correlation-Id'' then [] else [request_id r])"
  using Rewrite_passes [OF identity_not_proxied(1), of u "presented who r"]
    Rewrite_passes [OF identity_not_proxied(2), of u "presented who r"]
  by (simp_all add: presented_headers)

end
