(* ===== verification/GatewayServe.thy ===== *)
theory GatewayServe
  imports GatewayProps
begin

text \<open>
  The gateway as a decision: a declarative account of what is done with a request, and the proof that
  the composed middleware, router and proxies do exactly that.
\<close>

section \<open>The reference\<close>

text \<open>A request as the server hands it over carries nothing in its context.\<close>

definition from_network :: "inbound \<Rightarrow> bool" where
  "from_network r \<longleftrightarrow> ctx_claims r = None \<and> ctx_correlationID r = None \<and> ctx_shared r = None"

datatype decision =
    NotForServices
  | Unauthenticated
  | Unavailable
  | Throttled Result
  | Admitted url "string option" "Result option"

definition target :: "(string \<times> url) list \<Rightarrow> string \<Rightarrow> (string \<times> url) option" where
  "target services p =
     (case List.find (\<lambda>n. under n p) service_names of
        None \<Rightarrow> None
      | Some n \<Rightarrow> map_option (Pair n) (map_of services n))"

definition budget_key :: "string option \<Rightarrow> inbound \<Rightarrow> string" where
  "budget_key who r = (case who of Some sub \<Rightarrow> ''user:'' @ sub | None \<Rightarrow> ''ip:'' @ ClientIP r)"

definition admission ::
  "'l Config \<Rightarrow> 'l allow_fun \<Rightarrow> url \<Rightarrow> string option \<Rightarrow> inbound \<Rightarrow> 'l \<Rightarrow> decision \<times> 'l" where
  "admission cfg allow u who r l =
     (case allow l (at_now r) (budget_key who r) of
        (Inl _, l') \<Rightarrow> (if cfg_FailOpen cfg then Admitted u who None else Unavailable, l')
      | (Inr res, l') \<Rightarrow> (if Allowed res then Admitted u who (Some res) else Throttled res, l'))"

definition decide ::
  "libs \<Rightarrow> 'l Config \<Rightarrow> 'l allow_fun \<Rightarrow> (string \<times> url) list \<Rightarrow> inbound \<Rightarrow> 'l \<Rightarrow> decision \<times> 'l" where
  "decide L cfg allow services r l =
     (case target services (r_Path r) of
        None \<Rightarrow> (NotForServices, l)
      | Some (name, u) \<Rightarrow>
          (let who = (if name = ''auth'' then None else identity (lib_jwt L) (cfg_JWT cfg) r) in
           if name \<noteq> ''auth'' \<and> who = None then (Unauthenticated, l)
           else admission cfg allow u who r l))"

text \<open>
  An admitted request is handed to its service, unless it asks for an upgrade by a name with bytes no
  name may hold.
\<close>

definition passes_on :: "inbound \<Rightarrow> bool" where
  "passes_on r \<longleftrightarrow>
     list_all (\<lambda>c. 0x20 \<le> (of_char c :: nat) \<and> (of_char c :: nat) \<le> 0x7E) (upgradeType (r_Header r))"

definition handed_over :: "decision \<Rightarrow> inbound \<Rightarrow> (url \<times> outbound) list" where
  "handed_over d r =
     (case d of Admitted u who _ \<Rightarrow> if passes_on r then [(u, Rewrite u (presented who r))] else [] | _ \<Rightarrow> [])"

text \<open>What the response to a refused request says.\<close>

definition refusal_ok :: "decision \<Rightarrow> int \<Rightarrow> headers \<Rightarrow> bool" where
  "refusal_ok d st h =
     (case d of
        Unauthenticated \<Rightarrow> st = 401 \<and> h ''Www-Authenticate'' = [''Bearer realm=\"api\"'']
      | Unavailable \<Rightarrow> st = 503 \<and> h ''X-Ratelimit-Limit'' = [] \<and> h ''Retry-After'' = []
      | Throttled res \<Rightarrow> st = 429 \<and> h ''X-Ratelimit-Limit'' = [Itoa (Limit res)]
          \<and> h ''X-Ratelimit-Remaining'' = [Itoa (Remaining res)]
          \<and> h ''X-Ratelimit-Reset'' = [Itoa (secondsCeil (ResetAfter res))]
          \<and> h ''Retry-After'' = [retryAfterSeconds (RetryAfter res)]
      | _ \<Rightarrow> True)"

section \<open>The parts\<close>

lemma limit_names:
  "CanonicalHeaderKey ''X-RateLimit-Limit'' = ''X-Ratelimit-Limit''"
  "CanonicalHeaderKey ''X-RateLimit-Remaining'' = ''X-Ratelimit-Remaining''"
  "CanonicalHeaderKey ''X-RateLimit-Reset'' = ''X-Ratelimit-Reset''"
  "CanonicalHeaderKey ''Retry-After'' = ''Retry-After''"
  by (simp_all add: name_eval)

lemma upgradeType_presented [simp]: "upgradeType (r_Header (presented who r)) = upgradeType (r_Header r)"
proof -
  have "CanonicalHeaderKey ''Upgrade'' = ''Upgrade''" by (simp add: name_eval)
  then show ?thesis
    by (cases who) (simp_all add: presented_def entering_def upgradeType_def Header_Get_def canonical_names)
qed

lemma passes_on_presented: "passes_on (presented who r) = passes_on r"
  by (simp add: passes_on_def)

lemma finish_writeError:
  assumes "w_sent w = None" and "200 \<le> code"
  shows "finish (writeError r code msg w)
    = (code, Header_Set ''Content-Type'' ''application/json; charset=utf-8'' (w_header w))"
  using assms
  by (simp add: writeError_def Write_def WriteHeader_def server_WriteHeader_def on_header_def finish_def Let_def)

lemma on_header_fields [simp]:
  "w_sent (on_header f w) = w_sent w" "w_header (on_header f w) = f (w_header w)"
  "w_recs (on_header f w) = w_recs w" "w_body (on_header f w) = w_body w"
  by (simp_all add: on_header_def)

lemma newProxy_effect:
  "g_limiter (snd (newProxy up u r w s)) = g_limiter s"
  "g_forwarded (snd (newProxy up u r w s)) = g_forwarded s @ (if passes_on r then [(u, Rewrite u r)] else [])"
  by (auto simp: newProxy_def passes_on_def Let_def split: option.splits)

lemma RateLimit_effect:
  assumes "allow (g_limiter s) (at_now r) (KeyBySubjectOrIP r) = (answer, l)"
    and "RateLimit \<lparr>rl_Limiter = allow, rl_FailOpen = fo, rl_Metrics = me, rl_Algorithm = al\<rparr>
          (newProxy up u) r w s = (w', s')"
    and "w_sent w = None" and "w_header w = Header_Set CorrelationIDHeader i (\<lambda>_. [])"
  shows "g_limiter s' = l
    \<and> (case answer of
         Inl _ \<Rightarrow> if fo then g_forwarded s' = g_forwarded s @ (if passes_on r then [(u, Rewrite u r)] else [])
                  else g_forwarded s' = g_forwarded s \<and> refusal_ok Unavailable (fst (finish w')) (snd (finish w'))
       | Inr res \<Rightarrow> if Allowed res
                  then g_forwarded s' = g_forwarded s @ (if passes_on r then [(u, Rewrite u r)] else [])
                  else g_forwarded s' = g_forwarded s \<and> refusal_ok (Throttled res) (fst (finish w')) (snd (finish w')))"
proof -
  note eff = newProxy_effect [of up u r]
  show ?thesis
  proof (cases answer)
    case (Inl e)
    show ?thesis
    proof (cases fo)
      case True
      then have "newProxy up u r w (s\<lparr>g_limiter := l\<rparr>) = (w', s')"
        using assms(1,2) Inl by (simp add: RateLimit_def)
      then show ?thesis using eff [of w "s\<lparr>g_limiter := l\<rparr>"] Inl True by simp
    next
      case False
      then have "s' = s\<lparr>g_limiter := l\<rparr>" "w' = writeError r 503 ''rate limiter unavailable'' w"
        using assms(1,2) Inl by (simp_all add: RateLimit_def)
      then show ?thesis using Inl False assms(3,4)
        by (simp add: finish_writeError refusal_ok_def canonical_names)
    qed
  next
    case (Inr res)
    define s2 where "s2 = (if me then s\<lparr>g_limiter := l, g_metrics := RecordRateLimitDecision (if al = [] then ''unknown'' else al)
                        (Allowed res) (Remaining res) (g_metrics s)\<rparr> else s\<lparr>g_limiter := l\<rparr>)"
    have s2: "g_limiter s2 = l" "g_forwarded s2 = g_forwarded s" by (simp_all add: s2_def)
    show ?thesis
    proof (cases "Allowed res")
      case True
      then have "newProxy up u r (on_header (setRateLimitHeaders res) w) s2 = (w', s')"
        using assms(1,2) Inr by (simp add: RateLimit_def Let_def s2_def split: if_splits)
      then show ?thesis using eff [of "on_header (setRateLimitHeaders res) w" s2] s2 Inr True by simp
    next
      case False
      then have "s' = s2" and "w' = writeError r 429 ''rate limit exceeded''
          (on_header (Header_Set ''Retry-After'' (retryAfterSeconds (RetryAfter res))) (on_header (setRateLimitHeaders res) w))"
        using assms(1,2) Inr by (auto simp: RateLimit_def Let_def s2_def split: if_splits)
      then show ?thesis using Inr False assms(3) s2
        by (simp add: finish_writeError refusal_ok_def canonical_names setRateLimitHeaders_def limit_names)
    qed
  qed
qed

lemma target_iff:
  "target services p = Some (n, u) \<longleftrightarrow> n \<in> set service_names \<and> under n p \<and> map_of services n = Some u"
proof
  assume "target services p = Some (n, u)"
  then show "n \<in> set service_names \<and> under n p \<and> map_of services n = Some u"
    by (auto simp: target_def find_Some_iff in_set_conv_nth split: option.splits)
next
  assume h: "n \<in> set service_names \<and> under n p \<and> map_of services n = Some u"
  then obtain m where m: "List.find (\<lambda>n. under n p) service_names = Some m"
    by (cases "List.find (\<lambda>n. under n p) service_names") (auto simp: find_None_iff)
  then have "m \<in> set service_names" "under m p" by (auto simp: find_Some_iff in_set_conv_nth)
  then have "m = n" using h under_unique by metis
  then show "target services p = Some (n, u)" using h m by (simp add: target_def)
qed

lemma key_presented:
  assumes "from_network r" and "who \<noteq> Some []"
  shows "KeyBySubjectOrIP (presented who r) = budget_key who r"
  using assms
  by (cases who) (auto simp: KeyBySubjectOrIP_def ClaimsFromContext_def budget_key_def presented_def
      from_network_def ClientIP_def split: option.split)

lemma presented_same [simp]:
  "at_now (presented who r) = at_now r" "r_Path (presented who r) = r_Path r"
  by (cases who; simp add: presented_def)+

text \<open>The handler of a service does what is decided.\<close>

definition as_decided :: "decision \<Rightarrow> 'l \<Rightarrow> inbound \<Rightarrow> 'l gateway \<Rightarrow> int \<times> headers \<Rightarrow> 'l gateway \<Rightarrow> bool" where
  "as_decided d l r s resp s' \<longleftrightarrow>
     g_limiter s' = l \<and> g_forwarded s' = g_forwarded s @ handed_over d r
     \<and> refusal_ok d (fst resp) (snd resp)"

lemma rate_limited_decides:
  assumes "from_network r" and "who \<noteq> Some []"
    and "rate_limit cfg allow (newProxy up u) (presented who r) w s = (w', s')"
    and "w_sent w = None" and "w_header w = Header_Set CorrelationIDHeader i (\<lambda>_. [])"
    and "admission cfg allow u who r (g_limiter s) = (d, l)"
  shows "as_decided d l r s (finish w') s'"
proof -
  obtain answer l' where a: "allow (g_limiter s) (at_now r) (budget_key who r) = (answer, l')" by fastforce
  then have "allow (g_limiter s) (at_now (presented who r)) (KeyBySubjectOrIP (presented who r)) = (answer, l')"
    using key_presented [OF assms(1,2)] by simp
  note eff = RateLimit_effect [OF this assms(3-5)]
  show ?thesis using eff a assms(6)
    by (cases answer)
      (auto simp: admission_def as_decided_def handed_over_def refusal_ok_def passes_on_presented split: if_splits)
qed

lemma unauthorized_refused:
  assumes "w_sent w = None"
  shows "refusal_ok Unauthenticated (fst (finish (unauthorized r msg w))) (snd (finish (unauthorized r msg w)))"
  using assms by (simp add: unauthorized_def finish_writeError refusal_ok_def canonical_names)

lemma service_decides:
  assumes "from_network r" and "name \<in> set service_names" and "under name (r_Path r)"
    and "map_of services name = Some u"
    and "service_handler L cfg allow name u (entering r) w s = (w', s')"
    and "w_sent w = None" and "w_header w = Header_Set CorrelationIDHeader i (\<lambda>_. [])"
    and "decide L cfg allow services r (g_limiter s) = (d, l)"
  shows "as_decided d l r s (finish w') s'"
proof -
  have t: "target services (r_Path r) = Some (name, u)" using assms(2-4) target_iff by metis
  show ?thesis
  proof (cases "name = ''auth''")
    case True
    have p: "entering r = presented None r" by (simp add: presented_def)
    show ?thesis
      by (rule rate_limited_decides [where who = None and up = "lib_upstream L" and u = u and cfg = cfg and allow = allow and i = i])
        (use assms(1,5-8) t True p in \<open>simp_all add: service_handler_def decide_def\<close>)
  next
    case False
    show ?thesis
    proof (cases "identity (lib_jwt L) (cfg_JWT cfg) r")
      case None
      then have d: "d = Unauthenticated" "l = g_limiter s" using assms(8) t False by (simp_all add: decide_def)
      obtain msg where "(w', s') = (unauthorized (entering r) msg w, s)"
        using RequireJWT_rejects [of "lib_jwt L" "cfg_JWT cfg" "entering r"] None assms(5) False
        by (metis identity_entering service_handler_def)
      then show ?thesis using d unauthorized_refused [OF assms(6)]
        by (simp add: as_decided_def handed_over_def)
    next
      case (Some sub)
      then have "identity (lib_jwt L) (cfg_JWT cfg) (entering r) = Some sub" by simp
      from RequireJWT_passes [OF this] obtain claims where c: "sub \<noteq> []" "c_Subject claims = sub"
        "RequireJWT (lib_jwt L) (cfg_JWT cfg) (rate_limit cfg allow (newProxy (lib_upstream L) u)) (entering r) w s
         = rate_limit cfg allow (newProxy (lib_upstream L) u)
            ((entering r)\<lparr>r_Header := Header_Set SubjectHeader sub (r_Header (entering r)), ctx_claims := Some claims\<rparr>) w s"
        by metis
      have "claims = \<lparr>c_Subject = sub\<rparr>" using c(2) by simp
      then have "rate_limit cfg allow (newProxy (lib_upstream L) u) (presented (Some sub) r) w s = (w', s')"
        using c(3) assms(5) False by (simp add: service_handler_def presented_def)
      then show ?thesis
        by (rule rate_limited_decides [OF assms(1), where who = "Some sub", rotated])
          (use assms(6-8) t False Some c(1) in \<open>simp_all add: decide_def\<close>)
    qed
  qed
qed

lemma mux_elsewhere:
  assumes "chi_contract (lib_find L)" and "target services (r_Path r) = None"
    and "mux L (routes_of L cfg allow services) r w s = (w', s')"
  shows "s' = s"
  using assms(1)
proof (cases rule: mux_cases [where routes = "routes_of L cfg allow services" and r = r and w = w and s = s])
  case (refused st hs body)
  then show ?thesis using assms(3) by simp
next
  case (handled rt act)
  from handled(1) show ?thesis
  proof (cases rule: routes_cases)
    case metrics
    then show ?thesis using handled(3) assms(3) by (simp add: Metrics_Handler_def split: prod.splits)
  next
    case health
    then show ?thesis using handled(3) assms(3) by (simp add: health_def)
  next
    case (service name u)
    then have "under name (r_Path r)"
      using handled(2) by (simp add: route_matches_def pattern_under del: append_Cons)
    then have "target services (r_Path r) = Some (name, u)" using service(1,2) target_iff by metis
    then show ?thesis using assms(2) by simp
  qed
qed

section \<open>The gateway does what is decided\<close>

lemma serve_decides:
  assumes "New_Router L cfg = Inr h" and "chi_contract (lib_find L)" and "from_network r"
    and "cfg_Limiter cfg = Some allow" and "parse_services (lib_url L) (cfg_Services cfg) = Inr services"
    and "decide L cfg allow services r (g_limiter s) = (d, l)"
    and "serve h r s = ((st, hs, body), s')"
  shows "as_decided d l r s (st, hs) s'"
proof -
  from serve_routes [OF assms(1), where r = r and s = s] assms(4,5)
  obtain w1 s1 w2 s2 where m: "mux L (routes_of L cfg allow services) (entering r) w1 s1 = (w2, s2)"
    and o: "outer_writer (request_id r) w1" "outer_state s s1"
    and e: "fst (serve h r s) = (fst (finish w2), snd (finish w2), w_body w2)" "outer_state s2 (snd (serve h r s))"
    by (metis option.inject sum.inject(2))
  have w1: "w_sent w1 = None" "w_header w1 = Header_Set CorrelationIDHeader (request_id r) (\<lambda>_. [])"
    using o(1) by (simp_all add: outer_writer_def)
  have "as_decided d l r s1 (finish w2) s2"
  proof (cases "target services (r_Path r)")
    case None
    then have "s2 = s1" using mux_elsewhere [OF assms(2) _ m] by simp
    moreover have "d = NotForServices" "l = g_limiter s" using assms(6) None by (simp_all add: decide_def)
    ultimately show ?thesis using o(2) by (simp add: as_decided_def handed_over_def refusal_ok_def outer_state_def)
  next
    case (Some nu)
    then obtain name u where t: "target services (r_Path r) = Some (name, u)" by (cases nu) simp
    then have n: "name \<in> set service_names" "under name (r_Path r)" "map_of services name = Some u"
      using target_iff by metis+
    have "service_handler L cfg allow name u (entering r) w1 s1 = (w2, s2)"
      using m mux_service [OF assms(2) n(1,3), of "entering r" cfg allow w1 s1] n(2) by simp
    moreover have "decide L cfg allow services r (g_limiter s1) = (d, l)"
      using assms(6) o(2) by (simp add: outer_state_def)
    ultimately show ?thesis by (rule service_decides [OF assms(3) n(1,2,3) _ w1])
  qed
  then show ?thesis using e o(2) assms(7) by (simp add: as_decided_def outer_state_def)
qed

end
