(* ===== verification/SlidingWindowLog.thy ===== *)
theory SlidingWindowLog
  imports Limiter
begin

text \<open>
  The in-memory sliding window log (\<open>ratelimiter/algorithms/slidingwindowlog.go\<close>): one timestamp
  per admitted request, counted exactly.  All of its arithmetic is on integers.
\<close>

section \<open>The code\<close>

record SlidingWindowLog =
  swl_limit :: int
  swl_window :: duration
  logs :: "string \<rightharpoonup> time list"

definition NewSlidingWindowLog :: "int \<Rightarrow> duration \<Rightarrow> (limiter_error, SlidingWindowLog) result" where
  "NewSlidingWindowLog limit window =
     (if limit \<le> 0 then Inl (NonPositive ''sliding window log: limit'' limit)
      else if window \<le> 0 then Inl (NonPositive ''sliding window log: window'' window)
      else Inr \<lparr>swl_limit = limit, swl_window = window, logs = Map.empty\<rparr>)"

definition clamp :: "SlidingWindowLog \<Rightarrow> duration \<Rightarrow> duration" where
  "clamp s d = (if d < 0 then 0 else if swl_window s < d then swl_window s else d)"

text \<open>\<open>oldest\<close> and \<open>newest\<close> scan a non-empty slice; on an empty one the code is never called.\<close>

definition oldest :: "time list \<Rightarrow> time" where
  "oldest ts = fold (\<lambda>t m. if t < m then t else m) (tl ts) (hd ts)"

definition newest :: "time list \<Rightarrow> time" where
  "newest ts = fold (\<lambda>t m. if m < t then t else m) (tl ts) (hd ts)"

text \<open>A missing map entry reads as a nil slice.\<close>

definition log_of :: "SlidingWindowLog \<Rightarrow> string \<Rightarrow> time list" where
  "log_of s key = (case logs s key of None \<Rightarrow> [] | Some ts \<Rightarrow> ts)"

definition SlidingWindowLog_Allow ::
  "SlidingWindowLog \<Rightarrow> time \<Rightarrow> string \<Rightarrow> (limiter_error, Result) result \<times> SlidingWindowLog" where
  "SlidingWindowLog_Allow s now key =
     (let cutoff = time_add now (- swl_window s);
          entries = filter (\<lambda>ts. cutoff < ts) (log_of s key);
          ok = int (length entries) < swl_limit s;
          entries' = (if ok then entries @ [now] else entries);
          res = \<lparr>Allowed = ok, Limit = swl_limit s,
                 Remaining = (if ok then swl_limit s - int (length entries') else 0),
                 ResetAfter = (if 0 < length entries'
                               then clamp s (time_sub (time_add (newest entries') (swl_window s)) now)
                               else 0),
                 RetryAfter = (if ok then 0
                               else clamp s (time_sub (time_add (oldest entries') (swl_window s)) now))\<rparr>
      in (Inr res, s\<lparr>logs := (logs s)(key \<mapsto> entries')\<rparr>))"

section \<open>The invariant\<close>

definition swl_inv :: "int \<Rightarrow> duration \<Rightarrow> SlidingWindowLog \<Rightarrow> bool" where
  "swl_inv limit window s \<longleftrightarrow>
     0 < limit \<and> 0 < window \<and> is_int64 window \<and> swl_limit s = limit \<and> swl_window s = window
     \<and> (\<forall>key. int (length (log_of s key)) \<le> limit)"

lemma NewSlidingWindowLog_inv:
  "NewSlidingWindowLog limit window = Inr s \<Longrightarrow> is_int64 window \<Longrightarrow> swl_inv limit window s"
  by (auto simp: NewSlidingWindowLog_def swl_inv_def log_of_def split: if_splits)

lemma swl_invD:
  assumes "swl_inv limit window s"
  shows "0 < limit" "0 < window" "is_int64 window" "swl_limit s = limit" "swl_window s = window"
    "int (length (log_of s key)) \<le> limit"
  using assms by (auto simp: swl_inv_def)

lemma log_of_upd [simp]: "log_of (s\<lparr>logs := (logs s)(key \<mapsto> ts)\<rparr>) k = (if k = key then ts else log_of s k)"
  by (simp add: log_of_def)

text \<open>The entries of a key that still count at \<open>now\<close>.\<close>

definition in_window :: "SlidingWindowLog \<Rightarrow> time \<Rightarrow> string \<Rightarrow> time list" where
  "in_window s now key = filter (\<lambda>ts. now - swl_window s < ts) (log_of s key)"

lemma Allow_log:
  assumes "a = SlidingWindowLog_Allow s now key"
  shows "granted (fst a) \<longleftrightarrow> int (length (in_window s now key)) < swl_limit s"
    and "log_of (snd a) key = in_window s now key @ (if granted (fst a) then [now] else [])"
    and "k \<noteq> key \<Longrightarrow> log_of (snd a) k = log_of s k"
    and "swl_limit (snd a) = swl_limit s" "swl_window (snd a) = swl_window s"
  by (simp_all add: assms SlidingWindowLog_Allow_def Let_def granted_def in_window_def time_add_def)

lemma in_window_length: "length (in_window s now key) \<le> length (log_of s key)"
  by (simp add: in_window_def)

lemma clamp_range: "0 < swl_window s \<Longrightarrow> 0 \<le> clamp s d \<and> clamp s d \<le> swl_window s"
  by (simp add: clamp_def)

lemma swl_Allow_inv:
  assumes "swl_inv limit window s"
  shows "swl_inv limit window (snd (SlidingWindowLog_Allow s now key))"
proof -
  define a where "a = SlidingWindowLog_Allow s now key"
  note A = Allow_log [OF a_def]
  have "int (length (log_of (snd a) k)) \<le> limit" for k
  proof (cases "k = key")
    case True
    then show ?thesis
      using A(1,2) swl_invD(4) [OF assms] swl_invD(6) [OF assms, of key] in_window_length [of s now key]
      by (auto split: if_splits)
  next
    case False
    then show ?thesis using A(3) [of k] swl_invD(6) [OF assms, of k] by simp
  qed
  then show ?thesis using assms A(4,5) by (simp add: swl_inv_def a_def)
qed

lemma swl_Allow_wf:
  assumes "swl_inv limit window s" and "fst (SlidingWindowLog_Allow s now key) = Inr r"
  shows "wf_result limit r \<and> RetryAfter r \<le> window \<and> ResetAfter r \<le> window"
  using assms(2) swl_invD(1-5) [OF assms(1)] clamp_range [of s]
  by (auto simp: SlidingWindowLog_Allow_def Let_def wf_result_def)

interpretation swl: limiter SlidingWindowLog_Allow log_of "swl_inv limit window" "\<lambda>_. True" limit for limit window
proof unfold_locales
  show "swl_inv limit window s \<Longrightarrow> swl_inv limit window (snd (SlidingWindowLog_Allow s now key))"
    for s now key by (rule swl_Allow_inv)
  show "swl_inv limit window s \<Longrightarrow> fst (SlidingWindowLog_Allow s now key) = Inr r \<Longrightarrow> wf_result limit r"
    for s now key r using swl_Allow_wf by blast
  show "key' \<noteq> key \<Longrightarrow> log_of (snd (SlidingWindowLog_Allow s now key)) key' = log_of s key'"
    for key' key s now by (simp add: Allow_log(3) [OF refl])
qed

section \<open>The ceiling is exact\<close>

definition granted_times :: "'s allow_fun \<Rightarrow> string \<Rightarrow> 's \<Rightarrow> (time \<times> string) list \<Rightarrow> time list" where
  "granted_times allow key s reqs =
     map (\<lambda>((t, _), _). t)
       (filter (\<lambda>((_, k), r). k = key \<and> granted r) (zip reqs (fst (run_calls allow s reqs))))"

lemma granted_times_simps:
  "granted_times allow key s [] = []"
  "granted_times allow key s ((now, k) # reqs) =
     (if k = key \<and> granted (fst (allow s now k)) then [now] else [])
     @ granted_times allow key (snd (allow s now k)) reqs"
  by (auto simp: granted_times_def run_calls_Cons)

definition window_count :: "duration \<Rightarrow> time \<Rightarrow> time list \<Rightarrow> nat" where
  "window_count w t ts = length (filter (\<lambda>g. t - w < g \<and> g \<le> t) ts)"

lemma window_count_Nil: "window_count w t [] = 0"
  by (simp add: window_count_def)

lemma window_count_append: "window_count w t (xs @ ys) = window_count w t xs + window_count w t ys"
  by (simp add: window_count_def)

text \<open>
  \<open>hist_ok\<close> relates a key's log at instant \<open>T\<close> to the full history \<open>H\<close> of its admissions: the log
  is the part of the history that a later window can still see, and no window of the history holds
  more than the limit.
\<close>

definition hist_ok :: "int \<Rightarrow> duration \<Rightarrow> time \<Rightarrow> time list \<Rightarrow> time list \<Rightarrow> bool" where
  "hist_ok limit w T H L \<longleftrightarrow>
     (\<forall>c \<ge> T - w. filter ((<) c) H = filter ((<) c) L)
     \<and> (\<forall>h \<in> set H. h \<le> T) \<and> (\<forall>t. int (window_count w t H) \<le> limit)"

lemma hist_ok_later: "hist_ok limit w T H L \<Longrightarrow> T \<le> T' \<Longrightarrow> hist_ok limit w T' H L"
  by (fastforce simp: hist_ok_def)

lemma hist_ok_prune:
  assumes "hist_ok limit w T H L"
  shows "hist_ok limit w T H (filter ((<) (T - w)) L)"
proof -
  have "filter ((<) c) (filter ((<) (T - w)) L) = filter ((<) c) L" if "T - w \<le> c" for c
    unfolding filter_filter using that by (intro filter_cong) auto
  with assms show ?thesis by (simp add: hist_ok_def)
qed

lemma hist_ok_grant:
  assumes ok: "hist_ok limit w T H L" and room: "int (length (filter ((<) (T - w)) L)) < limit"
    and w: "0 < w"
  shows "hist_ok limit w T (H @ [T]) (filter ((<) (T - w)) L @ [T])"
proof -
  have eq: "filter ((<) c) (H @ [T]) = filter ((<) c) (filter ((<) (T - w)) L @ [T])"
    if "T - w \<le> c" for c
    using hist_ok_prune [OF ok] that by (simp add: hist_ok_def)
  have count: "int (window_count w t (H @ [T])) \<le> limit" for t
  proof (cases "T \<le> t \<and> t - w < T")
    case True
    have "window_count w t H \<le> length (filter ((<) (T - w)) H)"
      unfolding window_count_def using True by (induction H) auto
    also have "\<dots> = length (filter ((<) (T - w)) L)" using ok by (simp add: hist_ok_def)
    finally show ?thesis using room True by (simp add: window_count_def)
  next
    case False
    then have "window_count w t (H @ [T]) = window_count w t H" by (auto simp: window_count_def)
    then show ?thesis using ok by (simp add: hist_ok_def)
  qed
  show ?thesis using eq count ok by (auto simp: hist_ok_def)
qed

lemma hist_run:
  assumes "swl_inv limit window s" and "hist_ok limit window T H (log_of s key)"
    and "sorted (map fst reqs)" and "\<forall>(t, k) \<in> set reqs. T \<le> t"
  shows "int (window_count window t (H @ granted_times SlidingWindowLog_Allow key s reqs)) \<le> limit"
  using assms
proof (induction reqs arbitrary: s T H)
  case Nil
  then show ?case by (simp add: granted_times_simps hist_ok_def)
next
  case (Cons req reqs)
  obtain now k where req: "req = (now, k)" by (cases req)
  define a where "a = SlidingWindowLog_Allow s now k"
  note A = Allow_log [OF a_def]
  have inv': "swl_inv limit window (snd a)" unfolding a_def by (rule swl_Allow_inv [OF Cons.prems(1)])
  have srt: "sorted (map fst reqs)" and rest: "\<forall>(t, k) \<in> set reqs. now \<le> t"
    using Cons.prems(3) req by auto
  have ok: "hist_ok limit window now H (log_of s key)"
    using hist_ok_later [OF Cons.prems(2)] Cons.prems(4) req by auto
  note W = swl_invD(2,4,5) [OF Cons.prems(1)]
  have iw: "in_window s now key = filter ((<) (now - window)) (log_of s key)"
    using W(3) by (simp add: in_window_def)
  let ?new = "if k = key \<and> granted (fst a) then [now] else []"
  have "hist_ok limit window now (H @ ?new) (log_of (snd a) key)"
  proof (cases "k = key")
    case False
    then show ?thesis using ok A(3) [of key] by simp
  next
    case True
    show ?thesis
    proof (cases "granted (fst a)")
      case g: True
      then have "int (length (filter ((<) (now - window)) (log_of s key))) < limit"
        using A(1) True W(2) iw by simp
      from hist_ok_grant [OF ok this W(1)] show ?thesis using True g A(2) iw by simp
    next
      case False
      with hist_ok_prune [OF ok] show ?thesis using True A(2) iw by simp
    qed
  qed
  from Cons.IH [OF inv' this srt rest] show ?case
    by (simp add: req granted_times_simps a_def)
qed

lemma log_ceiling:
  assumes "NewSlidingWindowLog limit window = Inr s" and "is_int64 window"
    and "sorted (map fst reqs)"
  shows "int (window_count window t (granted_times SlidingWindowLog_Allow key s reqs)) \<le> limit"
proof (cases reqs)
  case Nil
  then show ?thesis using swl_invD(1) [OF NewSlidingWindowLog_inv [OF assms(1,2)]]
    by (simp add: granted_times_simps window_count_def)
next
  case (Cons req reqs')
  have inv: "swl_inv limit window s" by (rule NewSlidingWindowLog_inv [OF assms(1,2)])
  have "logs s = Map.empty" using assms(1) by (auto simp: NewSlidingWindowLog_def split: if_splits)
  then have "hist_ok limit window (fst req) [] (log_of s key)"
    using swl_invD(1) [OF inv] by (simp add: hist_ok_def log_of_def window_count_def)
  moreover have "\<forall>(t, k) \<in> set reqs. fst req \<le> t" using assms(3) Cons by auto
  ultimately show ?thesis using hist_run [OF inv _ assms(3), of "fst req" "[]" key t] by simp
qed

text \<open>
  C28.  The ceiling of the sliding window log is exact.  Whatever requests arrive, in clock order
  and for any mix of keys, no trailing window of the configured length, ending at any instant,
  contains more than \<open>limit\<close> admitted requests of one key.
\<close>

theorem hard_ceiling:
  assumes "NewSlidingWindowLog limit window = Inr s" and "is_int64 window"
    and "sorted (map fst reqs)"
  shows "int (window_count window t (granted_times SlidingWindowLog_Allow key s reqs)) \<le> limit"
  using assms by (rule log_ceiling)

theorem hard_ceiling_witness:
  "\<exists>s. NewSlidingWindowLog 2 10 = Inr s
     \<and> int (window_count 10 12 (granted_times SlidingWindowLog_Allow ''a'' s
         [(0, ''a''), (1, ''a''), (2, ''a''), (10, ''a''), (11, ''b''), (12, ''a'')])) \<le> 2"
proof -
  obtain s where s: "NewSlidingWindowLog 2 10 = Inr s" by (simp add: NewSlidingWindowLog_def)
  show ?thesis
    using hard_ceiling [OF s, of "[(0, ''a''), (1, ''a''), (2, ''a''), (10, ''a''), (11, ''b''), (12, ''a'')]"] s
    by (simp add: is_int64_def min_int64_def max_int64_def)
qed

section \<open>Retry-After is exact\<close>

lemma fold_min:
  "fold (\<lambda>t m. if t < m then t else m) ts m \<in> insert m (set ts)
   \<and> (\<forall>t \<in> insert m (set ts). fold (\<lambda>t m. if t < m then t else m) ts m \<le> (t :: int))"
proof (induction ts arbitrary: m)
  case (Cons a ts)
  from Cons.IH [of "if a < m then a else m"] show ?case by (auto split: if_splits)
qed simp

lemma oldest_min: "ts \<noteq> [] \<Longrightarrow> oldest ts \<in> set ts \<and> (\<forall>t \<in> set ts. oldest ts \<le> t)"
  using fold_min [of "tl ts" "hd ts"] by (cases ts) (auto simp: oldest_def)

text \<open>
  On a clock that does not go back, \<open>RetryAfter\<close> of the log is exact: it lies in
  \<open>(0, window]\<close>, every retry before it has passed is refused, and the retry at that instant is
  admitted (when no other request for the key comes between).
\<close>

theorem retry_after_exact:
  assumes "swl_inv limit window s" and "\<forall>ts \<in> set (log_of s key). ts \<le> now"
    and "SlidingWindowLog_Allow s now key = (Inr r, s')" and "\<not> Allowed r"
  shows "0 < RetryAfter r \<and> RetryAfter r \<le> window
    \<and> (\<forall>d. 0 \<le> d \<and> d < RetryAfter r \<longrightarrow> \<not> granted (fst (SlidingWindowLog_Allow s' (now + d) key)))
    \<and> granted (fst (SlidingWindowLog_Allow s' (now + RetryAfter r) key))"
proof -
  note inv = swl_invD [OF assms(1)]
  define E where "E = in_window s now key"
  define old where "old = oldest E"
  have den: "\<not> granted (Inr r)" using assms(4) by (simp add: granted_def)
  note A = Allow_log [OF assms(3) [symmetric], simplified]
  have E: "int (length E) = limit" "log_of s' key = E"
    using A(1,2) den in_window_length [of s now key] inv(4) inv(6) [of key] by (auto simp: E_def)
  then have ne: "E \<noteq> []" using inv(1) by auto
  have old: "old \<in> set E" "\<forall>t \<in> set E. old \<le> t" using oldest_min [OF ne] by (auto simp: old_def)
  have range: "now - window < old" "old \<le> now"
    using old(1) assms(2) inv(5) by (auto simp: E_def in_window_def)
  have ts: "time_sub (time_add old window) now = old + window - now"
    using range inv(2,3)
    by (simp add: time_add_def time_sub_def is_int64_def min_int64_def max_int64_def)
  have "RetryAfter r = clamp s (time_sub (time_add old window) now)"
    using assms(3,4) inv(5)
    by (auto simp: SlidingWindowLog_Allow_def Let_def old_def E_def in_window_def time_add_def)
  then have r: "RetryAfter r = old + window - now"
    using ts range inv(2,5) by (simp add: clamp_def)
  have iw: "in_window s' (now + d) key = filter (\<lambda>t. now + d - window < t) E" for d
    using A(5) inv(5) by (simp add: in_window_def E(2))
  have lim: "swl_limit s' = limit" using A(4) inv(4) by simp
  have "\<not> granted (fst (SlidingWindowLog_Allow s' (now + d) key))"
    if "0 \<le> d" "d < RetryAfter r" for d
  proof -
    have "filter (\<lambda>t. now + d - window < t) E = E"
      using that(2) r old(2) by (intro filter_True) fastforce
    then show ?thesis using Allow_log(1) [OF refl, of s' "now + d" key] iw [of d] E(1) lim by simp
  qed
  moreover have "granted (fst (SlidingWindowLog_Allow s' (now + RetryAfter r) key))"
  proof -
    have "length (filter (\<lambda>t. now + RetryAfter r - window < t) E) < length E"
      using old(1) r by (intro length_filter_less [of old]) simp_all
    then show ?thesis
      using Allow_log(1) [OF refl, of s' "now + RetryAfter r" key] iw [of "RetryAfter r"] E(1) lim by simp
  qed
  ultimately show ?thesis using r range by simp
qed

theorem retry_after_exact_witness:
  "\<exists>s r s'. SlidingWindowLog_Allow s 5 ''a'' = (Inr r, s') \<and> \<not> Allowed r \<and> 0 < RetryAfter r
     \<and> granted (fst (SlidingWindowLog_Allow s' (5 + RetryAfter r) ''a''))"
proof -
  let ?s = "\<lparr>swl_limit = 1, swl_window = 10, logs = Map.empty(''a'' \<mapsto> [3])\<rparr>"
  have inv: "swl_inv 1 10 ?s"
    by (simp add: swl_inv_def log_of_def is_int64_def min_int64_def max_int64_def)
  obtain r s' where a: "SlidingWindowLog_Allow ?s 5 ''a'' = (Inr r, s')" and d: "\<not> Allowed r"
    by (simp add: SlidingWindowLog_Allow_def Let_def log_of_def time_add_def)
  have "\<forall>ts \<in> set (log_of ?s ''a''). ts \<le> 5" by (simp add: log_of_def)
  from retry_after_exact [OF inv this a d] show ?thesis using a d by blast
qed

end
