(* ===== verification/GatewayClaims.thy ===== *)
theory GatewayClaims
  imports GatewayServe SlidingWindowLog
begin

text \<open>
  The properties of the gateway: it does what the reference decides, it alone says who a request is
  from, a limiter behind it bounds what services see, every response carries its identifier, log and
  metrics record the status that was sent.
\<close>

section \<open>Sequences of requests\<close>

fun serve_all :: "'s http_handler \<Rightarrow> inbound list \<Rightarrow> 's \<Rightarrow> (int \<times> headers \<times> chunk list) list \<times> 's" where
  "serve_all h [] s = ([], s)"
| "serve_all h (r # rs) s =
     (let (x, s1) = serve h r s; (xs, s2) = serve_all h rs s1 in (x # xs, s2))"

fun decisions ::
  "libs \<Rightarrow> 'l Config \<Rightarrow> 'l allow_fun \<Rightarrow> (string \<times> url) list \<Rightarrow> inbound list \<Rightarrow> 'l \<Rightarrow> decision list \<times> 'l" where
  "decisions L cfg allow services [] l = ([], l)"
| "decisions L cfg allow services (r # rs) l =
     (let (d, l1) = decide L cfg allow services r l; (ds, l2) = decisions L cfg allow services rs l1 in (d # ds, l2))"

text \<open>A configured gateway in front of a router that keeps its contract.\<close>

definition gateway_of ::
  "libs \<Rightarrow> 'l Config \<Rightarrow> 'l allow_fun \<Rightarrow> (string \<times> url) list \<Rightarrow> 'l gw_handler \<Rightarrow> bool" where
  "gateway_of L cfg allow services h \<longleftrightarrow>
     chi_contract (lib_find L) \<and> New_Router L cfg = Inr h \<and> cfg_Limiter cfg = Some allow
     \<and> parse_services (lib_url L) (cfg_Services cfg) = Inr services"

lemma decides:
  assumes "gateway_of L cfg allow services h" and "from_network r"
    and "decide L cfg allow services r (g_limiter s) = (d, l)"
  shows "as_decided d l r s (fst (fst (serve h r s)), fst (snd (fst (serve h r s)))) (snd (serve h r s))"
proof -
  obtain st hs body s' where "serve h r s = ((st, hs, body), s')" by (metis surj_pair)
  then show ?thesis using serve_decides [OF _ _ assms(2) _ _ assms(3)] assms(1) by (fastforce simp: gateway_of_def)
qed

text \<open>
  C8.  The composed gateway (identifier, log, metrics, router, token check, limiter, proxy) is
  equivalent to the reference decision on every sequence of requests: the limiter ends in the state
  the decisions leave it in, so it is asked exactly once for each request with a target and an
  identity where one is needed, and for no other; the services are handed exactly the admitted
  requests, in order; a refused request is answered with 401, 503 or 429 and the headers that go with
  it.
\<close>

theorem gateway_decides:
  assumes "gateway_of L cfg allow services h" and "\<forall>r \<in> set rs. from_network r"
    and "decisions L cfg allow services rs (g_limiter s) = (ds, l)" and "serve_all h rs s = (resps, s')"
  shows "g_limiter s' = l
    \<and> g_forwarded s' = g_forwarded s @ concat (map2 handed_over ds rs)
    \<and> length resps = length ds
    \<and> (\<forall>(d, st, hs, body) \<in> set (zip ds resps). refusal_ok d st hs)"
  using assms(2-)
proof (induction rs arbitrary: s ds resps)
  case Nil
  then show ?case by simp
next
  case (Cons r rs)
  obtain d l1 where d: "decide L cfg allow services r (g_limiter s) = (d, l1)" by fastforce
  obtain st hs body s1 where x: "serve h r s = ((st, hs, body), s1)" by (metis surj_pair)
  have a: "as_decided d l1 r s (st, hs) s1" using decides [OF assms(1) _ d] Cons.prems(1) x by simp
  obtain ds' where ds: "decisions L cfg allow services rs l1 = (ds', l)" "ds = d # ds'"
    using Cons.prems(2) d by (auto split: prod.splits)
  obtain xs where xs: "serve_all h rs s1 = (xs, s')" "resps = (st, hs, body) # xs"
    using Cons.prems(3) x by (auto split: prod.splits)
  have "g_limiter s' = l \<and> g_forwarded s' = g_forwarded s1 @ concat (map2 handed_over ds' rs)
    \<and> length xs = length ds' \<and> (\<forall>(d, st, hs, body) \<in> set (zip ds' xs). refusal_ok d st hs)"
    using Cons.prems(1) ds(1) xs(1) a by (intro Cons.IH) (simp_all add: as_decided_def)
  then show ?case using a ds(2) xs(2) by (simp add: as_decided_def)
qed

section \<open>Who a request is from\<close>

lemma decide_Admitted:
  assumes "fst (decide L cfg allow services r l) = Admitted u who res"
  obtains name where "name \<in> set service_names" and "under name (r_Path r)" and "map_of services name = Some u"
    and "who = (if name = ''auth'' then None else identity (lib_jwt L) (cfg_JWT cfg) r)"
    and "name \<noteq> ''auth'' \<Longrightarrow> who \<noteq> None"
proof -
  obtain name u' where t: "target services (r_Path r) = Some (name, u')"
    using assms by (cases "target services (r_Path r)") (auto simp: decide_def)
  define w where "w = (if name = ''auth'' then None else identity (lib_jwt L) (cfg_JWT cfg) r)"
  have e: "decide L cfg allow services r l
      = (if name \<noteq> ''auth'' \<and> w = None then (Unauthenticated, l) else admission cfg allow u' w r l)"
    unfolding decide_def t w_def by (simp only: option.case prod.case Let_def)
  have n: "\<not> (name \<noteq> ''auth'' \<and> w = None)"
  proof
    assume "name \<noteq> ''auth'' \<and> w = None"
    then show False using assms e by simp
  qed
  then have "fst (admission cfg allow u' w r l) = Admitted u who res"
    using assms e by (simp only: if_False)
  then have "u' = u" "w = who"
    by (auto simp: admission_def split: prod.splits sum.splits if_splits)
  then show thesis using t n that unfolding target_iff w_def by metis
qed

lemma decisions_nth:
  assumes "decisions L cfg allow services rs l = (ds, l')"
  shows "length ds = length rs \<and> (\<forall>i < length rs. \<exists>k. ds ! i = fst (decide L cfg allow services (rs ! i) k))"
  using assms
proof (induction rs arbitrary: l ds)
  case (Cons r rs)
  obtain d l1 where d: "decide L cfg allow services r l = (d, l1)" by fastforce
  obtain ds' where ds: "decisions L cfg allow services rs l1 = (ds', l')" "ds = d # ds'"
    using Cons.prems d by (auto split: prod.splits)
  have "\<exists>k. (d # ds') ! i = fst (decide L cfg allow services ((r # rs) ! i) k)" if "i < length (r # rs)" for i
    using that Cons.IH [OF ds(1)] d by (cases i) (auto intro!: exI [of _ l])
  then show ?case using Cons.IH [OF ds(1)] ds(2) by simp
qed simp

lemma serve_all_forwards:
  assumes "gateway_of L cfg allow services h" and "\<forall>r \<in> set rs. from_network r"
    and "serve_all h rs s = (resps, s')"
  shows "\<exists>ds l. decisions L cfg allow services rs (g_limiter s) = (ds, l) \<and> g_limiter s' = l
    \<and> g_forwarded s' = g_forwarded s @ concat (map2 handed_over ds rs)"
  using assms(2,3)
proof (induction rs arbitrary: s resps)
  case (Cons r rs)
  obtain d l1 where d: "decide L cfg allow services r (g_limiter s) = (d, l1)" by fastforce
  obtain st hs body s1 where x: "serve h r s = ((st, hs, body), s1)" by (metis surj_pair)
  have a: "as_decided d l1 r s (st, hs) s1" using decides [OF assms(1) _ d] Cons.prems(1) x by simp
  obtain xs where xs: "serve_all h rs s1 = (xs, s')"
    using Cons.prems(2) x by (auto split: prod.splits)
  from Cons.IH [OF _ xs] Cons.prems(1)
  obtain ds l where "decisions L cfg allow services rs l1 = (ds, l)" "g_limiter s' = l"
    "g_forwarded s' = g_forwarded s1 @ concat (map2 handed_over ds rs)"
    using a by (auto simp: as_decided_def)
  then show ?case using a d by (auto simp: as_decided_def)
qed simp

lemma in_concat_map2:
  assumes "x \<in> set (concat (map2 f xs ys))"
  obtains i where "i < length xs" and "i < length ys" and "x \<in> set (f (xs ! i) (ys ! i))"
  using assms by (auto simp: set_zip)

text \<open>
  What a service is sent on behalf of a request: it lies under the prefix of the service, and its
  subject header is absent or the subject of the bearer token of the request.
\<close>

definition speaks_for ::
  "libs \<Rightarrow> 'l Config \<Rightarrow> (string \<times> url) list \<Rightarrow> inbound \<Rightarrow> url \<times> outbound \<Rightarrow> bool" where
  "speaks_for L cfg services r x \<longleftrightarrow>
     (\<exists>name \<in> set service_names. under name (r_Path r) \<and> map_of services name = Some (fst x)
        \<and> (if name = ''auth'' then out_Header (snd x) ''X-User-Id'' = []
           else \<exists>sub. identity (lib_jwt L) (cfg_JWT cfg) r = Some sub
              \<and> out_Header (snd x) ''X-User-Id'' = (if nominates r ''X-User-Id'' then [] else [sub])))"

lemma speaks_for_identity:
  "speaks_for L cfg services r x \<Longrightarrow> out_Header (snd x) ''X-User-Id'' = [sub] \<Longrightarrow>
   identity (lib_jwt L) (cfg_JWT cfg) r = Some sub"
  by (auto simp: speaks_for_def split: if_splits)

lemma handed_over_speaks_for:
  assumes "fst (decide L cfg allow services r k) = d" and "x \<in> set (handed_over d r)"
  shows "speaks_for L cfg services r x"
proof -
  obtain u who res where w: "d = Admitted u who res" "x = (u, Rewrite u (presented who r))"
    using assms(2) by (cases d) (auto simp: handed_over_def split: if_splits)
  with assms(1) have "fst (decide L cfg allow services r k) = Admitted u who res" by simp
  then show ?thesis
  proof (rule decide_Admitted)
    fix name
    assume n: "name \<in> set service_names" "under name (r_Path r)" "map_of services name = Some u"
      and who: "who = (if name = ''auth'' then None else identity (lib_jwt L) (cfg_JWT cfg) r)"
      and some: "name \<noteq> ''auth'' \<Longrightarrow> who \<noteq> None"
    have subject: "if name = ''auth'' then out_Header (snd x) ''X-User-Id'' = []
       else \<exists>sub. identity (lib_jwt L) (cfg_JWT cfg) r = Some sub
          \<and> out_Header (snd x) ''X-User-Id'' = (if nominates r ''X-User-Id'' then [] else [sub])"
      using who some sent_headers(1) [of u who r] w(2) by auto
    show ?thesis
      unfolding speaks_for_def
      by (intro bexI [of _ name] conjI n(1,2) subject) (simp add: n(3) w(2))
  qed
qed

text \<open>
  C7.  The identity a service reads is the gateway's.  Whatever requests clients send, with whatever
  headers in whatever spelling, each request handed to a service comes from one of them, under the
  prefix of that service, and its subject header is absent or is the subject of the bearer token that
  request carries; behind the protected prefixes there is such a token, and the subject is there
  unless the client itself had it removed by naming it in \<open>Connection\<close>; behind the public prefix there
  never is one.  The other services read this header as \<open>Subject\<close>.
\<close>

theorem identity_is_proven:
  assumes "gateway_of L cfg allow services h" and "\<forall>r \<in> set rs. from_network r"
    and "serve_all h rs s = (resps, s')"
  shows "\<exists>new. g_forwarded s' = g_forwarded s @ new
    \<and> (\<forall>x \<in> set new. \<exists>r \<in> set rs. speaks_for L cfg services r x)"
proof -
  obtain ds l where ds: "decisions L cfg allow services rs (g_limiter s) = (ds, l)"
    and f: "g_forwarded s' = g_forwarded s @ concat (map2 handed_over ds rs)"
    using serve_all_forwards [OF assms] by blast
  have "\<exists>r \<in> set rs. speaks_for L cfg services r x" if "x \<in> set (concat (map2 handed_over ds rs))" for x
    using that
  proof (rule in_concat_map2)
    fix i assume i: "i < length ds" "i < length rs" "x \<in> set (handed_over (ds ! i) (rs ! i))"
    obtain k where "fst (decide L cfg allow services (rs ! i) k) = ds ! i"
      using decisions_nth [OF ds] i(2) by metis
    then have "speaks_for L cfg services (rs ! i) x" using i(3) by (rule handed_over_speaks_for)
    then show ?thesis using i(2) nth_mem by blast
  qed
  then show ?thesis using f by blast
qed

section \<open>What a limiter behind the gateway bounds\<close>

text \<open>The instants of the requests after which a service has been sent something in a user's name.\<close>

fun sent_times :: "'l gw_handler \<Rightarrow> string \<Rightarrow> inbound list \<Rightarrow> 'l gateway \<Rightarrow> time list" where
  "sent_times h sub [] s = []"
| "sent_times h sub (r # rs) s =
     (let s1 = snd (serve h r s);
          new = drop (length (g_forwarded s)) (g_forwarded s1)
      in (if list_ex (\<lambda>(u, out). out_Header out ''X-User-Id'' = [sub]) new then [at_now r] else [])
         @ sent_times h sub rs s1)"

text \<open>The calls the limiter gets.\<close>

fun limiter_calls :: "libs \<Rightarrow> 'l Config \<Rightarrow> (string \<times> url) list \<Rightarrow> inbound list \<Rightarrow> (time \<times> string) list" where
  "limiter_calls L cfg services [] = []"
| "limiter_calls L cfg services (r # rs) =
     (case target services (r_Path r) of
        None \<Rightarrow> []
      | Some (name, u) \<Rightarrow>
          (if name = ''auth'' then [(at_now r, budget_key None r)]
           else case identity (lib_jwt L) (cfg_JWT cfg) r of
             None \<Rightarrow> [] | Some sub \<Rightarrow> [(at_now r, budget_key (Some sub) r)]))
     @ limiter_calls L cfg services rs"

lemma limiter_calls_times:
  "set (map fst (limiter_calls L cfg services rs)) \<subseteq> at_now ` set rs"
  by (induction rs) (auto split: option.splits if_splits)

lemma limiter_calls_sorted:
  "sorted (map at_now rs) \<Longrightarrow> sorted (map fst (limiter_calls L cfg services rs))"
proof (induction rs)
  case (Cons r rs)
  have "\<forall>t \<in> set (map fst (limiter_calls L cfg services rs)). at_now r \<le> t"
    using limiter_calls_times [of L cfg services rs] Cons.prems by auto
  then show ?case using Cons by (auto split: option.splits if_splits)
qed simp

text \<open>
  One request: the limiter is called as listed, and a service is sent something in the name of a user
  only if that call, with the key of the user, is granted.
\<close>

lemma sent_granted:
  assumes "gateway_of L cfg allow services h" and "from_network r" and "\<not> cfg_FailOpen cfg"
    and "serve h r s = (x, s1)"
    and "limiter_calls L cfg services [r] = calls"
  shows "g_limiter s1 = snd (run_calls allow (g_limiter s) calls)
    \<and> (list_ex (\<lambda>(u, out). out_Header out ''X-User-Id'' = [sub]) (drop (length (g_forwarded s)) (g_forwarded s1))
       \<longrightarrow> granted_times allow (''user:'' @ sub) (g_limiter s) calls = [at_now r])"
proof -
  obtain d l where d: "decide L cfg allow services r (g_limiter s) = (d, l)" by fastforce
  have a: "g_limiter s1 = l" "g_forwarded s1 = g_forwarded s @ handed_over d r"
    using decides [OF assms(1,2) d] assms(4) by (simp_all add: as_decided_def)
  show ?thesis
  proof (cases "target services (r_Path r)")
    case None
    then show ?thesis using a d assms(5) by (auto simp: decide_def handed_over_def)
  next
    case (Some nu)
    then obtain name u where t: "target services (r_Path r) = Some (name, u)" by (cases nu) simp
    define who where "who = (if name = ''auth'' then None else identity (lib_jwt L) (cfg_JWT cfg) r)"
    show ?thesis
    proof (cases "name \<noteq> ''auth'' \<and> who = None")
      case True
      then show ?thesis using a d assms(5) t by (auto simp: decide_def handed_over_def who_def)
    next
      case False
      then have calls: "calls = [(at_now r, budget_key who r)]"
        using assms(5) t by (cases "name = ''auth''") (auto simp: who_def)
      obtain answer l' where al: "allow (g_limiter s) (at_now r) (budget_key who r) = (answer, l')" by fastforce
      have "admission cfg allow u who r (g_limiter s) = (d, l)"
        using d t False unfolding decide_def t who_def by (simp only: option.case prod.case Let_def if_False)
      then have l: "l = l'" and dd: "d = (case answer of Inl _ \<Rightarrow> Unavailable
          | Inr res \<Rightarrow> if Allowed res then Admitted u who (Some res) else Throttled res)"
        using al assms(3) by (auto simp: admission_def split: sum.splits)
      have "granted_times allow (''user:'' @ sub) (g_limiter s) calls = [at_now r]"
        if "list_ex (\<lambda>(u, out). out_Header out ''X-User-Id'' = [sub]) (handed_over d r)"
      proof -
        have "granted answer" and "out_Header (Rewrite u (presented who r)) ''X-User-Id'' = [sub]"
          using that dd by (auto simp: handed_over_def granted_def split: sum.splits if_splits)
        then have "who = Some sub" using sent_headers(1) [of u who r]
          by (auto split: if_splits option.splits)
        then show ?thesis using al \<open>granted answer\<close> by (simp add: calls granted_times_simps budget_key_def)
      qed
      then show ?thesis using a l al by (simp add: calls run_calls_Cons)
    qed
  qed
qed

lemma run_calls_append:
  "run_calls allow s (xs @ ys) =
     (fst (run_calls allow s xs) @ fst (run_calls allow (snd (run_calls allow s xs)) ys),
      snd (run_calls allow (snd (run_calls allow s xs)) ys))"
  by (induction xs arbitrary: s) (auto simp: run_calls_Cons)

lemma granted_times_append:
  "granted_times allow k s (xs @ ys)
   = granted_times allow k s xs @ granted_times allow k (snd (run_calls allow s xs)) ys"
  by (induction xs arbitrary: s) (auto simp: granted_times_simps run_calls_Cons)

lemma limiter_calls_Cons:
  "limiter_calls L cfg services (r # rs) = limiter_calls L cfg services [r] @ limiter_calls L cfg services rs"
  by simp

lemma sent_within_granted:
  assumes "gateway_of L cfg allow services h" and "\<forall>r \<in> set rs. from_network r" and "\<not> cfg_FailOpen cfg"
  shows "window_count w t (sent_times h sub rs s)
    \<le> window_count w t (granted_times allow (''user:'' @ sub) (g_limiter s) (limiter_calls L cfg services rs))"
  using assms(2)
proof (induction rs arbitrary: s)
  case (Cons r rs)
  obtain x s1 where x: "serve h r s = (x, s1)" by fastforce
  define calls where "calls = limiter_calls L cfg services [r]"
  note one = sent_granted [OF assms(1) _ assms(3) x calls_def [symmetric], of sub]
  have "window_count w t (sent_times h sub rs s1)
     \<le> window_count w t (granted_times allow (''user:'' @ sub) (g_limiter s1) (limiter_calls L cfg services rs))"
    using Cons by simp
  moreover have "g_limiter s1 = snd (run_calls allow (g_limiter s) calls)" using one Cons.prems by simp
  moreover have "window_count w t (sent_times h sub [r] s)
     \<le> window_count w t (granted_times allow (''user:'' @ sub) (g_limiter s) calls)"
    using one Cons.prems x by (auto simp: Let_def window_count_def)
  moreover have "sent_times h sub (r # rs) s = sent_times h sub [r] s @ sent_times h sub rs s1"
    using x by (simp add: Let_def)
  ultimately show ?case
    unfolding limiter_calls_Cons [of L cfg services r rs] calls_def [symmetric]
    by (simp only: granted_times_append window_count_append)
qed (simp add: window_count_def)

text \<open>
  C9.  Behind a gateway that fails closed and holds a sliding window log, no trailing window contains
  more than \<open>limit\<close> requests that a service is sent in the name of one user, wherever they come from,
  whatever else is sent, however the client spells or repeats its headers.
\<close>

theorem user_ceiling:
  assumes "gateway_of L cfg SlidingWindowLog_Allow services h" and "\<not> cfg_FailOpen cfg"
    and "NewSlidingWindowLog limit window = Inr (g_limiter s)" and "is_int64 window"
    and "\<forall>r \<in> set rs. from_network r" and "sorted (map at_now rs)"
  shows "int (window_count window t (sent_times h sub rs s)) \<le> limit"
  using sent_within_granted [OF assms(1,5,2), of window t sub s]
    log_ceiling [OF assms(3,4) limiter_calls_sorted [OF assms(6), of L cfg services], of t "''user:'' @ sub"]
  by linarith

end
