(* ===== verification/GatewayTrace.thy ===== *)
theory GatewayTrace
  imports GatewayClaims
begin

text \<open>
  Traceability: the identifier on responses and forwarded requests, the status in the access log and
  in the metrics.
\<close>

section \<open>The identifier on every response\<close>

text \<open>\<open>bears i w\<close>: the identifier heads its header, in what is pending and in what was sent.\<close>

definition heads :: "string \<Rightarrow> headers \<Rightarrow> bool" where
  "heads i h \<longleftrightarrow> (\<exists>vs. h ''X-Correlation-Id'' = i # vs)"

definition bears :: "string \<Rightarrow> writer \<Rightarrow> bool" where
  "bears i w \<longleftrightarrow> heads i (w_header w) \<and> (\<forall>c h. w_sent w = Some (c, h) \<longrightarrow> heads i h)"

lemma bears_on_header: "bears i w \<Longrightarrow> (heads i (w_header w) \<Longrightarrow> heads i (f (w_header w))) \<Longrightarrow> bears i (on_header f w)"
  by (simp add: bears_def)

lemma bears_WriteHeader [simp]: "bears i w \<Longrightarrow> bears i (WriteHeader c w)"
  by (simp add: bears_def WriteHeader_def server_WriteHeader_def)

lemma bears_Write [simp]: "bears i w \<Longrightarrow> bears i (Write b w)"
  by (auto simp: bears_def Write_def server_WriteHeader_def Let_def)

lemma heads_Set [simp]: "CanonicalHeaderKey k \<noteq> ''X-Correlation-Id'' \<Longrightarrow> heads i (Header_Set k v h) = heads i h"
  by (simp add: heads_def)

lemma heads_Del [simp]: "CanonicalHeaderKey k \<noteq> ''X-Correlation-Id'' \<Longrightarrow> heads i (Header_Del k h) = heads i h"
  by (simp add: heads_def)

lemma heads_copy [simp]: "heads i h \<Longrightarrow> heads i (copyHeader src h)"
  by (auto simp: heads_def copyHeader_def)

lemma bears_finish: "bears i w \<Longrightarrow> Header_Get (snd (finish w)) CorrelationIDHeader = i"
  by (auto simp: bears_def heads_def finish_def Header_Get_def canonical_names split: option.splits)

lemma more_names:
  "CanonicalHeaderKey ''X-Content-Type-Options'' = ''X-Content-Type-Options''"
  "CanonicalHeaderKey ''Content-Length'' = ''Content-Length''"
  by (simp_all add: name_eval)

text \<open>The contents of a body name the identifier of the request they answer.\<close>

definition says :: "string \<Rightarrow> writer \<Rightarrow> bool" where
  "says i w \<longleftrightarrow> (\<forall>e c. ErrorJSONBody e c \<in> set (w_body w) \<longrightarrow> c = i)"

lemma says_simps [simp]:
  "says i (on_header f w) = says i w" "says i (WriteHeader code w) = says i w"
  "says i (Write (TextBody b) w) = says i w" "says i (Write (ObjectBody o') w) = says i w"
  "says i (Write (ErrorJSONBody e c) w) \<longleftrightarrow> says i w \<and> c = i"
  by (auto simp: says_def WriteHeader_def server_WriteHeader_def Write_def Let_def on_header_def)

definition traced :: "string \<Rightarrow> writer \<Rightarrow> bool" where
  "traced i w \<longleftrightarrow> bears i w \<and> says i w"

lemma traced_on_header:
  "traced i w \<Longrightarrow> (heads i (w_header w) \<Longrightarrow> heads i (f (w_header w))) \<Longrightarrow> traced i (on_header f w)"
  by (simp add: traced_def bears_on_header)

lemma CorrelationID_update [simp]:
  "CorrelationID (r\<lparr>r_Header := h, ctx_claims := c\<rparr>) = CorrelationID r"
  by (simp add: CorrelationID_def)

lemma traced_writeError: "traced i w \<Longrightarrow> CorrelationID r = i \<Longrightarrow> traced i (writeError r st msg w)"
  by (simp add: traced_def writeError_def bears_on_header canonical_names)

lemma traced_unauthorized: "traced i w \<Longrightarrow> CorrelationID r = i \<Longrightarrow> traced i (unauthorized r msg w)"
  unfolding unauthorized_def
  by (rule traced_writeError) (simp_all add: traced_def bears_on_header canonical_names)

lemma traced_http_Error: "traced i w \<Longrightarrow> traced i (http_Error msg c w)"
  by (simp add: traced_def http_Error_def bears_on_header canonical_names more_names)

lemma heads_fold_Set:
  "\<forall>(k, v) \<in> set hs. CanonicalHeaderKey k \<noteq> ''X-Correlation-Id'' \<Longrightarrow>
   heads i h \<Longrightarrow> heads i (fold (\<lambda>(k, v). Header_Set k v) hs h)"
  by (induction hs arbitrary: h) auto

lemma traced_answer:
  "\<forall>(k, v) \<in> set hs. CanonicalHeaderKey k \<noteq> ''X-Correlation-Id'' \<Longrightarrow> traced i w \<Longrightarrow>
   traced i (answer_with st hs body w)"
  by (simp add: traced_def answer_with_def bears_on_header heads_fold_Set)

lemma traced_proxy:
  assumes "\<forall>fw. rp_interim (up fw) = []" and "traced i w"
  shows "traced i (fst (newProxy up u r w s))"
  using assms traced_http_Error [OF assms(2)]
  by (auto simp: newProxy_def Let_def traced_def bears_on_header split: option.splits)

lemma traced_RateLimit:
  assumes "\<forall>fw. rp_interim (up fw) = []" and "traced i w" and "CorrelationID r = i"
  shows "traced i (fst (RateLimit cfg (newProxy up u) r w s))"
proof -
  have h: "traced i (on_header (setRateLimitHeaders res) w)" for res
    by (rule traced_on_header [OF assms(2)]) (simp add: setRateLimitHeaders_def limit_names)
  have "traced i (on_header (Header_Set ''Retry-After'' v) (on_header (setRateLimitHeaders res) w))" for v res
    by (rule traced_on_header [OF h]) (simp add: limit_names)
  then show ?thesis
    by (auto simp: RateLimit_def Let_def split: prod.splits sum.splits
        intro!: traced_proxy [OF assms(1)] traced_writeError [OF _ assms(3)] h assms(2))
qed

lemma traced_service:
  assumes "\<forall>fw. rp_interim (lib_upstream L fw) = []" and "traced i w" and "CorrelationID r = i"
  shows "traced i (fst (service_handler L cfg allow name u r w s))"
  by (auto simp: service_handler_def RequireJWT_def assms(3) split: sum.splits option.splits
      intro!: traced_RateLimit assms traced_unauthorized)

text \<open>What the parameters must not do: claim the header themselves, or send interim responses.\<close>

definition discreet :: "libs \<Rightarrow> bool" where
  "discreet L \<longleftrightarrow> (\<forall>m. \<forall>(k, v) \<in> set (fst (lib_page L m)). CanonicalHeaderKey k \<noteq> ''X-Correlation-Id'')
     \<and> (\<forall>fw. rp_interim (lib_upstream L fw) = [])"

lemma traced_mux:
  assumes "chi_contract (lib_find L)" and "discreet L" and "traced i w" and "CorrelationID r = i"
    and "mux L (routes_of L cfg allow services) r w s = (w', s')"
  shows "traced i w'"
  using assms(1)
proof (cases rule: mux_cases [where routes = "routes_of L cfg allow services" and r = r and w = w and s = s])
  case (refused st hs body)
  then show ?thesis using assms(3,5) traced_answer by auto
next
  case (handled rt act)
  from handled(1) show ?thesis
  proof (cases rule: routes_cases)
    case metrics
    then show ?thesis using handled(3) assms(2,3,5) traced_answer [of "fst (lib_page L (g_metrics s))" i w 200]
      by (auto simp: Metrics_Handler_def discreet_def split: prod.splits)
  next
    case health
    then show ?thesis using handled(3) assms(3,5)
      by (auto simp: health_def traced_def bears_on_header canonical_names)
  next
    case (service name u)
    have "(w', s') = service_handler L cfg allow name u r w s" using handled(3) assms(5) service(4) by simp
    then have "w' = fst (service_handler L cfg allow name u r w s)" by (metis fst_conv)
    then show ?thesis using assms(2-4) by (simp add: discreet_def traced_service)
  qed
qed

lemma traced_outer: "outer_writer i w \<Longrightarrow> traced i w"
  by (simp add: outer_writer_def traced_def bears_def says_def heads_def canonical_names)


section \<open>Log and metrics tell the truth\<close>

definition informational :: "int \<Rightarrow> bool" where
  "informational code \<longleftrightarrow> 100 \<le> code \<and> code \<le> 199 \<and> code \<noteq> 101"

text \<open>The services answer without interim responses.\<close>

definition plain_replies :: "upstream \<Rightarrow> bool" where
  "plain_replies up \<longleftrightarrow> (\<forall>fw. rp_interim (up fw) = []
     \<and> (\<forall>st h body. rp_final (up fw) = Some (st, h, body) \<longrightarrow> \<not> informational st))"

lemma plain_repliesD:
  "plain_replies up \<Longrightarrow> rp_interim (up fw) = []"
  "plain_replies up \<Longrightarrow> rp_final (up fw) = Some (st, h, body) \<Longrightarrow> \<not> informational st"
  by (auto simp: plain_replies_def)

text \<open>
  \<open>honest w w'\<close>: if the recorders agreed with the response before, they do after, and there are as
  many.  \<open>watched\<close>: what only the outer middleware writes.
\<close>

definition honest :: "writer \<Rightarrow> writer \<Rightarrow> bool" where
  "honest w w' \<longleftrightarrow> (recorded w \<longrightarrow> recorded w') \<and> length (w_recs w') = length (w_recs w)"

lemma honest_refl: "honest w w"
  by (simp add: honest_def)

lemma honest_steps:
  "honest w w' \<Longrightarrow> honest w (on_header f w')"
  "honest w w' \<Longrightarrow> honest w (Write b w')"
  "honest w w' \<Longrightarrow> \<not> informational code \<Longrightarrow> honest w (WriteHeader code w')"
  "honest w w' \<Longrightarrow> \<not> informational code \<Longrightarrow> honest w (http_Error msg code w')"
  by (auto simp: honest_def informational_def recorded_Write recorded_WriteHeader recorded_http_Error)

lemma honest_errors:
  "honest w w' \<Longrightarrow> \<not> informational code \<Longrightarrow> honest w (writeError r code msg w')"
  "honest w w' \<Longrightarrow> honest w (unauthorized r msg w')"
  "honest w w' \<Longrightarrow> \<not> informational code \<Longrightarrow> honest w (answer_with code hs body w')"
  by (simp_all add: writeError_def unauthorized_def answer_with_def honest_steps informational_def)

definition watched :: "'l gateway \<Rightarrow> log_line list \<times> (string \<times> string \<times> int \<Rightarrow> nat) \<times> (string \<times> string \<Rightarrow> nat) \<times> int" where
  "watched s = (g_access s, requests (g_metrics s), errors (g_metrics s), inFlight (g_metrics s))"

definition well_behaved :: "'l gateway \<Rightarrow> writer \<Rightarrow> writer \<times> 'l gateway \<Rightarrow> bool" where
  "well_behaved s w res \<longleftrightarrow> honest w (fst res) \<and> watched (snd res) = watched s"

lemma well_behaved_proxy:
  assumes "plain_replies up" and "honest w0 w" and "watched s = watched s0"
  shows "well_behaved s0 w0 (newProxy up u r w s)"
proof -
  have "\<not> informational 502" by (simp add: informational_def)
  moreover have "watched (s\<lparr>g_forwarded := f\<rparr>) = watched s" for f by (simp add: watched_def)
  ultimately show ?thesis using assms(2,3)
    by (auto simp: newProxy_def Let_def well_behaved_def plain_repliesD(1) [OF assms(1)]
        intro!: honest_steps dest: plain_repliesD(2) [OF assms(1)] split: option.splits)
qed

lemma watched_decision [simp]:
  "watched (s\<lparr>g_limiter := l\<rparr>) = watched s"
  "watched (s\<lparr>g_limiter := l, g_metrics := RecordRateLimitDecision a b c (g_metrics s)\<rparr>) = watched s"
  by (simp_all add: watched_def RecordRateLimitDecision_def)

lemma well_behaved_RateLimit:
  assumes "plain_replies up"
  shows "well_behaved s w (RateLimit cfg (newProxy up u) r w s)"
proof -
  note p = well_behaved_proxy [OF assms]
  have e: "well_behaved s w (writeError r code msg w', s')"
    if "honest w w'" "\<not> informational code" "watched s' = watched s" for code msg w' s'
    using that by (simp add: well_behaved_def honest_errors)
  show ?thesis
    by (auto simp: RateLimit_def Let_def informational_def honest_refl split: prod.splits sum.splits
        intro!: p e honest_steps)
qed

lemma well_behaved_service:
  assumes "plain_replies (lib_upstream L)"
  shows "well_behaved s w (service_handler L cfg allow name u r w s)"
proof -
  note rl = well_behaved_RateLimit [OF assms]
  have "well_behaved s w (unauthorized r msg w, s)" for msg
    by (simp add: well_behaved_def honest_errors honest_refl)
  then show ?thesis
    by (auto simp: service_handler_def RequireJWT_def rl split: sum.splits option.splits)
qed

lemma well_behaved_mux:
  assumes "chi_contract (lib_find L)" and "plain_replies (lib_upstream L)"
  shows "well_behaved s w (mux L (routes_of L cfg allow services) r w s)"
  using assms(1)
proof (cases rule: mux_cases [where routes = "routes_of L cfg allow services" and r = r and w = w and s = s])
  case (refused st hs body)
  then show ?thesis by (auto simp: well_behaved_def honest_errors honest_refl informational_def)
next
  case (handled rt act)
  from handled(1) show ?thesis
  proof (cases rule: routes_cases)
    case metrics
    then show ?thesis using handled(3)
      by (simp add: Metrics_Handler_def well_behaved_def honest_errors honest_refl informational_def split: prod.splits)
  next
    case health
    then show ?thesis using handled(3)
      by (simp add: health_def well_behaved_def honest_steps honest_refl informational_def)
  next
    case (service name u)
    then show ?thesis using handled(3) well_behaved_service [OF assms(2)] by simp
  qed
qed

lemma honest_reads:
  assumes "honest (wrap_writer w) w'" and "recorded w" and "w_sent w = None"
  shows "rec_status (hd (w_recs w')) = fst (finish w')" and "honest w (unwrap_writer w')"
proof -
  have r: "recorded w'" "length (w_recs w') = Suc (length (w_recs w))"
    using assms recorded_wrap by (simp_all add: honest_def)
  then have "hd (w_recs w') \<in> set (w_recs w')" by (metis hd_in_set length_0_conv nat.distinct(1))
  then show "rec_status (hd (w_recs w')) = fst (finish w')" by (rule recorded_status [OF r(1)])
  show "honest w (unwrap_writer w')" using r recorded_unwrap [OF r(1)] by (simp add: honest_def)
qed

lemma on_metrics_fields [simp]:
  "g_metrics (on_metrics f s) = f (g_metrics s)" "g_access (on_metrics f s) = g_access s"
  by (simp_all add: on_metrics_def)

lemma Metrics_counts:
  assumes "r_Path r \<noteq> ''/metrics''" and "recorded w" and "w_sent w = None"
    and "\<And>s w. well_behaved s w (m r w s)"
    and "Metrics_Middleware on_metrics route m r w s = (w', s')"
  shows "honest w w' \<and> g_access s' = g_access s
    \<and> requests (g_metrics s') = inc (r_Method r, route r, fst (finish w')) (requests (g_metrics s))
    \<and> errors (g_metrics s') = (if 500 \<le> fst (finish w') then inc (r_Method r, route r) (errors (g_metrics s))
                                else errors (g_metrics s))
    \<and> inFlight (g_metrics s') = inFlight (g_metrics s)"
proof -
  define s1 where "s1 = on_metrics (\<lambda>m. m\<lparr>inFlight := inFlight m + 1\<rparr>) s"
  obtain w2 s2 where m: "m r (wrap_writer w) s1 = (w2, s2)" by fastforce
  have wb: "honest (wrap_writer w) w2" "watched s2 = watched s1"
    using assms(4) [of s1 "wrap_writer w"] m by (simp_all add: well_behaved_def)
  have s1: "g_access s1 = g_access s" "requests (g_metrics s1) = requests (g_metrics s)"
    "errors (g_metrics s1) = errors (g_metrics s)" "inFlight (g_metrics s1) = inFlight (g_metrics s) + 1"
    by (simp_all add: s1_def on_metrics_def)
  note rd = honest_reads [OF wb(1) assms(2,3)]
  define st where "st = rec_status (hd (w_recs w2))"
  define s4 where "s4 = on_metrics (\<lambda>m. m\<lparr>durations := (durations m)
      ((r_Method r, route r) := durations m (r_Method r, route r) @ [seconds (at_took r)])\<rparr>)
      (on_metrics (\<lambda>m. m\<lparr>requests := inc (r_Method r, route r, st) (requests m)\<rparr>) s2)"
  have e: "w' = unwrap_writer w2" "s' = on_metrics (\<lambda>m. m\<lparr>inFlight := inFlight m - 1\<rparr>)
      (if 500 \<le> st then on_metrics (\<lambda>m. m\<lparr>errors := inc (r_Method r, route r) (errors m)\<rparr>) s4 else s4)"
    using assms(1,5) m
    by (auto simp add: Metrics_Middleware_def Let_def s4_def st_def simp flip: s1_def)
  have "st = fst (finish w')" using rd(1) e(1) by (simp add: st_def)
  then show ?thesis using rd(2) wb(2) s1 e by (simp add: s4_def watched_def)
qed


end
