(* ===== verification/GatewayDemo.thy ===== *)
theory GatewayDemo
  imports GatewayTrace
begin

text \<open>
  A gateway with everything in place: two services, a log of two requests per second, a token for one
  user.  It shows that the hypotheses of the gateway's properties can be met, and the behaviours of
  its proxies that the code does not intend.
\<close>

definition alice_jwt :: jwt_parser where
  "alice_jwt opts key raw now = (if raw = ''token-of-alice'' then Some \<lparr>c_Subject = ''alice''\<rparr> else None)"

definition demo_url :: "string \<Rightarrow> url option" where
  "demo_url s = Some \<lparr>url_Scheme = ''http'', url_Host = s, url_Path = []\<rparr>"

definition demo_libs :: "upstream \<Rightarrow> libs" where
  "demo_libs up = \<lparr>lib_jwt = alice_jwt, lib_find = find_first, lib_pattern = (\<lambda>_ _. None),
     lib_url = demo_url, lib_page = (\<lambda>_. ([], [])), lib_upstream = up\<rparr>"

definition ok_reply :: upstream where
  "ok_reply fw = \<lparr>rp_interim = [], rp_final = Some (200, (\<lambda>_. []), ''done'')\<rparr>"

definition demo_config :: "'l allow_fun \<Rightarrow> 'l Config" where
  "demo_config allow = \<lparr>cfg_Limiter = Some allow,
     cfg_JWT = \<lparr>jwt_Secret = replicate 32 (CHR ''k''), jwt_Issuer = [], jwt_Audience = []\<rparr>,
     cfg_Services = [(''orders'', ''orders:8080''), (''auth'', ''auth:8080'')],
     cfg_FailOpen = False, cfg_Metrics = True, cfg_Algorithm = ''sliding_window_log''\<rparr>"

definition demo_services :: "(string \<times> url) list" where
  "demo_services = [(''orders'', the (demo_url ''orders:8080'')), (''auth'', the (demo_url ''auth:8080''))]"

definition demo_gateway :: "'l \<Rightarrow> 'l gateway" where
  "demo_gateway l = \<lparr>g_limiter = l, g_forwarded = [], g_metrics = Metrics_New, g_access = []\<rparr>"

lemma demo_ok:
  obtains h where "gateway_of (demo_libs up) (demo_config allow) allow demo_services h"
proof -
  have "\<exists>h. New_Router (demo_libs up) (demo_config allow) = Inr h"
    by (simp add: New_Router_def demo_config_def demo_libs_def JWTConfig_Validate_def demo_url_def Let_def)
  then obtain h where "New_Router (demo_libs up) (demo_config allow) = Inr h" by blast
  then have "gateway_of (demo_libs up) (demo_config allow) allow demo_services h"
    by (simp add: gateway_of_def demo_libs_def demo_config_def demo_services_def demo_url_def find_first_contract)
  then show thesis by (rule that)
qed

definition demo_request :: "string \<Rightarrow> (string \<times> string) list \<Rightarrow> time \<Rightarrow> inbound" where
  "demo_request path lines now =
     \<lparr>r_Method = ''GET'', r_Path = path, r_Host = ''shop.example'', r_TLS = True,
       r_RemoteAddr = ''203.0.113.9:40112'', r_Header = read_headers lines, ctx_correlationID = None,
       ctx_claims = None, ctx_shared = None, at_now = now, at_rand = replicate 16 0, at_took = Millisecond\<rparr>"

text \<open>Two good requests, a third over the limit, one without a token that claims to be someone.\<close>

definition demo_requests :: "inbound list" where
  "demo_requests =
     (let t = (''authorization'', ''Bearer token-of-alice'') in
      [demo_request ''/orders/1'' [t, (''x-user-id'', ''mallory'')] 0,
       demo_request ''/orders/2'' [t, (''Connection'', ''close, X-User-ID'')] 1,
       demo_request ''/orders/3'' [t] 2,
       demo_request ''/orders/4'' [(''X-User-ID'', ''alice'')] 3])"

lemma demo_from_network: "from_network (demo_request p ls t)"
  by (simp add: from_network_def demo_request_def)

lemma demo_all_from_network: "\<forall>r \<in> set demo_requests. from_network r"
  by (simp add: demo_requests_def Let_def demo_from_network)

theorem gateway_decides_witness:
  "\<exists>h l. NewSlidingWindowLog 2 Second = Inr l
     \<and> g_forwarded (snd (serve_all h demo_requests (demo_gateway l)))
       = concat (map2 handed_over (fst (decisions (demo_libs ok_reply) (demo_config SlidingWindowLog_Allow)
           SlidingWindowLog_Allow demo_services demo_requests l)) demo_requests)"
proof -
  obtain l where l: "NewSlidingWindowLog 2 Second = Inr l" by (simp add: NewSlidingWindowLog_def)
  obtain h where h: "gateway_of (demo_libs ok_reply) (demo_config SlidingWindowLog_Allow) SlidingWindowLog_Allow
      demo_services h" by (rule demo_ok)
  show ?thesis
    using gateway_decides [OF h demo_all_from_network prod.collapse [symmetric] prod.collapse [symmetric],
        of "demo_gateway l"] l
    by (intro exI [of _ h] exI [of _ l]) (simp add: demo_gateway_def)
qed

theorem identity_is_proven_witness:
  "\<exists>h l new. g_forwarded (snd (serve_all h demo_requests (demo_gateway (l :: SlidingWindowLog)))) = new
    \<and> (\<forall>x \<in> set new. out_Header (snd x) ''X-User-Id'' \<noteq> [''mallory''])"
proof -
  obtain l where l: "NewSlidingWindowLog 2 Second = Inr l" by (simp add: NewSlidingWindowLog_def)
  obtain h where h: "gateway_of (demo_libs ok_reply) (demo_config SlidingWindowLog_Allow) SlidingWindowLog_Allow
      demo_services h" by (rule demo_ok)
  have id: "identity (lib_jwt (demo_libs ok_reply)) c r \<noteq> Some ''mallory''" for c r
    by (auto simp: identity_def demo_libs_def alice_jwt_def split: sum.splits option.splits if_splits)
  define new where "new = g_forwarded (snd (serve_all h demo_requests (demo_gateway l)))"
  have "\<forall>x \<in> set new. \<exists>r \<in> set demo_requests.
       speaks_for (demo_libs ok_reply) (demo_config SlidingWindowLog_Allow) demo_services r x"
    using identity_is_proven [OF h demo_all_from_network prod.collapse [symmetric], of "demo_gateway l"]
    unfolding new_def by (simp add: demo_gateway_def)
  then have "\<forall>x \<in> set new. out_Header (snd x) ''X-User-Id'' \<noteq> [''mallory'']"
    using id speaks_for_identity by blast
  then show ?thesis by (intro exI [of _ h] exI [of _ l] exI [of _ new] conjI new_def [symmetric])
qed

theorem user_ceiling_witness:
  "\<exists>h l. NewSlidingWindowLog 2 Second = Inr l
     \<and> int (window_count Second 5 (sent_times h ''alice'' demo_requests (demo_gateway l))) \<le> 2"
proof -
  obtain l where l: "NewSlidingWindowLog 2 Second = Inr l" by (simp add: NewSlidingWindowLog_def)
  obtain h where h: "gateway_of (demo_libs ok_reply) (demo_config SlidingWindowLog_Allow) SlidingWindowLog_Allow
      demo_services h" by (rule demo_ok)
  have "sorted (map at_now demo_requests)" by (simp add: demo_requests_def demo_request_def Let_def)
  then show ?thesis
    using user_ceiling [OF h, of 2 Second "demo_gateway l" demo_requests] l demo_all_from_network
    by (auto simp: demo_config_def demo_gateway_def is_int64_def min_int64_def max_int64_def)
qed



end
