(* ===== verification/GatewayGaps.thy ===== *)
theory GatewayGaps
  imports GatewayDemo
begin

text \<open>
  The waits the gateway advertises, and where its behaviour falls short of its comments.
\<close>

section \<open>Whole seconds\<close>

lemma is_f64_dyadic:
  assumes "\<bar>m\<bar> \<le> 2 ^ 53"
  shows "is_f64 (of_int m * 2 powi k)"
proof -
  have "sig_round 2 53 (of_int m * of_nat 2 powi k) = of_int m * of_nat 2 powi k"
    by (rule b64.round_exact) (use assms in simp)
  then show ?thesis by (simp add: is_f64_def f64_def)
qed

lemma secondsCeil_exact:
  assumes "0 < d" and "d < 2 ^ 23 * Second"
  shows "secondsCeil d = (d + 999999999) div Second"
proof -
  define q where "q = d div Second"
  define r where "r = d mod Second"
  have d: "d = q * Second + r" and r: "0 \<le> r" "r < Second" by (simp_all add: q_def r_def)
  have q: "0 \<le> q" "q < 2 ^ 23" using assms d r by auto
  have "is_int64 d" using assms by (simp add: is_int64_def min_int64_def max_int64_def)
  then have s: "seconds d = f64 (of_int q + f64 (of_int r / 1000000000))"
    using seconds_nonneg_form [of d] assms(1) by (simp add: q_def r_def)
  have "f64 (of_int r / 1000000000) \<le> 1"
    by (rule f64_le) (use is_f64_int [of 1] r in \<open>simp_all add: divide_le_eq\<close>)
  then have "of_int q + f64 (of_int r / 1000000000) \<le> of_int (q + 1)" by simp
  then have up: "seconds d \<le> of_int (q + 1)"
    unfolding s by (rule f64_le [rotated]) (use q in \<open>intro is_f64_int\<close>, simp)
  have c: "\<lceil>seconds d\<rceil> = (if r = 0 then q else q + 1)"
  proof (cases "r = 0")
    case True
    then show ?thesis using s q by (simp add: f64_int)
  next
    case False
    have f30: "is_f64 (2 powi (- 30))" using is_f64_dyadic [of 1 "- 30"] by simp
    have small: "(2 powi (- 30) :: rat) = 1 / 1073741824" by (simp add: power_int_minus field_simps)
    have "(1 :: rat) \<le> of_int r" using False r by simp
    then have "2 powi (- 30) \<le> (of_int r / 1000000000 :: rat)" unfolding small by (simp add: field_simps)
    then have "2 powi (- 30) \<le> f64 (of_int r / 1000000000)" by (rule f64_ge [OF f30])
    then have le: "of_int q + 2 powi (- 30) \<le> of_int q + f64 (of_int r / 1000000000)" by simp
    have "is_f64 (of_int (q * 2 ^ 30 + 1) * 2 powi (- 30))" by (rule is_f64_dyadic) (use q in simp)
    moreover have "of_int (q * 2 ^ 30 + 1) * 2 powi (- 30) = (of_int q + 2 powi (- 30) :: rat)"
      unfolding small by (simp add: field_simps)
    ultimately have "is_f64 (of_int q + 2 powi (- 30))" by (simp only:)
    then have "of_int q + 2 powi (- 30) \<le> seconds d" unfolding s using le by (rule f64_ge)
    then have "of_int q < seconds d" unfolding small by simp
    then have "\<lceil>seconds d\<rceil> = q + 1" using up by (simp add: ceiling_eq_iff)
    then show ?thesis using False by simp
  qed
  have "f2i (fceil (seconds d)) = \<lceil>seconds d\<rceil>"
  proof -
    have "0 \<le> \<lceil>seconds d\<rceil>" "\<lceil>seconds d\<rceil> \<le> 2 ^ 53" using c q by auto
    then show ?thesis unfolding fceil_def by (subst f2i_in_range) simp_all
  qed
  also have "\<dots> = (d + 999999999) div Second"
  proof (cases "r = 0")
    case True
    then show ?thesis using c d by (simp add: div_mult_self3)
  next
    case False
    have "(d + 999999999) div Second = q + (r + 999999999) div Second" using d by simp
    also have "(r + 999999999) div Second = 1" using False r by (intro int_div_pos_eq [where r = "r - 1"]) auto
    finally show ?thesis using c False by simp
  qed
  finally show ?thesis using assms(1) by (simp add: secondsCeil_def)
qed

text \<open>
  The advertised wait is the least number of whole seconds that is not shorter than the real one,
  at least one in \<open>Retry-After\<close>, and is read back from the header as that number, for waits below
  \<open>2 ^ 23\<close> seconds (97 days).
\<close>

theorem advertised_wait_suffices:
  assumes "d < 2 ^ 23 * Second"
  shows "d \<le> secondsCeil d * Second \<and> secondsCeil d * Second < max 0 d + Second
    \<and> Atoi (retryAfterSeconds d) = Some (max 1 (secondsCeil d))"
proof -
  have b: "0 \<le> secondsCeil d \<and> d \<le> secondsCeil d * Second \<and> secondsCeil d * Second < max 0 d + Second"
  proof (cases "0 < d")
    case True
    define e where "e = (d + 999999999) div Second"
    have "e * Second + (d + 999999999) mod Second = d + 999999999" by (simp add: e_def)
    moreover have "0 \<le> (d + 999999999) mod Second" "(d + 999999999) mod Second < Second" by simp_all
    moreover have "0 \<le> e" using True by (simp add: e_def)
    ultimately show ?thesis using secondsCeil_exact [OF True assms] True unfolding e_def [symmetric] by linarith
  qed (simp add: secondsCeil_def)
  moreover have "secondsCeil d < 2 ^ 33"
  proof -
    have "max 0 d \<le> 2 ^ 23 * Second" using assms by simp
    then have "secondsCeil d * Second < 2 ^ 23 * Second + Second" using b by linarith
    then show ?thesis by simp
  qed
  ultimately have "is_int64 (max 1 (secondsCeil d))"
    by (simp add: is_int64_def min_int64_def max_int64_def)
  then have "Atoi (Itoa (max 1 (secondsCeil d))) = Some (max 1 (secondsCeil d))" by (rule Atoi_Itoa)
  moreover have "retryAfterSeconds d = Itoa (max 1 (secondsCeil d))"
    by (simp add: retryAfterSeconds_def Let_def max_def)
  ultimately show ?thesis using b by simp
qed

theorem advertised_wait_suffices_witness:
  "1 \<le> secondsCeil 1 * Second \<and> Atoi (retryAfterSeconds 1) = Some (max 1 (secondsCeil 1))"
  using advertised_wait_suffices [of 1] by simp

section \<open>Interim responses\<close>

text \<open>A service that asks for the body first (\<open>100 Continue\<close>) and then fails.\<close>

definition continue_then_fail :: upstream where
  "continue_then_fail fw = \<lparr>rp_interim = [(100, \<lambda>_. [])], rp_final = Some (500, (\<lambda>_. []), ''oops'')\<rparr>"

text \<open>
  A service that sends an interim response before its final one makes the gateway's records wrong
  and its headers vanish: here the client receives status 500 while the access log says 100, the
  request is counted under 100 and not as an error, and the identifier and the rate-limit headers set
  before the proxy ran are not in the final response.
\<close>

theorem interim_response_hides_the_failure:
  "let r = entering (demo_request ''/orders/1'' [] 0);
       w0 = on_header (setRateLimitHeaders \<lparr>Allowed = True, Limit = 2, Remaining = 1, ResetAfter = 0, RetryAfter = 0\<rparr>)
              (on_header (Header_Set CorrelationIDHeader (request_id r)) fresh_writer);
       (w, s) = AccessLog (Metrics_Middleware on_metrics (\<lambda>_. ''/orders/*'')
                  (newProxy continue_then_fail \<lparr>url_Scheme = ''http'', url_Host = ''orders'', url_Path = []\<rparr>))
                  r w0 (demo_gateway ())
   in fst (finish w) = 500 \<and> map log_status (g_access s) = [100]
      \<and> requests (g_metrics s) (''GET'', ''/orders/*'', 100) = 1 \<and> errors (g_metrics s) (''GET'', ''/orders/*'') = 0
      \<and> snd (finish w) ''X-Correlation-Id'' = [] \<and> snd (finish w) ''X-Ratelimit-Limit'' = []"
proof -
  have "CanonicalHeaderKey ''Upgrade'' = ''Upgrade''" by (simp add: name_eval)
  then have u: "upgradeType (r_Header (entering (demo_request ''/orders/1'' [] 0))) = []"
    by (simp add: upgradeType_def entering_def demo_request_def read_headers_def Header_Get_def canonical_names)
  have p: "r_Path (demo_request ''/orders/1'' [] 0) \<noteq> ''/metrics''" "r_Method (demo_request ''/orders/1'' [] 0) = ''GET''"
    by (simp_all add: demo_request_def)
  have rm: "removeHopByHopHeaders (\<lambda>_. []) k = []" for k
    by (simp add: removeHopByHopHeaders_def fold_Del_apply)
  show ?thesis
    by (simp add: AccessLog_def Metrics_Middleware_def newProxy_def u p continue_then_fail_def Let_def
        pass_interim_def wrap_writer_def unwrap_writer_def WriteHeader_def server_WriteHeader_def Write_def
        statusRecorder_WriteHeader_def statusRecorder_Write_def on_header_def fresh_writer_def copyHeader_def rm
        demo_gateway_def Metrics_New_def inc_def finish_def)
qed

end
