(* ===== verification/AuthStore.thy ===== *)
theory AuthStore
  imports Postgres Httpx
begin

text \<open>
  The auth service's data-access layer (\<open>services/auth/store.go\<close>,
  \<open>migrations/000001_create_users.up.sql\<close>).  The table is the list of its rows in the order they were
  inserted, with unique indexes on the identifier and on \<open>lower(email)\<close>.  The server's \<open>lower\<close>, which
  depends on the locale of the database, is a parameter.
\<close>

record User =
  u_ID :: string
  u_Email :: string
  u_PasswordHash :: string
  u_CreatedAt :: int
  u_UpdatedAt :: int

type_synonym users_db = "User list"

datatype user_error =
    ErrEmailTaken
  | ErrUserNotFound
  | UserWrapped string pg_error

section \<open>The statements\<close>

definition insert_user ::
  "(string \<Rightarrow> string) \<Rightarrow> pg \<Rightarrow> string \<Rightarrow> string \<Rightarrow> string \<Rightarrow> (users_db, User) stmt" where
  "insert_user lower pg uid email hash db =
     (case canon pg uid of
        None \<Rightarrow> (Inl InvalidText, db)
      | Some u \<Rightarrow>
          if \<not> (text_ok email \<and> text_ok hash) then (Inl InvalidText, db)
          else if list_ex (\<lambda>q. u_ID q = u \<or> lower (u_Email q) = lower email) db then (Inl UniqueViolation, db)
          else
            (let row = \<lparr>u_ID = u, u_Email = email, u_PasswordHash = hash, u_CreatedAt = clock pg,
                        u_UpdatedAt = clock pg\<rparr>
             in (Inr row, db @ [row])))"

definition select_user_by_email :: "(string \<Rightarrow> string) \<Rightarrow> string \<Rightarrow> (users_db, User) stmt" where
  "select_user_by_email lower email db =
     (if \<not> text_ok email then (Inl InvalidText, db)
      else case List.find (\<lambda>q. lower (u_Email q) = lower email) db of
        None \<Rightarrow> (Inl NoRows, db) | Some q \<Rightarrow> (Inr q, db))"

definition select_user_by_id :: "pg \<Rightarrow> string \<Rightarrow> (users_db, User) stmt" where
  "select_user_by_id pg uid db =
     (case canon pg uid of
        None \<Rightarrow> (Inl InvalidText, db)
      | Some u \<Rightarrow> (case List.find (\<lambda>q. u_ID q = u) db of None \<Rightarrow> (Inl NoRows, db) | Some q \<Rightarrow> (Inr q, db)))"

section \<open>The operations\<close>

definition CreateUser ::
  "(string \<Rightarrow> string) \<Rightarrow> pg \<Rightarrow> string \<Rightarrow> string \<Rightarrow> string \<Rightarrow> users_db \<Rightarrow> (user_error, User) result \<times> users_db" where
  "CreateUser lower pg uid email hash db =
     (case on_pool (fates pg 0) (insert_user lower pg uid email hash) db of
        (Inl UniqueViolation, db') \<Rightarrow> (Inl ErrEmailTaken, db')
      | (Inl e, db') \<Rightarrow> (Inl (UserWrapped ''inserting user'' e), db')
      | (Inr u, db') \<Rightarrow> (Inr u, db'))"

definition UserByEmail :: "(string \<Rightarrow> string) \<Rightarrow> pg \<Rightarrow> string \<Rightarrow> users_db \<Rightarrow> (user_error, User) result" where
  "UserByEmail lower pg email db =
     (case fst (on_pool (fates pg 0) (select_user_by_email lower (TrimSpace email)) db) of
        Inl NoRows \<Rightarrow> Inl ErrUserNotFound
      | Inl e \<Rightarrow> Inl (UserWrapped ''querying user by email'' e)
      | Inr u \<Rightarrow> Inr u)"

definition UserByID :: "pg \<Rightarrow> string \<Rightarrow> users_db \<Rightarrow> (user_error, User) result" where
  "UserByID pg uid db =
     (case fst (on_pool (fates pg 0) (select_user_by_id pg uid) db) of
        Inl NoRows \<Rightarrow> Inl ErrUserNotFound
      | Inl e \<Rightarrow> Inl (UserWrapped ''querying user by id'' e)
      | Inr u \<Rightarrow> Inr u)"

section \<open>What the operations do\<close>

lemma insert_user_Inr:
  assumes "insert_user lower pg uid email hash db = (Inr row, db')"
  shows "canon pg uid = Some (u_ID row) \<and> u_Email row = email \<and> u_PasswordHash row = hash \<and> db' = db @ [row]
    \<and> u_ID row \<notin> u_ID ` set db \<and> lower email \<notin> (\<lambda>q. lower (u_Email q)) ` set db \<and> text_ok email"
  using assms by (auto simp: insert_user_def Let_def list_ex_iff split: option.splits if_splits)

lemma CreateUser_outcome:
  assumes "CreateUser lower pg uid email hash db = (r, db')"
  shows "(db' = db \<and> isl r)
    \<or> (\<exists>row. insert_user lower pg uid email hash db = (Inr row, db') \<and> (\<forall>u. r = Inr u \<longrightarrow> u = row))"
proof -
  obtain a d where ins: "on_pool (fates pg 0) (insert_user lower pg uid email hash) db = (a, d)" by force
  have r: "db' = d" "isl r = isl a" "\<And>u. r = Inr u \<Longrightarrow> a = Inr u"
    using assms ins by (auto simp: CreateUser_def split: sum.splits pg_error.splits)
  have "d = db \<and> isl a
      \<or> (\<exists>row. insert_user lower pg uid email hash db = (Inr row, d) \<and> (\<forall>u. a = Inr u \<longrightarrow> u = row))"
    using ins by (auto simp: on_pool_def split: fate.splits prod.splits sum.splits)
  then show ?thesis using r by auto
qed

text \<open>\<open>CreateUser\<close> succeeds exactly when it runs on a free address and identifier.\<close>

lemma CreateUser_Inr:
  "CreateUser lower pg uid email hash db = (Inr row, db') \<longleftrightarrow>
   fates pg 0 = Runs \<and> insert_user lower pg uid email hash db = (Inr row, db')"
  by (auto simp: CreateUser_def on_pool_def split: fate.splits prod.splits sum.splits pg_error.splits)

lemma CreateUser_taken:
  assumes "fates pg 0 = Runs" and "q \<in> set db" and "lower (u_Email q) = lower email"
    and "canon pg uid \<noteq> None" and "text_ok email" and "text_ok hash"
  shows "CreateUser lower pg uid email hash db = (Inl ErrEmailTaken, db)"
proof -
  have "list_ex (\<lambda>p. u_ID p = u \<or> lower (u_Email p) = lower email) db" for u
    using assms(2,3) by (auto simp: list_ex_iff)
  then show ?thesis using assms by (auto simp: CreateUser_def store_simps insert_user_def)
qed

section \<open>The invariant\<close>

definition users_inv :: "(string \<Rightarrow> string) \<Rightarrow> users_db \<Rightarrow> bool" where
  "users_inv lower db \<longleftrightarrow> distinct (map u_ID db) \<and> distinct (map (\<lambda>q. lower (u_Email q)) db)
     \<and> list_all (\<lambda>q. text_ok (u_Email q)) db"

definition users_evolves :: "users_db \<Rightarrow> users_db \<Rightarrow> bool" where
  "users_evolves db db' \<longleftrightarrow> (\<exists>new. db' = db @ new)"

fun users_exec :: "(string \<Rightarrow> string) \<Rightarrow> string \<times> string \<times> string \<Rightarrow> pg \<Rightarrow> users_db
    \<Rightarrow> (user_error, User) result \<times> users_db" where
  "users_exec lower (uid, email, hash) pg db = CreateUser lower pg uid email hash db"

lemma CreateUser_inv:
  assumes "users_inv lower db"
  shows "users_inv lower (snd (CreateUser lower pg uid email hash db))"
proof -
  obtain r db' where c: "CreateUser lower pg uid email hash db = (r, db')" by force
  show ?thesis using CreateUser_outcome [OF c] insert_user_Inr [of lower pg uid email hash db _ db'] assms
    by (auto simp: c users_inv_def)
qed

lemma CreateUser_evolves: "users_evolves db (snd (CreateUser lower pg uid email hash db))"
proof -
  obtain r db' where c: "CreateUser lower pg uid email hash db = (r, db')" by force
  show ?thesis using CreateUser_outcome [OF c] insert_user_Inr [of lower pg uid email hash db _ db']
    by (auto simp: c users_evolves_def)
qed

interpretation users: evolving_store "users_exec lower" "users_inv lower" users_evolves for lower
proof unfold_locales
  show "users_inv lower (snd (users_exec lower op pg db))" if "users_inv lower db" for db op pg
    using that by (cases op) (simp add: CreateUser_inv)
  show "users_evolves db (snd (users_exec lower op pg db))" for db op pg
    by (cases op) (simp add: CreateUser_evolves)
qed (auto simp: users_evolves_def)

text \<open>
  A lookup finds a user by any spelling of its address: at most one row matches, so the row a lookup
  returns does not depend on the order the server visits them in.
\<close>

lemma find_unique:
  assumes "distinct (map f db)" and "q \<in> set db" and "f q = k"
  shows "List.find (\<lambda>p. f p = k) db = Some q"
  using assms
proof (induction db)
  case (Cons p db)
  then show ?case by (cases "p = q") (auto simp: image_iff)
qed simp

lemma UserByEmail_found:
  assumes "users_inv lower db" and "q \<in> set db" and "lower (TrimSpace email) = lower (u_Email q)"
    and "fates pg 0 = Runs" and "text_ok (TrimSpace email)"
  shows "UserByEmail lower pg email db = Inr q"
proof -
  have "List.find (\<lambda>p. lower (u_Email p) = lower (TrimSpace email)) db = Some q"
    using assms(1-3) by (intro find_unique) (simp_all add: users_inv_def)
  then show ?thesis using assms(4,5) by (simp add: UserByEmail_def store_simps select_user_by_email_def)
qed

text \<open>
  C15.  An address belongs to one account.  Of any sequence of sign-ups, in any interleaving and with
  any lost round trips, no two that succeed have addresses that differ only in case; accounts are
  never changed or removed; an attempt on a taken address that runs fails with \<open>ErrEmailTaken\<close> and
  changes nothing.
\<close>

theorem one_account_per_address:
  assumes "users_inv lower db"
  shows "users_inv lower (run_ops (users_exec lower) ops db)
    \<and> (\<exists>new. run_ops (users_exec lower) ops db = db @ new)
    \<and> (\<forall>q \<in> set (run_ops (users_exec lower) ops db). \<forall>pg uid email hash.
         lower (u_Email q) = lower email \<longrightarrow>
         isl (fst (CreateUser lower pg uid email hash (run_ops (users_exec lower) ops db)))
         \<and> snd (CreateUser lower pg uid email hash (run_ops (users_exec lower) ops db)) = run_ops (users_exec lower) ops db
         \<and> (fates pg 0 = Runs \<and> canon pg uid \<noteq> None \<and> text_ok email \<and> text_ok hash \<longrightarrow>
            fst (CreateUser lower pg uid email hash (run_ops (users_exec lower) ops db)) = Inl ErrEmailTaken))"
proof -
  define d where "d = run_ops (users_exec lower) ops db"
  have "isl (fst (CreateUser lower pg uid email hash d)) \<and> snd (CreateUser lower pg uid email hash d) = d"
    if q: "q \<in> set d" "lower (u_Email q) = lower email" for q pg uid email hash
  proof -
    obtain r d' where c: "CreateUser lower pg uid email hash d = (r, d')" by force
    have "\<not> insert_user lower pg uid email hash d = (Inr row, d')" for row
    proof
      assume "insert_user lower pg uid email hash d = (Inr row, d')"
      then have "lower email \<notin> (\<lambda>q. lower (u_Email q)) ` set d" using insert_user_Inr by blast
      then show False using q by (metis image_eqI)
    qed
    then show ?thesis using CreateUser_outcome [OF c] by (simp add: c)
  qed
  moreover have "fst (CreateUser lower pg uid email hash d) = Inl ErrEmailTaken"
    if "q \<in> set d" "lower (u_Email q) = lower email" "fates pg 0 = Runs" "canon pg uid \<noteq> None"
      "text_ok email" "text_ok hash" for q pg uid email hash
    using CreateUser_taken [of pg q d lower email uid hash] that by simp
  ultimately show ?thesis
    using users.run_inv [OF assms, of ops] users.run_evolves [OF assms, of ops]
    unfolding d_def [symmetric] users_evolves_def by blast
qed

theorem one_account_per_address_witness:
  "users_inv ToLower [\<lparr>u_ID = ''1'', u_Email = ''A@1'', u_PasswordHash = [], u_CreatedAt = 0, u_UpdatedAt = 0\<rparr>]
   \<and> isl (fst (CreateUser ToLower \<lparr>fates = \<lambda>_. Runs, clock = 0, canon = Some\<rparr> ''2'' ''a@1'' []
       [\<lparr>u_ID = ''1'', u_Email = ''A@1'', u_PasswordHash = [], u_CreatedAt = 0, u_UpdatedAt = 0\<rparr>]))"
proof -
  let ?q = "\<lparr>u_ID = ''1'', u_Email = ''A@1'', u_PasswordHash = [], u_CreatedAt = 0, u_UpdatedAt = 0\<rparr>"
  have i: "users_inv ToLower [?q]" by (simp add: users_inv_def text_ok_def)
  have "ToLower ''A@1'' = ToLower ''a@1''" by (simp add: ToLower_def ascii_lower_def char_of_eq_iff)
  then show ?thesis using i one_account_per_address [OF i, of "[]"] by simp
qed

end
