(* ===== verification/AuthAPI.thy ===== *)
theory AuthAPI
  imports AuthStore GatewayAuth
begin

text \<open>
  The auth service's handlers (\<open>services/auth/handlers.go\<close>).  The libraries they call are parameters:
  \<open>mail.ParseAddress\<close> (the address it extracts), bcrypt, the signing of tokens, and the server's
  \<open>lower\<close>.
\<close>

record RegisteredClaims =
  rc_Subject :: string
  rc_ExpiresAt :: int
  rc_IssuedAt :: int
  rc_NotBefore :: int
  rc_Issuer :: string
  rc_ID :: string

record auth_libs =
  al_lower :: "string \<Rightarrow> string"
  al_ParseAddress :: "string \<Rightarrow> string option"
  al_GenerateFromPassword :: "string \<Rightarrow> string \<Rightarrow> string option"
  al_CompareHashAndPassword :: "string \<Rightarrow> string \<Rightarrow> bool"
  al_SignedString :: "RegisteredClaims \<Rightarrow> string \<Rightarrow> string option"

record AuthAPI =
  au_jwtSecret :: string
  au_jwtTTL :: duration
  au_jwtIssuer :: string
  au_dummyHash :: string

text \<open>
  What one request meets: the database, the random bytes of its draws in order, the readings of the
  clock in order, the salt bcrypt draws.
\<close>

record auth_env =
  ae_pg :: pg
  ae_bytes :: "nat \<Rightarrow> 8 word list"
  ae_now :: "nat \<Rightarrow> time"
  ae_salt :: string

section \<open>Requests and responses\<close>

record credentials =
  cr_Email :: string
  cr_Password :: string

definition decode_credentials :: "json \<Rightarrow> credentials option" where
  "decode_credentials =
     decode_struct True
       [(''email'', str_field (\<lambda>s r. r\<lparr>cr_Email := s\<rparr>)), (''password'', str_field (\<lambda>s r. r\<lparr>cr_Password := s\<rparr>))]
       \<lparr>cr_Email = [], cr_Password = []\<rparr>"

record userView =
  uv_ID :: string
  uv_Email :: string
  uv_CreatedAt :: int

definition user_toView :: "User \<Rightarrow> userView" where
  "user_toView u = \<lparr>uv_ID = u_ID u, uv_Email = u_Email u, uv_CreatedAt = u_CreatedAt u\<rparr>"

record authResponse =
  ar_Token :: string
  ar_ExpiresAt :: int
  ar_User :: userView

section \<open>Checks\<close>

definition normalizeEmail :: "auth_libs \<Rightarrow> string \<Rightarrow> (string, string) result" where
  "normalizeEmail A raw =
     (let e = TrimSpace raw in
      if e = [] then Inl ''email is required''
      else if 254 < length e then Inl ''email is too long''
      else case al_ParseAddress A e of
        None \<Rightarrow> Inl ''email is not a valid address''
      | Some addr \<Rightarrow> Inr addr)"

definition minPasswordLen :: nat where "minPasswordLen = 8"

definition maxPasswordLen :: nat where "maxPasswordLen = 72"

definition validatePassword :: "string \<Rightarrow> string option" where
  "validatePassword p =
     (if length p < minPasswordLen then Some ''password must be at least 8 characters''
      else if maxPasswordLen < length p then Some ''password must be at most 72 bytes''
      else None)"

section \<open>Tokens\<close>

text \<open>\<open>jwt.NewNumericDate\<close> and \<open>Time.Unix\<close> drop the fraction of a second.\<close>

definition unix_seconds :: "time \<Rightarrow> int" where
  "unix_seconds t = t div Second"

text \<open>The claims of a token, from the \<open>i\<close>-th reading of the clock and the \<open>j\<close>-th draw on.\<close>

definition token_claims :: "AuthAPI \<Rightarrow> auth_env \<Rightarrow> nat \<Rightarrow> User \<Rightarrow> RegisteredClaims" where
  "token_claims a e j user =
     \<lparr>rc_Subject = u_ID user, rc_ExpiresAt = unix_seconds (time_add (ae_now e 0) (au_jwtTTL a)),
      rc_IssuedAt = unix_seconds (ae_now e 1), rc_NotBefore = unix_seconds (ae_now e 2),
      rc_Issuer = au_jwtIssuer a, rc_ID = newUUID (ae_bytes e j)\<rparr>"

definition respondWithToken ::
  "auth_libs \<Rightarrow> AuthAPI \<Rightarrow> auth_env \<Rightarrow> nat \<Rightarrow> request \<Rightarrow> User \<Rightarrow> int \<Rightarrow> authResponse response" where
  "respondWithToken A a e j r user st =
     (let expiresAt = time_add (ae_now e 0) (au_jwtTTL a) in
      case al_SignedString A (token_claims a e j user) (au_jwtSecret a) of
        None \<Rightarrow> WriteError r 500 ''could not issue token''
      | Some tok \<Rightarrow>
          WriteJSON r st \<lparr>ar_Token = tok, ar_ExpiresAt = unix_seconds expiresAt, ar_User = user_toView user\<rparr>)"

section \<open>Handlers\<close>

definition signup ::
  "auth_libs \<Rightarrow> AuthAPI \<Rightarrow> auth_env \<Rightarrow> request \<Rightarrow> users_db \<Rightarrow> authResponse response \<times> users_db" where
  "signup A a e r db =
     (case DecodeJSON decode_credentials (req_body r) of
        Inl err \<Rightarrow> (WriteError r 400 err, db)
      | Inr req \<Rightarrow>
          (case normalizeEmail A (cr_Email req) of
             Inl err \<Rightarrow> (WriteError r 400 err, db)
           | Inr email \<Rightarrow>
               (case validatePassword (cr_Password req) of
                  Some err \<Rightarrow> (WriteError r 400 err, db)
                | None \<Rightarrow>
                    (case al_GenerateFromPassword A (ae_salt e) (cr_Password req) of
                       None \<Rightarrow> (WriteError r 500 ''could not create account'', db)
                     | Some hash \<Rightarrow>
                         (case CreateUser (al_lower A) (ae_pg e) (newUUID (ae_bytes e 0)) email hash db of
                            (Inl ErrEmailTaken, db') \<Rightarrow> (WriteError r 409 ''email already registered'', db')
                          | (Inl _, db') \<Rightarrow> (WriteError r 500 ''could not create account'', db')
                          | (Inr user, db') \<Rightarrow> (respondWithToken A a e 1 r user 201, db'))))))"

definition login ::
  "auth_libs \<Rightarrow> AuthAPI \<Rightarrow> auth_env \<Rightarrow> request \<Rightarrow> users_db \<Rightarrow> authResponse response" where
  "login A a e r db =
     (case DecodeJSON decode_credentials (req_body r) of
        Inl err \<Rightarrow> WriteError r 400 err
      | Inr req \<Rightarrow>
          (let finish = (\<lambda>user.
                 (let hash = (case user of None \<Rightarrow> au_dummyHash a | Some u \<Rightarrow> u_PasswordHash u);
                      matches = al_CompareHashAndPassword A hash (cr_Password req)
                  in case user of
                       None \<Rightarrow> WriteError r 401 ''invalid email or password''
                     | Some u \<Rightarrow> if \<not> matches then WriteError r 401 ''invalid email or password''
                                 else respondWithToken A a e 0 r u 200))
           in case UserByEmail (al_lower A) (ae_pg e) (cr_Email req) db of
                Inr u \<Rightarrow> finish (Some u)
              | Inl ErrUserNotFound \<Rightarrow> finish None
              | Inl _ \<Rightarrow> WriteError r 500 ''could not sign in''))"

definition me :: "auth_env \<Rightarrow> request \<Rightarrow> users_db \<Rightarrow> userView response" where
  "me e r db =
     (let subject = Subject r in
      if subject = [] then WriteError r 401 ''unauthenticated''
      else case UserByID (ae_pg e) subject db of
        Inl ErrUserNotFound \<Rightarrow> WriteError r 404 ''user not found''
      | Inl _ \<Rightarrow> WriteError r 500 ''could not load account''
      | Inr user \<Rightarrow> WriteJSON r 200 (user_toView user))"

section \<open>What the libraries promise\<close>

text \<open>
  bcrypt accepts a password against the hash it made of it.  \<open>lower\<close> and \<open>ParseAddress\<close> leave a stored
  address as it is: an extracted address has no white space around it.
\<close>

definition bcrypt_ok :: "auth_libs \<Rightarrow> bool" where
  "bcrypt_ok A \<longleftrightarrow> (\<forall>salt p h. al_GenerateFromPassword A salt p = Some h \<longrightarrow> al_CompareHashAndPassword A h p)"

text \<open>
  The JWT library: a token signed with a key parses with that key exactly if its claims satisfy every
  option; the text of a token is not empty and has no white space around it.
\<close>

fun option_ok :: "RegisteredClaims \<Rightarrow> ParserOption \<Rightarrow> bool" where
  "option_ok c (WithValidMethods ms) \<longleftrightarrow> ''HS256'' \<in> set ms"
| "option_ok c WithExpirationRequired \<longleftrightarrow> True"
| "option_ok c (WithIssuer i) \<longleftrightarrow> rc_Issuer c = i"
| "option_ok c (WithAudience _) \<longleftrightarrow> False"

definition claims_ok :: "ParserOption list \<Rightarrow> RegisteredClaims \<Rightarrow> time \<Rightarrow> bool" where
  "claims_ok opts c t \<longleftrightarrow>
     list_all (option_ok c) opts \<and> t < rc_ExpiresAt c * Second \<and> rc_NotBefore c * Second \<le> t"

definition jwt_ok :: "auth_libs \<Rightarrow> jwt_parser \<Rightarrow> bool" where
  "jwt_ok A parse \<longleftrightarrow> (\<forall>c key tok. al_SignedString A c key = Some tok \<longrightarrow>
     tok \<noteq> [] \<and> TrimSpace tok = tok
     \<and> (\<forall>opts t. parse opts key tok t = (if claims_ok opts c t then Some \<lparr>c_Subject = rc_Subject c\<rparr> else None)))"

end
