(* ===== verification/AuthProps.thy ===== *)
theory AuthProps
  imports AuthAPI GatewayDemo
begin

text \<open>
  The properties of the auth service, alone and behind the gateway: who signs up can sign in and is
  then known to the services under the same identifier; a failed sign-in tells nothing; the account
  page cannot be reached.
\<close>

section \<open>Signing up and in\<close>

lemma signup_201:
  assumes "signup A a e r db = (JSON 201 resp, db')"
  obtains req email hash user where "DecodeJSON decode_credentials (req_body r) = Inr req"
    and "normalizeEmail A (cr_Email req) = Inr email" and "validatePassword (cr_Password req) = None"
    and "al_GenerateFromPassword A (ae_salt e) (cr_Password req) = Some hash"
    and "CreateUser (al_lower A) (ae_pg e) (newUUID (ae_bytes e 0)) email hash db = (Inr user, db')"
    and "al_SignedString A (token_claims a e 1 user) (au_jwtSecret a) = Some (ar_Token resp)"
    and "ar_User resp = user_toView user"
  using assms
  by (auto simp: signup_def respondWithToken_def WriteJSON_def WriteError_def Let_def
      split: sum.splits option.splits prod.splits user_error.splits)

lemma login_found:
  assumes "DecodeJSON decode_credentials (req_body r) = Inr req"
    and "UserByEmail (al_lower A) (ae_pg e) (cr_Email req) db = Inr u"
    and "al_CompareHashAndPassword A (u_PasswordHash u) (cr_Password req)"
  shows "login A a e r db = respondWithToken A a e 0 r u 200"
  using assms by (simp add: login_def Let_def)

text \<open>A token that was signed identifies its user to the gateway while it is valid.\<close>

lemma signed_identity:
  assumes "jwt_ok A parse" and "al_SignedString A c (jwt_Secret cfg) = Some tok" and "rc_Subject c \<noteq> []"
    and "Header_Get (r_Header r) AuthorizationHeader = ''Bearer '' @ tok"
  shows "identity parse cfg r = (if claims_ok (parserOptions cfg) c (at_now r) then Some (rc_Subject c) else None)"
proof -
  have t: "tok \<noteq> []" "TrimSpace tok = tok"
    "\<And>opts t. parse opts (jwt_Secret cfg) tok t = (if claims_ok opts c t then Some \<lparr>c_Subject = rc_Subject c\<rparr> else None)"
    using assms(1,2) by (simp_all add: jwt_ok_def)
  have "ToLower ''Bearer '' = ''bearer ''" by (simp add: name_eval)
  then have "bearerToken r = Inr tok" using t(1,2) assms(4)
    by (cases tok) (simp_all add: bearerToken_def Let_def)
  then show ?thesis using t(3) assms(3) by (simp add: identity_def)
qed

text \<open>
  When the claims of a fresh token satisfy the gateway: it lasts until the second of its expiry, the
  issuer agrees if the gateway asks for one, and the gateway asks for no audience.
\<close>

lemma fresh_claims_ok:
  "claims_ok (parserOptions cfg) (token_claims a e j u) t \<longleftrightarrow>
     t < unix_seconds (time_add (ae_now e 0) (au_jwtTTL a)) * Second \<and> unix_seconds (ae_now e 2) * Second \<le> t
     \<and> (jwt_Issuer cfg = [] \<or> jwt_Issuer cfg = au_jwtIssuer a) \<and> jwt_Audience cfg = []"
  by (auto simp: claims_ok_def parserOptions_def token_claims_def)

lemma fresh_uuid_nonempty: "newUUID b \<noteq> []"
  by (simp add: newUUID_def Let_def)

text \<open>
  C10.  An account is usable end to end.  After a sign-up answered 201, and after any further sign-ups,
  a sign-in that reaches the database with the same password and any spelling of the address that
  \<open>lower\<close> identifies with the stored one (with white space around it or not) answers 200 for the same
  user, whatever else has happened; and the token it returns, sent as a bearer token to a gateway with
  the same secret, proves exactly that user's identifier to the services, from the second it was
  issued until the second it expires, if the gateway's issuer is empty or the service's and its
  audience is empty.  (With an audience configured no token of this service is ever accepted.)
\<close>

theorem account_works_end_to_end:
  assumes "users_inv (al_lower A) db" and "uuid_type (canon (ae_pg e))" and "bcrypt_ok A" and "jwt_ok A parse"
    and "signup A a e r db = (JSON 201 resp, db1)"
    and "DecodeJSON decode_credentials (req_body r) = Inr req"
    and "DecodeJSON decode_credentials (req_body r') = Inr req'"
    and "cr_Password req' = cr_Password req" and "text_ok (TrimSpace (cr_Email req'))"
    and "al_lower A (TrimSpace (cr_Email req')) = al_lower A (uv_Email (ar_User resp))"
    and "fates (ae_pg e') 0 = Runs"
    and "\<forall>c. al_SignedString A c (au_jwtSecret a) \<noteq> None"
    and "jwt_Secret cfg = au_jwtSecret a"
  shows "\<exists>tok. login A a e' r' (run_ops (users_exec (al_lower A)) ops db1)
      = JSON 200 \<lparr>ar_Token = tok, ar_ExpiresAt = unix_seconds (time_add (ae_now e' 0) (au_jwtTTL a)), ar_User = ar_User resp\<rparr>
    \<and> (\<forall>q. Header_Get (r_Header q) AuthorizationHeader = ''Bearer '' @ tok \<longrightarrow>
         identity parse cfg q =
           (if at_now q < unix_seconds (time_add (ae_now e' 0) (au_jwtTTL a)) * Second
               \<and> unix_seconds (ae_now e' 2) * Second \<le> at_now q
               \<and> (jwt_Issuer cfg = [] \<or> jwt_Issuer cfg = au_jwtIssuer a) \<and> jwt_Audience cfg = []
            then Some (uv_ID (ar_User resp)) else None))"
proof -
  obtain email hash user where s: "al_GenerateFromPassword A (ae_salt e) (cr_Password req) = Some hash"
    "CreateUser (al_lower A) (ae_pg e) (newUUID (ae_bytes e 0)) email hash db = (Inr user, db1)"
    "ar_User resp = user_toView user"
    by (rule signup_201 [OF assms(5)]) (use assms(6) in auto)
  note ins = insert_user_Inr [OF CreateUser_Inr [THEN iffD1, OF s(2), THEN conjunct2]]
  have inv: "users_inv (al_lower A) db1" using CreateUser_inv [OF assms(1)] s(2) by (metis snd_conv)
  define d where "d = run_ops (users_exec (al_lower A)) ops db1"
  have d: "users_inv (al_lower A) d" "user \<in> set d"
    using users.run_inv [OF inv, of ops] users.run_evolves [OF inv, of ops] ins
    by (auto simp: d_def users_evolves_def)
  have "UserByEmail (al_lower A) (ae_pg e') (cr_Email req') d = Inr user"
    by (rule UserByEmail_found [OF d])
      (use assms(9-11) s(3) in \<open>simp_all add: user_toView_def\<close>)
  moreover have "al_CompareHashAndPassword A (u_PasswordHash user) (cr_Password req')"
    using assms(3,8) s(1) ins by (simp add: bcrypt_ok_def)
  ultimately have l: "login A a e' r' d = respondWithToken A a e' 0 r' user 200"
    by (rule login_found [OF assms(7)])
  obtain tok where tok: "al_SignedString A (token_claims a e' 0 user) (au_jwtSecret a) = Some tok"
    using assms(12) by auto
  have sub: "rc_Subject (token_claims a e' 0 user) = uv_ID (ar_User resp)"
    using s(3) by (simp add: token_claims_def user_toView_def)
  have "u_ID user \<noteq> []"
    using ins assms(2) by (auto simp: uuid_type_def)
  then have ne: "rc_Subject (token_claims a e' 0 user) \<noteq> []" by (simp add: token_claims_def)
  have "identity parse cfg q =
       (if claims_ok (parserOptions cfg) (token_claims a e' 0 user) (at_now q) then Some (uv_ID (ar_User resp)) else None)"
    if "Header_Get (r_Header q) AuthorizationHeader = ''Bearer '' @ tok" for q
    using signed_identity [OF assms(4) _ ne that, of cfg] tok assms(13) sub by simp
  then show ?thesis
    using l tok s(3) unfolding d_def [symmetric] fresh_claims_ok
    by (simp add: respondWithToken_def WriteJSON_def)
qed


lemma UserByEmail_total:
  assumes "fates pg 0 = Runs" and "text_ok (TrimSpace email)"
  shows "UserByEmail lower pg email db =
    (case List.find (\<lambda>q. lower (u_Email q) = lower (TrimSpace email)) db of
       None \<Rightarrow> Inl ErrUserNotFound | Some q \<Rightarrow> Inr q)"
  using assms by (simp add: UserByEmail_def store_simps select_user_by_email_def split: option.split)

text \<open>
  C17.  Signing in is exact and tells nothing.  A well-formed sign-in that reaches the database answers
  200 with the account's own data and token exactly if some account has that address, up to case and
  surrounding white space, and the password matches its hash; in every other case the answer is one
  and the same 401, whether the address or the password is wrong.  Nobody signs in by a password that
  matches only the dummy hash.
\<close>

theorem sign_in_is_exact:
  assumes "users_inv (al_lower A) db" and "DecodeJSON decode_credentials (req_body r) = Inr req"
    and "fates (ae_pg e) 0 = Runs" and "text_ok (TrimSpace (cr_Email req))"
    and "\<forall>c. al_SignedString A c (au_jwtSecret a) \<noteq> None"
  shows "(\<forall>u \<in> set db. al_lower A (u_Email u) = al_lower A (TrimSpace (cr_Email req))
            \<and> al_CompareHashAndPassword A (u_PasswordHash u) (cr_Password req) \<longrightarrow>
            (\<exists>tok. al_SignedString A (token_claims a e 0 u) (au_jwtSecret a) = Some tok
              \<and> login A a e r db = JSON 200 \<lparr>ar_Token = tok,
                   ar_ExpiresAt = unix_seconds (time_add (ae_now e 0) (au_jwtTTL a)), ar_User = user_toView u\<rparr>))
       \<and> ((\<forall>u \<in> set db. al_lower A (u_Email u) = al_lower A (TrimSpace (cr_Email req)) \<longrightarrow>
            \<not> al_CompareHashAndPassword A (u_PasswordHash u) (cr_Password req)) \<longrightarrow>
            login A a e r db = ErrorJSON 401 ''invalid email or password'' (correlation r))"
proof (intro conjI ballI impI)
  fix u
  assume u: "u \<in> set db" "al_lower A (u_Email u) = al_lower A (TrimSpace (cr_Email req))
      \<and> al_CompareHashAndPassword A (u_PasswordHash u) (cr_Password req)"
  have "UserByEmail (al_lower A) (ae_pg e) (cr_Email req) db = Inr u"
    by (rule UserByEmail_found [OF assms(1) u(1) _ assms(3,4)]) (use u(2) in simp)
  then have "login A a e r db = respondWithToken A a e 0 r u 200"
    using login_found [OF assms(2)] u(2) by simp
  moreover obtain tok where "al_SignedString A (token_claims a e 0 u) (au_jwtSecret a) = Some tok"
    using assms(5) by auto
  ultimately show "\<exists>tok. al_SignedString A (token_claims a e 0 u) (au_jwtSecret a) = Some tok
      \<and> login A a e r db = JSON 200 \<lparr>ar_Token = tok,
           ar_ExpiresAt = unix_seconds (time_add (ae_now e 0) (au_jwtTTL a)), ar_User = user_toView u\<rparr>"
    by (simp add: respondWithToken_def WriteJSON_def)
next
  assume no: "\<forall>u \<in> set db. al_lower A (u_Email u) = al_lower A (TrimSpace (cr_Email req)) \<longrightarrow>
      \<not> al_CompareHashAndPassword A (u_PasswordHash u) (cr_Password req)"
  show "login A a e r db = ErrorJSON 401 ''invalid email or password'' (correlation r)"
  proof (cases "List.find (\<lambda>q. al_lower A (u_Email q) = al_lower A (TrimSpace (cr_Email req))) db")
    case None
    then show ?thesis
      by (simp add: login_def assms(2) UserByEmail_total [OF assms(3,4)] WriteError_def Let_def)
  next
    case (Some u)
    then have "u \<in> set db" "al_lower A (u_Email u) = al_lower A (TrimSpace (cr_Email req))"
      by (auto simp: find_Some_iff)
    with no have "\<not> al_CompareHashAndPassword A (u_PasswordHash u) (cr_Password req)" by blast
    then show ?thesis using Some
      by (simp add: login_def assms(2) UserByEmail_total [OF assms(3,4)] WriteError_def Let_def)
  qed
qed

section \<open>Behind the gateway\<close>

text \<open>A service sees the first value of each header the gateway sent.\<close>

definition received :: "outbound \<Rightarrow> request \<Rightarrow> bool" where
  "received out q \<longleftrightarrow> (\<forall>k. header q k = Header_Get (out_Header out) k)"

lemma handed_over_public:
  assumes "fst (decide L cfg allow services r k) = d" and "under ''auth'' (r_Path r)"
    and "x \<in> set (handed_over d r)"
  shows "out_Header (snd x) ''X-User-Id'' = []"
proof -
  obtain name where n: "name \<in> set service_names" "under name (r_Path r)"
    "if name = ''auth'' then out_Header (snd x) ''X-User-Id'' = []
     else \<exists>sub. identity (lib_jwt L) (cfg_JWT cfg) r = Some sub
        \<and> out_Header (snd x) ''X-User-Id'' = (if nominates r ''X-User-Id'' then [] else [sub])"
    using handed_over_speaks_for [OF assms(1,3)] unfolding speaks_for_def by blast
  have "name = ''auth''"
    by (rule under_unique [OF n(2) assms(2) n(1)]) (simp add: service_names_def)
  then show ?thesis using n(3) by simp
qed

text \<open>
  C38.  The account page cannot be reached.  The gateway proxies \<open>/auth/*\<close> without a token check and
  strips the subject header, so every request for \<open>/auth/me\<close> that reaches the service through it, with
  whatever token, is answered 401, although the handler takes the caller from the gateway's header.
\<close>

theorem account_page_is_unreachable:
  assumes "gateway_of L cfg allow services h" and "from_network r" and "under ''auth'' (r_Path r)"
    and "serve h r s = (x, s')"
  shows "\<forall>(u, out) \<in> set (drop (length (g_forwarded s)) (g_forwarded s')).
     \<forall>q e db. received out q \<longrightarrow> me e q db = ErrorJSON 401 ''unauthenticated'' (correlation q)"
proof -
  obtain d l where d: "decide L cfg allow services r (g_limiter s) = (d, l)" by fastforce
  have f: "g_forwarded s' = g_forwarded s @ handed_over d r"
    using decides [OF assms(1,2) d] assms(4) by (simp add: as_decided_def)
  have "me e q db = ErrorJSON 401 ''unauthenticated'' (correlation q)"
    if "(u, out) \<in> set (handed_over d r)" "received out q" for u out q e db
  proof -
    have "out_Header out ''X-User-Id'' = []"
      using handed_over_public [of L cfg allow services r "g_limiter s" d "(u, out)"] d that(1) assms(3) by simp
    then have "Subject q = []"
      using that(2) canonical_names(1) by (simp add: received_def Subject_def Header_Get_def SubjectHeader_def)
    then show ?thesis by (simp add: me_def WriteError_def)
  qed
  then show ?thesis using f by auto
qed

end
