(* ===== verification/AuthDemo.thy ===== *)
theory AuthDemo
  imports AuthProps "HOL-Library.Countable"
begin

text \<open>
  Concrete libraries that keep the contracts of the auth service's parameters, and an address that can
  sign up and not sign in.  A token is the decimal code of its claims and key; a hash is the password
  behind a mark.
\<close>

section \<open>Tokens that are numbers\<close>

definition str_code :: "string \<Rightarrow> nat" where
  "str_code s = list_encode (map of_char s)"

definition str_decode :: "nat \<Rightarrow> string" where
  "str_decode n = map char_of (list_decode n)"

lemma str_decode_code [simp]: "str_decode (str_code s) = s"
  by (simp add: str_code_def str_decode_def comp_def)

definition sign_number :: "RegisteredClaims \<Rightarrow> string \<Rightarrow> string option" where
  "sign_number c key = Some (decimal (prod_encode (str_code key, prod_encode (str_code (rc_Subject c),
     prod_encode (int_encode (rc_ExpiresAt c), prod_encode (int_encode (rc_NotBefore c), str_code (rc_Issuer c)))))))"

definition parse_number :: jwt_parser where
  "parse_number opts key tok t =
     (case digits_val tok 0 of
        None \<Rightarrow> None
      | Some m \<Rightarrow>
          (case prod_decode (nat m) of (k, rest) \<Rightarrow>
           case prod_decode rest of (sub, rest') \<Rightarrow>
           case prod_decode rest' of (ex, rest'') \<Rightarrow>
           case prod_decode rest'' of (nb, iss) \<Rightarrow>
             (let c = \<lparr>rc_Subject = str_decode sub, rc_ExpiresAt = int_decode ex, rc_IssuedAt = 0,
                       rc_NotBefore = int_decode nb, rc_Issuer = str_decode iss, rc_ID = []\<rparr>
              in if str_decode k = key \<and> claims_ok opts c t then Some \<lparr>c_Subject = rc_Subject c\<rparr> else None)))"

lemma claims_ok_relevant:
  assumes "rc_ExpiresAt c = rc_ExpiresAt c'" and "rc_NotBefore c = rc_NotBefore c'" and "rc_Issuer c = rc_Issuer c'"
  shows "claims_ok opts c t = claims_ok opts c' t"
proof -
  have "option_ok c x = option_ok c' x" for x using assms by (cases x) auto
  then show ?thesis using assms by (simp add: claims_ok_def list_all_iff)
qed

definition digit :: "char \<Rightarrow> bool" where
  "digit c \<longleftrightarrow> 48 \<le> (of_char c :: nat) \<and> (of_char c :: nat) \<le> 57"

lemma decimal_digits: "list_all digit (decimal n)"
proof (induction n rule: decimal.induct)
  case (1 n)
  then show ?case by (subst decimal.simps) (auto simp: list_all_iff digit_def)
qed

lemma no_leading_space:
  assumes "digit c" and "\<forall>w \<in> set ws. w \<noteq> [] \<longrightarrow> \<not> (48 \<le> hd w \<and> hd w \<le> 57)"
  shows "trim_left ws (c # s) = c # s"
proof -
  have "\<not> (w \<noteq> [] \<and> map of_char (take (length w) (c # s)) = w)" if "w \<in> set ws" for w
  proof
    assume "w \<noteq> [] \<and> map of_char (take (length w) (c # s)) = w"
    then have "hd w = of_char c" "w \<noteq> []" by (cases w; auto)+
    then show False using assms that by (auto simp: digit_def)
  qed
  then have "leading_space ws (c # s) = None"
    by (auto simp: leading_space_def find_None_iff)
  then show ?thesis by simp
qed

lemma spaces_not_digits:
  "\<forall>w \<in> set spaces. w \<noteq> [] \<longrightarrow> \<not> (48 \<le> hd w \<and> hd w \<le> 57)"
  "\<forall>w \<in> set (map rev spaces). w \<noteq> [] \<longrightarrow> \<not> (48 \<le> hd w \<and> hd w \<le> 57)"
  by (simp_all add: spaces_def)

lemma TrimSpace_digits:
  assumes "list_all digit s" and "s \<noteq> []"
  shows "TrimSpace s = s"
proof -
  obtain c t where s: "s = c # t" using assms(2) by (cases s) auto
  have l: "trim_left spaces s = s"
    using assms(1) spaces_not_digits(1) by (simp add: s no_leading_space del: trim_left.simps)
  obtain d u where r: "rev s = d # u" using assms(2) by (cases "rev s") auto
  have "d \<in> set s" using r by (metis list.set_intros(1) set_rev)
  then have "digit d" using assms(1) by (simp add: list_all_iff)
  then have "trim_left (map rev spaces) (rev s) = rev s"
    unfolding r by (rule no_leading_space [OF _ spaces_not_digits(2)])
  then show ?thesis using l by (simp add: TrimSpace_def)
qed

section \<open>The libraries\<close>

definition demo_ParseAddress :: "string \<Rightarrow> string option" where
  "demo_ParseAddress s = Some (if s = ''Ann <ann@1>'' then ''ann@1'' else s)"

definition demo_auth :: auth_libs where
  "demo_auth = \<lparr>al_lower = ToLower, al_ParseAddress = demo_ParseAddress,
     al_GenerateFromPassword = (\<lambda>_ p. Some (CHR ''#'' # p)), al_CompareHashAndPassword = (\<lambda>h p. h = CHR ''#'' # p),
     al_SignedString = sign_number\<rparr>"

lemma demo_bcrypt: "bcrypt_ok demo_auth"
  by (simp add: bcrypt_ok_def demo_auth_def)

lemma demo_jwt: "jwt_ok demo_auth parse_number"
  unfolding jwt_ok_def
proof (intro allI impI)
  fix c key tok
  assume "al_SignedString demo_auth c key = Some tok"
  then have tok: "tok = decimal (prod_encode (str_code key, prod_encode (str_code (rc_Subject c),
     prod_encode (int_encode (rc_ExpiresAt c), prod_encode (int_encode (rc_NotBefore c), str_code (rc_Issuer c))))))"
    by (simp add: demo_auth_def sign_number_def)
  have "parse_number opts key tok t = (if claims_ok opts c t then Some \<lparr>c_Subject = rc_Subject c\<rparr> else None)" for opts t
  proof -
    have "claims_ok opts \<lparr>rc_Subject = rc_Subject c, rc_ExpiresAt = rc_ExpiresAt c, rc_IssuedAt = 0,
        rc_NotBefore = rc_NotBefore c, rc_Issuer = rc_Issuer c, rc_ID = []\<rparr> t = claims_ok opts c t"
      by (rule claims_ok_relevant) simp_all
    then show ?thesis unfolding tok by (simp add: parse_number_def digits_val_decimal Let_def)
  qed
  then show "tok \<noteq> [] \<and> TrimSpace tok = tok
     \<and> (\<forall>opts t. parse_number opts key tok t = (if claims_ok opts c t then Some \<lparr>c_Subject = rc_Subject c\<rparr> else None))"
    using TrimSpace_digits [OF decimal_digits decimal_nonempty] decimal_nonempty by (simp add: tok)
qed

definition demo_api :: AuthAPI where
  "demo_api = \<lparr>au_jwtSecret = replicate 32 (CHR ''k''), au_jwtTTL = 3600 * Second, au_jwtIssuer = ''ecom-auth'',
     au_dummyHash = ''#''\<rparr>"

definition demo_env :: "time \<Rightarrow> auth_env" where
  "demo_env t = \<lparr>ae_pg = \<lparr>fates = (\<lambda>_. Runs), clock = t, canon = (\<lambda>s. if s = [] then None else Some s)\<rparr>,
     ae_bytes = (\<lambda>n. replicate 16 (of_nat n)), ae_now = (\<lambda>_. t), ae_salt = []\<rparr>"

definition demo_body :: "string \<Rightarrow> string \<Rightarrow> request" where
  "demo_body email password =
     \<lparr>header = (\<lambda>_. []), url_id = [], query = (\<lambda>_. []),
       req_body = (Value (JObj [(''email'', JStr email), (''password'', JStr password)]), End), correlation = ''c''\<rparr>"

lemma demo_decode:
  "DecodeJSON decode_credentials (req_body (demo_body email password)) = Inr \<lparr>cr_Email = email, cr_Password = password\<rparr>"
proof -
  have "fold_name ''email'' \<noteq> fold_name ''password''" by (simp add: name_eval)
  then show ?thesis
    by (simp add: demo_body_def DecodeJSON_def decode_credentials_def decode_struct_def str_field_def)
qed

section \<open>Witnesses\<close>

lemma demo_trim: "TrimSpace ''bob@1'' = ''bob@1''" "TrimSpace '' BOB@1 '' = ''BOB@1''"
  "TrimSpace ''Ann <ann@1>'' = ''Ann <ann@1>''"
  by (simp_all add: TrimSpace_def spaces_def leading_space_def)

lemma demo_lower: "ToLower ''BOB@1'' = ToLower ''bob@1''"
  by (simp add: name_eval)

definition demo_user :: "time \<Rightarrow> string \<Rightarrow> string \<Rightarrow> User" where
  "demo_user t email password = \<lparr>u_ID = newUUID (replicate 16 0), u_Email = email, u_PasswordHash = CHR ''#'' # password,
     u_CreatedAt = t, u_UpdatedAt = t\<rparr>"

lemma demo_signup:
  assumes "normalizeEmail demo_auth email = Inr addr" and "validatePassword password = None"
    and "text_ok addr" and "text_ok (CHR ''#'' # password)"
  obtains resp where "signup demo_auth demo_api (demo_env t) (demo_body email password) []
      = (JSON 201 resp, [demo_user t addr password])" and "ar_User resp = user_toView (demo_user t addr password)"
proof -
  have c: "CreateUser ToLower (ae_pg (demo_env t)) (newUUID (replicate 16 0)) addr (CHR ''#'' # password) []
      = (Inr (demo_user t addr password), [demo_user t addr password])"
    using assms(3,4) fresh_uuid_nonempty
    by (simp add: CreateUser_def demo_env_def store_simps insert_user_def Let_def demo_user_def)
  obtain tok where "sign_number (token_claims demo_api (demo_env t) 1 (demo_user t addr password)) (au_jwtSecret demo_api) = Some tok"
    by (simp add: sign_number_def)
  then show thesis using c assms(1,2)
    by (intro that [of "\<lparr>ar_Token = tok, ar_ExpiresAt = unix_seconds (time_add t (au_jwtTTL demo_api)),
          ar_User = user_toView (demo_user t addr password)\<rparr>"])
      (simp_all add: signup_def demo_decode demo_auth_def demo_env_def respondWithToken_def WriteJSON_def Let_def)
qed

lemma demo_env_pg: "fates (ae_pg (demo_env t)) 0 = Runs" "uuid_type (canon (ae_pg (demo_env t)))"
  by (simp_all add: demo_env_def uuid_type_def)

lemma demo_signs: "\<forall>c. al_SignedString demo_auth c key \<noteq> None"
  by (simp add: demo_auth_def sign_number_def)

lemma demo_fields: "al_lower demo_auth = ToLower" "al_CompareHashAndPassword demo_auth h p = (h = CHR ''#'' # p)"
  by (simp_all add: demo_auth_def)

theorem account_works_end_to_end_witness:
  "\<exists>resp db1 tok.
     signup demo_auth demo_api (demo_env 0) (demo_body ''bob@1'' ''password'') [] = (JSON 201 resp, db1)
     \<and> login demo_auth demo_api (demo_env Second) (demo_body '' BOB@1 '' ''password'') db1
       = JSON 200 \<lparr>ar_Token = tok, ar_ExpiresAt = 3601, ar_User = ar_User resp\<rparr>
     \<and> identity parse_number \<lparr>jwt_Secret = replicate 32 (CHR ''k''), jwt_Issuer = [], jwt_Audience = []\<rparr>
         (demo_request ''/orders/1'' [(''Authorization'', ''Bearer '' @ tok)] (2 * Second)) = Some (uv_ID (ar_User resp))"
proof -
  have n: "normalizeEmail demo_auth ''bob@1'' = Inr ''bob@1''"
    by (simp add: normalizeEmail_def demo_trim demo_auth_def demo_ParseAddress_def)
  have v: "validatePassword ''password'' = None" by (simp add: validatePassword_def minPasswordLen_def maxPasswordLen_def)
  have tx: "text_ok ''bob@1''" "text_ok ''#password''" "text_ok ''BOB@1''" by (simp_all add: text_ok_def)
  obtain resp where s: "signup demo_auth demo_api (demo_env 0) (demo_body ''bob@1'' ''password'') []
      = (JSON 201 resp, [demo_user 0 ''bob@1'' ''password''])"
    and u: "ar_User resp = user_toView (demo_user 0 ''bob@1'' ''password'')"
    by (rule demo_signup [OF n v tx(1,2)])
  define cfg where "cfg = \<lparr>jwt_Secret = replicate 32 (CHR ''k''), jwt_Issuer = [], jwt_Audience = []\<rparr>"
  have key: "jwt_Secret cfg = au_jwtSecret demo_api" by (simp add: cfg_def demo_api_def)
  have inv: "users_inv (al_lower demo_auth) []" by (simp add: users_inv_def)
  have eq: "al_lower demo_auth (TrimSpace (cr_Email \<lparr>cr_Email = '' BOB@1 '', cr_Password = ''password''\<rparr>))
      = al_lower demo_auth (uv_Email (ar_User resp))"
    by (simp add: u user_toView_def demo_user_def demo_trim demo_fields demo_lower)
  have tx': "text_ok (TrimSpace (cr_Email \<lparr>cr_Email = '' BOB@1 '', cr_Password = ''password''\<rparr>))"
    by (simp add: demo_trim tx)
  have pw: "cr_Password \<lparr>cr_Email = '' BOB@1 '', cr_Password = ''password''\<rparr> = cr_Password \<lparr>cr_Email = ''bob@1'', cr_Password = ''password''\<rparr>"
    by simp
  from account_works_end_to_end [OF inv demo_env_pg(2) demo_bcrypt demo_jwt s demo_decode demo_decode pw tx' eq
      demo_env_pg(1) [of Second] demo_signs key, of "[]"]
  obtain tok where t: "login demo_auth demo_api (demo_env Second) (demo_body '' BOB@1 '' ''password'') [demo_user 0 ''bob@1'' ''password'']
      = JSON 200 \<lparr>ar_Token = tok, ar_ExpiresAt = 3601, ar_User = ar_User resp\<rparr>"
    and q: "\<And>q. Header_Get (r_Header q) AuthorizationHeader = ''Bearer '' @ tok \<Longrightarrow>
      identity parse_number cfg q = (if at_now q < 3601 * Second \<and> Second \<le> at_now q then Some (uv_ID (ar_User resp)) else None)"
    by (auto simp: demo_env_def demo_api_def unix_seconds_def time_add_def cfg_def)
  define rq where "rq = demo_request ''/orders/1'' [(''Authorization'', ''Bearer '' @ tok)] (2 * Second)"
  have "CanonicalHeaderKey ''Authorization'' = ''Authorization''" by (simp add: name_eval)
  then have "Header_Get (r_Header rq) AuthorizationHeader = ''Bearer '' @ tok" "at_now rq = 2 * Second"
    by (simp_all add: rq_def demo_request_def read_headers_def Header_Get_def canonical_names)
  then have "identity parse_number cfg rq = Some (uv_ID (ar_User resp))" using q [of rq] by simp
  then show ?thesis using s t unfolding rq_def cfg_def by blast
qed

theorem sign_in_is_exact_witness:
  "login demo_auth demo_api (demo_env 0) (demo_body ''bob@1'' ''wrong'') [demo_user 0 ''bob@1'' ''password'']
     = ErrorJSON 401 ''invalid email or password'' ''c''"
proof -
  have inv: "users_inv (al_lower demo_auth) [demo_user 0 ''bob@1'' ''password'']"
    by (simp add: users_inv_def demo_user_def text_ok_def)
  have tx: "text_ok (TrimSpace (cr_Email \<lparr>cr_Email = ''bob@1'', cr_Password = ''wrong''\<rparr>))"
    by (simp add: demo_trim text_ok_def)
  show ?thesis
    using sign_in_is_exact [OF inv demo_decode demo_env_pg(1) tx demo_signs]
    by (simp add: demo_fields demo_user_def) (simp add: demo_body_def)
qed

theorem account_page_is_unreachable_witness:
  "\<exists>h l. \<forall>(u, out) \<in> set (g_forwarded (snd (serve h
       (demo_request ''/auth/me'' [(''Authorization'', ''Bearer token-of-alice'')] 0) (demo_gateway (l :: SlidingWindowLog))))).
     \<forall>q. received out q \<longrightarrow> me (demo_env 0) q [] = ErrorJSON 401 ''unauthenticated'' (correlation q)"
proof -
  obtain l where l: "NewSlidingWindowLog 2 Second = Inr l" by (simp add: NewSlidingWindowLog_def)
  obtain h where h: "gateway_of (demo_libs ok_reply) (demo_config SlidingWindowLog_Allow) SlidingWindowLog_Allow
      demo_services h" by (rule demo_ok)
  define r where "r = demo_request ''/auth/me'' [(''Authorization'', ''Bearer token-of-alice'')] 0"
  have "from_network r" "under ''auth'' (r_Path r)" by (simp_all add: r_def demo_from_network under_def) (simp add: demo_request_def)
  from account_page_is_unreachable [OF h this prod.collapse [symmetric], of "demo_gateway l"]
  show ?thesis unfolding r_def by (intro exI [of _ h] exI [of _ l]) (auto simp: demo_gateway_def)
qed

section \<open>An address that signs up only\<close>

text \<open>
  Sign-up keeps the address that \<open>ParseAddress\<close> extracts; sign-in compares the text as it is.  Who signs
  up as \<open>Ann <ann@1>\<close> cannot sign in with the very same credentials.
\<close>

theorem display_name_signs_up_only:
  "\<exists>resp db1. signup demo_auth demo_api (demo_env 0) (demo_body ''Ann <ann@1>'' ''password'') [] = (JSON 201 resp, db1)
     \<and> login demo_auth demo_api (demo_env 0) (demo_body ''Ann <ann@1>'' ''password'') db1
       = ErrorJSON 401 ''invalid email or password'' ''c''"
proof -
  have n: "normalizeEmail demo_auth ''Ann <ann@1>'' = Inr ''ann@1''"
    by (simp add: normalizeEmail_def demo_trim demo_auth_def demo_ParseAddress_def)
  have v: "validatePassword ''password'' = None" by (simp add: validatePassword_def minPasswordLen_def maxPasswordLen_def)
  have tx: "text_ok ''ann@1''" "text_ok ''#password''" "text_ok ''Ann <ann@1>''" by (simp_all add: text_ok_def)
  obtain resp where s: "signup demo_auth demo_api (demo_env 0) (demo_body ''Ann <ann@1>'' ''password'') []
      = (JSON 201 resp, [demo_user 0 ''ann@1'' ''password''])"
    by (rule demo_signup [OF n v tx(1,2)])
  have "ToLower ''ann@1'' \<noteq> ToLower ''Ann <ann@1>''" by (simp add: ToLower_def)
  then have "UserByEmail ToLower (ae_pg (demo_env 0)) ''Ann <ann@1>'' [demo_user 0 ''ann@1'' ''password''] = Inl ErrUserNotFound"
    using UserByEmail_total [OF demo_env_pg(1), of "''Ann <ann@1>''" ToLower] tx(3)
    by (simp add: demo_trim demo_user_def)
  then have "login demo_auth demo_api (demo_env 0) (demo_body ''Ann <ann@1>'' ''password'') [demo_user 0 ''ann@1'' ''password'']
      = ErrorJSON 401 ''invalid email or password'' ''c''"
    by (simp add: login_def demo_decode demo_fields WriteError_def Let_def) (simp add: demo_body_def)
  then show ?thesis using s by blast
qed

end
