(* ===== verification/Consumer.thy ===== *)
theory Consumer
  imports Events
begin

text \<open>
  The consuming side of \<open>pkg/events/kafka.go\<close>: the message a publisher writes, and the loop that
  fetches, decodes, handles and commits.  The Kafka client is not in the repository: its calls are the
  parameter \<open>reader_ops\<close>, what its documentation promises of one partition is \<open>reader_contract\<close>.
\<close>

section \<open>Envelopes as JSON\<close>

text \<open>
  \<open>time.Time\<close> travels as text.  Its format is a parameter: how an instant is written and what a text
  is read as.
\<close>

record time_format =
  time_text :: "int \<Rightarrow> string"
  time_value :: "string \<Rightarrow> int option"

definition time_field :: "time_format \<Rightarrow> (int \<Rightarrow> 'r \<Rightarrow> 'r) \<Rightarrow> json \<Rightarrow> 'r \<Rightarrow> 'r option" where
  "time_field fmt upd v r =
     (case v of JNull \<Rightarrow> Some r | JStr s \<Rightarrow> map_option (\<lambda>t. upd t r) (time_value fmt s) | _ \<Rightarrow> None)"

definition raw_field :: "(json \<Rightarrow> 'r \<Rightarrow> 'r) \<Rightarrow> json \<Rightarrow> 'r \<Rightarrow> 'r option" where
  "raw_field upd v r = Some (upd v r)"

definition zero_time :: int where "zero_time = - 62135596800000000000"

definition marshal_Envelope :: "time_format \<Rightarrow> Envelope \<Rightarrow> json" where
  "marshal_Envelope fmt ev =
     JObj [(''id'', JStr (ev_ID ev)), (''type'', JStr (ev_Type ev)),
           (''correlation_id'', JStr (ev_CorrelationID ev)),
           (''occurred_at'', JStr (time_text fmt (ev_OccurredAt ev))),
           (''payload'', case ev_Payload ev of None \<Rightarrow> JNull | Some p \<Rightarrow> p)]"

definition unmarshal_Envelope :: "time_format \<Rightarrow> json \<Rightarrow> Envelope option" where
  "unmarshal_Envelope fmt =
     decode_struct False
       [(''id'', str_field (\<lambda>s r. r\<lparr>ev_ID := s\<rparr>)), (''type'', str_field (\<lambda>s r. r\<lparr>ev_Type := s\<rparr>)),
        (''correlation_id'', str_field (\<lambda>s r. r\<lparr>ev_CorrelationID := s\<rparr>)),
        (''occurred_at'', time_field fmt (\<lambda>t r. r\<lparr>ev_OccurredAt := t\<rparr>)),
        (''payload'', raw_field (\<lambda>p r. r\<lparr>ev_Payload := Some p\<rparr>))]
       \<lparr>ev_ID = [], ev_Type = [], ev_CorrelationID = [], ev_OccurredAt = zero_time, ev_Payload = None\<rparr>"

lemma unmarshal_marshal_Envelope:
  assumes "time_value fmt (time_text fmt (ev_OccurredAt ev)) = Some (ev_OccurredAt ev)"
    and "ev_Payload ev \<noteq> None"
  shows "unmarshal_Envelope fmt (marshal_Envelope fmt ev) = Some ev"
  using assms
  by (cases ev) (auto simp: unmarshal_Envelope_def marshal_Envelope_def time_field_def raw_field_def field_simps_json)

section \<open>Messages\<close>

text \<open>The value of a message is the JSON value it denotes, or nothing when its bytes are not JSON.\<close>

record message =
  msg_Offset :: nat
  msg_Key :: string
  msg_Headers :: "(string \<times> string) list"
  msg_Value :: "json option"

definition correlationHeader :: string where "correlationHeader = ''correlation-id''"

definition message_of :: "time_format \<Rightarrow> nat \<Rightarrow> string \<Rightarrow> Envelope \<Rightarrow> message" where
  "message_of fmt off key ev =
     \<lparr>msg_Offset = off, msg_Key = key, msg_Headers = [(correlationHeader, ev_CorrelationID ev)],
      msg_Value = Some (marshal_Envelope fmt ev)\<rparr>"

definition envelope_of :: "time_format \<Rightarrow> message \<Rightarrow> Envelope option" where
  "envelope_of fmt m = Option.bind (msg_Value m) (unmarshal_Envelope fmt)"

section \<open>The consumer\<close>

datatype fetch_error = Canceled | DeadlineExceeded | FetchFailed string

record 'r reader_ops =
  FetchMessage :: "'r \<Rightarrow> (fetch_error, message) result \<times> 'r"
  CommitMessages :: "message \<Rightarrow> 'r \<Rightarrow> (string, unit) result \<times> 'r"
  Reader_Close :: "'r \<Rightarrow> (string, unit) result \<times> 'r"

text \<open>A handler gets the correlation identifier of its context, the envelope, and the service's state;
  \<open>ctx\<close> is the identifier the consumer's own context carries.\<close>

type_synonym 's event_handler = "string \<Rightarrow> Envelope \<Rightarrow> 's \<Rightarrow> (string, unit) result \<times> 's"

text \<open>What the consumer logs.\<close>

datatype log_line =
    ConsumerStarted
  | ConsumerStopping
  | EventReceived string string
  | SkippingMalformed nat
  | HandlingFailed string nat
  | CommittingFailed string nat
  | ClosingFailed string

text \<open>
  \<open>c_seen\<close> is history, read by no definition of the code: the offsets given to \<open>handle\<close>, with what
  became of them.
\<close>

datatype outcome = Handled | Failed | Malformed

record ('r, 's) Consumer =
  c_reader :: 'r
  c_app :: 's
  c_log :: "log_line list"
  c_seen :: "(nat \<times> outcome) list"

definition logs :: "log_line \<Rightarrow> ('r, 's) Consumer \<Rightarrow> ('r, 's) Consumer" where
  "logs l c = c\<lparr>c_log := c_log c @ [l]\<rparr>"

definition sees :: "message \<Rightarrow> outcome \<Rightarrow> ('r, 's) Consumer \<Rightarrow> ('r, 's) Consumer" where
  "sees m out c = c\<lparr>c_seen := c_seen c @ [(msg_Offset m, out)]\<rparr>"

definition commit_message ::
  "'r reader_ops \<Rightarrow> message \<Rightarrow> ('r, 's) Consumer \<Rightarrow> (string, unit) result \<times> ('r, 's) Consumer" where
  "commit_message ops m c = (let (res, r) = CommitMessages ops m (c_reader c) in (res, c\<lparr>c_reader := r\<rparr>))"

definition handle ::
  "time_format \<Rightarrow> 'r reader_ops \<Rightarrow> 's event_handler \<Rightarrow> string \<Rightarrow> message \<Rightarrow> ('r, 's) Consumer
    \<Rightarrow> (string, unit) result \<times> ('r, 's) Consumer" where
  "handle fmt ops handler ctx m c =
     (case envelope_of fmt m of
        None \<Rightarrow>
          (let (res, c') = commit_message ops m (logs (SkippingMalformed (msg_Offset m)) (sees m Malformed c)) in
             case res of
               Inl commitErr \<Rightarrow> (Inl (''committing past malformed message: '' @ commitErr), c')
             | Inr _ \<Rightarrow> (Inr (), c'))
      | Some env \<Rightarrow>
          (let cid = (if ev_CorrelationID env \<noteq> '''' then ev_CorrelationID env else ctx);
               (res, s) = handler cid env (c_app c);
               out = (case res of Inl _ \<Rightarrow> Failed | Inr _ \<Rightarrow> Handled)
           in (res, sees m out (logs (EventReceived (ev_Type env) (ev_ID env)) c)\<lparr>c_app := s\<rparr>)))"

text \<open>One turn of the loop; \<open>Some\<close> when it returns.\<close>

definition Run_turn ::
  "time_format \<Rightarrow> 'r reader_ops \<Rightarrow> string \<Rightarrow> 's event_handler \<Rightarrow> string \<Rightarrow> ('r, 's) Consumer
    \<Rightarrow> (string, unit) result option \<times> ('r, 's) Consumer" where
  "Run_turn fmt ops topic handler ctx c =
     (let (fetched, r) = FetchMessage ops (c_reader c); c1 = c\<lparr>c_reader := r\<rparr> in
      case fetched of
        Inl (FetchFailed err) \<Rightarrow> (Some (Inl (''fetching from '' @ topic @ '': '' @ err)), c1)
      | Inl _ \<Rightarrow> (Some (Inr ()), logs ConsumerStopping c1)
      | Inr m \<Rightarrow>
          (let (handled, c2) = handle fmt ops handler ctx m c1 in
           case handled of
             Inl err \<Rightarrow> (None, logs (HandlingFailed err (msg_Offset m)) c2)
           | Inr _ \<Rightarrow>
               (let (committed, c3) = commit_message ops m c2 in
                case committed of
                  Inl err \<Rightarrow> (None, logs (CommittingFailed err (msg_Offset m)) c3)
                | Inr _ \<Rightarrow> (None, c3))))"

text \<open>
  The loop ends only when fetching does, so \<open>Run\<close> is given the number of turns to look at: \<open>None\<close> is
  a consumer that is still running after them.
\<close>

primrec Run_loop ::
  "nat \<Rightarrow> time_format \<Rightarrow> 'r reader_ops \<Rightarrow> string \<Rightarrow> 's event_handler \<Rightarrow> string \<Rightarrow> ('r, 's) Consumer
    \<Rightarrow> (string, unit) result option \<times> ('r, 's) Consumer" where
  "Run_loop 0 fmt ops topic handler ctx c = (None, c)"
| "Run_loop (Suc n) fmt ops topic handler ctx c =
     (let (res, c') = Run_turn fmt ops topic handler ctx c in
      case res of None \<Rightarrow> Run_loop n fmt ops topic handler ctx c' | Some x \<Rightarrow> (Some x, c'))"

definition Consumer_Run ::
  "nat \<Rightarrow> time_format \<Rightarrow> 'r reader_ops \<Rightarrow> string \<Rightarrow> 's event_handler \<Rightarrow> string \<Rightarrow> ('r, 's) Consumer
    \<Rightarrow> (string, unit) result option \<times> ('r, 's) Consumer" where
  "Consumer_Run n fmt ops topic handler ctx c =
     (let (res, c') = Run_loop n fmt ops topic handler ctx (logs ConsumerStarted c) in
      case res of
        None \<Rightarrow> (None, c')
      | Some x \<Rightarrow>
          (let (closed, r) = Reader_Close ops (c_reader c'); c'' = c'\<lparr>c_reader := r\<rparr> in
           (Some x, case closed of Inl err \<Rightarrow> logs (ClosingFailed err) c'' | Inr _ \<Rightarrow> c'')))"

end
