(* ===== verification/ConsumerProps.thy ===== *)
theory ConsumerProps
  imports Consumer "HOL-Library.Sublist"
begin

text \<open>
  What the consumer of \<open>pkg/events/kafka.go\<close> guarantees over any number of sessions, each ended by a
  cancelled context, a failed fetch, or a crash, and where its guarantee ends.
\<close>

section \<open>The reader's contract\<close>

text \<open>
  One partition as the client sees it: the messages it holds, the position of the next fetch, and the
  offset committed for the group.
\<close>

record 'r reader_view =
  v_log :: "'r \<Rightarrow> message list"
  v_pos :: "'r \<Rightarrow> nat"
  v_committed :: "'r \<Rightarrow> nat"

text \<open>
  What the client's documentation promises: a fetch returns the message at the position and moves past
  it, without committing; a commit may or may not take effect when it reports an error, and does when it
  reports none; partitions only grow; a new session of the group starts at the committed offset.
\<close>

definition fetch_ok :: "'r reader_ops \<Rightarrow> 'r reader_view \<Rightarrow> bool" where
  "fetch_ok ops v \<longleftrightarrow>
     (\<forall>r res r'. FetchMessage ops r = (res, r') \<longrightarrow>
        prefix (v_log v r) (v_log v r') \<and> v_committed v r' = v_committed v r
        \<and> (case res of
             Inl _ \<Rightarrow> v_pos v r' = v_pos v r
           | Inr m \<Rightarrow> v_pos v r < length (v_log v r') \<and> m = v_log v r' ! v_pos v r
                     \<and> msg_Offset m = v_pos v r \<and> v_pos v r' = Suc (v_pos v r)))"

definition commit_ok :: "'r reader_ops \<Rightarrow> 'r reader_view \<Rightarrow> bool" where
  "commit_ok ops v \<longleftrightarrow>
     (\<forall>m r res r'. CommitMessages ops m r = (res, r') \<longrightarrow>
        v_log v r' = v_log v r \<and> v_pos v r' = v_pos v r
        \<and> (v_committed v r' = Suc (msg_Offset m) \<or> (res \<noteq> Inr () \<and> v_committed v r' = v_committed v r)))"

definition restart_ok :: "('r \<Rightarrow> 'r) \<Rightarrow> 'r reader_view \<Rightarrow> bool" where
  "restart_ok restart v \<longleftrightarrow>
     (\<forall>r. prefix (v_log v r) (v_log v (restart r)) \<and> v_committed v (restart r) = v_committed v r
        \<and> v_pos v (restart r) = v_committed v r)"

definition close_ok :: "'r reader_ops \<Rightarrow> 'r reader_view \<Rightarrow> bool" where
  "close_ok ops v \<longleftrightarrow>
     (\<forall>r res r'. Reader_Close ops r = (res, r') \<longrightarrow>
        v_log v r' = v_log v r \<and> v_committed v r' = v_committed v r \<and> v_pos v r' = v_pos v r)"

definition reader_contract :: "'r reader_ops \<Rightarrow> ('r \<Rightarrow> 'r) \<Rightarrow> 'r reader_view \<Rightarrow> bool" where
  "reader_contract ops restart v \<longleftrightarrow> fetch_ok ops v \<and> commit_ok ops v \<and> close_ok ops v \<and> restart_ok restart v"

text \<open>Sessions, one after another; a session is looked at for a number of turns and then ends.\<close>

primrec sessions ::
  "nat list \<Rightarrow> time_format \<Rightarrow> 'r reader_ops \<Rightarrow> ('r \<Rightarrow> 'r) \<Rightarrow> string \<Rightarrow> 's event_handler \<Rightarrow> string
    \<Rightarrow> ('r, 's) Consumer \<Rightarrow> ('r, 's) Consumer" where
  "sessions [] fmt ops restart topic handler ctx c = c"
| "sessions (n # ns) fmt ops restart topic handler ctx c =
     (let c' = snd (Consumer_Run n fmt ops topic handler ctx c) in
      sessions ns fmt ops restart topic handler ctx (c'\<lparr>c_reader := restart (c_reader c')\<rparr>))"

section \<open>One turn\<close>

definition stays :: "'r reader_view \<Rightarrow> ('r, 's) Consumer \<Rightarrow> ('r, 's) Consumer \<Rightarrow> bool" where
  "stays v c c' \<longleftrightarrow>
     prefix (v_log v (c_reader c)) (v_log v (c_reader c')) \<and> v_pos v (c_reader c') = v_pos v (c_reader c)
     \<and> v_committed v (c_reader c') = v_committed v (c_reader c) \<and> c_seen c' = c_seen c \<and> c_app c' = c_app c
     \<and> set (c_log c) \<subseteq> set (c_log c')"

text \<open>What becomes of a message given to \<open>handle\<close>.\<close>

definition became ::
  "time_format \<Rightarrow> 's event_handler \<Rightarrow> message \<Rightarrow> 's \<Rightarrow> 's \<Rightarrow> outcome \<Rightarrow> bool" where
  "became fmt handler m s s' out \<longleftrightarrow>
     (case envelope_of fmt m of
        None \<Rightarrow> out = Malformed \<and> s' = s
      | Some env \<Rightarrow> out \<noteq> Malformed \<and> (\<exists>cid res. handler cid env s = (res, s') \<and> (out = Handled \<longleftrightarrow> res = Inr ())))"

text \<open>A turn that takes a message: what it is, what becomes of it, where the group stands after.\<close>

definition takes ::
  "time_format \<Rightarrow> 'r reader_view \<Rightarrow> 's event_handler \<Rightarrow> ('r, 's) Consumer \<Rightarrow> ('r, 's) Consumer \<Rightarrow> outcome \<Rightarrow> bool"
  where
  "takes fmt v handler c c' out \<longleftrightarrow>
     prefix (v_log v (c_reader c)) (v_log v (c_reader c'))
     \<and> v_pos v (c_reader c) < length (v_log v (c_reader c')) \<and> v_pos v (c_reader c') = Suc (v_pos v (c_reader c))
     \<and> v_committed v (c_reader c') \<in> {v_committed v (c_reader c), Suc (v_pos v (c_reader c))}
     \<and> c_seen c' = c_seen c @ [(v_pos v (c_reader c), out)]
     \<and> set (c_log c) \<subseteq> set (c_log c')
     \<and> (out = Malformed \<longrightarrow> SkippingMalformed (v_pos v (c_reader c)) \<in> set (c_log c'))
     \<and> (out = Failed \<longrightarrow> (\<exists>err. HandlingFailed err (v_pos v (c_reader c)) \<in> set (c_log c')))
     \<and> became fmt handler (v_log v (c_reader c') ! v_pos v (c_reader c)) (c_app c) (c_app c') out"

lemma commit_okD:
  assumes "commit_ok ops v" and "CommitMessages ops m r = (res, r')"
  shows "v_log v r' = v_log v r" "v_pos v r' = v_pos v r"
    "v_committed v r' = Suc (msg_Offset m) \<or> v_committed v r' = v_committed v r"
  using assms unfolding commit_ok_def by blast+

lemma fetch_okD:
  assumes "fetch_ok ops v" and "FetchMessage ops r = (Inr m, r')"
  shows "prefix (v_log v r) (v_log v r')" "v_committed v r' = v_committed v r"
    "v_pos v r < length (v_log v r')" "v_log v r' ! v_pos v r = m" "msg_Offset m = v_pos v r"
    "v_pos v r' = Suc (v_pos v r)"
  using assms unfolding fetch_ok_def by fastforce+

lemma commit_message_view:
  assumes "commit_ok ops v" and "commit_message ops m c = (res, c')"
  shows "v_log v (c_reader c') = v_log v (c_reader c)" "v_pos v (c_reader c') = v_pos v (c_reader c)"
    "v_committed v (c_reader c') \<in> {v_committed v (c_reader c), Suc (msg_Offset m)}"
    "c_app c' = c_app c" "c_seen c' = c_seen c" "c_log c' = c_log c"
proof -
  obtain r res' where r: "CommitMessages ops m (c_reader c) = (res', r)" by fastforce
  then have c': "c' = c\<lparr>c_reader := r\<rparr>" using assms(2) by (simp add: commit_message_def)
  show "v_log v (c_reader c') = v_log v (c_reader c)" "v_pos v (c_reader c') = v_pos v (c_reader c)"
    "v_committed v (c_reader c') \<in> {v_committed v (c_reader c), Suc (msg_Offset m)}"
    "c_app c' = c_app c" "c_seen c' = c_seen c" "c_log c' = c_log c"
    unfolding c' using commit_okD [OF assms(1) r] by (simp_all, blast)
qed

lemma handle_malformed:
  assumes "commit_ok ops v" and "handle fmt ops handler ctx m c = (res, c')" and "envelope_of fmt m = None"
  shows "v_log v (c_reader c') = v_log v (c_reader c)" "v_pos v (c_reader c') = v_pos v (c_reader c)"
    "v_committed v (c_reader c') \<in> {v_committed v (c_reader c), Suc (msg_Offset m)}"
    "c_app c' = c_app c" "c_seen c' = c_seen c @ [(msg_Offset m, Malformed)]"
    "c_log c' = c_log c @ [SkippingMalformed (msg_Offset m)]"
proof -
  define c0 where "c0 = logs (SkippingMalformed (msg_Offset m)) (sees m Malformed c)"
  obtain r c1 where cm: "commit_message ops m c0 = (r, c1)" by fastforce
  have "handle fmt ops handler ctx m c =
      (case r of Inl err \<Rightarrow> (Inl (''committing past malformed message: '' @ err), c1) | Inr _ \<Rightarrow> (Inr (), c1))"
    using assms(3) cm by (simp add: handle_def c0_def)
  then have c': "c' = c1" using assms(2) by (cases r) simp_all
  have c0: "c_reader c0 = c_reader c" "c_app c0 = c_app c" "c_seen c0 = c_seen c @ [(msg_Offset m, Malformed)]"
    "c_log c0 = c_log c @ [SkippingMalformed (msg_Offset m)]"
    by (simp_all add: c0_def logs_def sees_def)
  show "v_log v (c_reader c') = v_log v (c_reader c)" "v_pos v (c_reader c') = v_pos v (c_reader c)"
    "v_committed v (c_reader c') \<in> {v_committed v (c_reader c), Suc (msg_Offset m)}"
    "c_app c' = c_app c" "c_seen c' = c_seen c @ [(msg_Offset m, Malformed)]"
    "c_log c' = c_log c @ [SkippingMalformed (msg_Offset m)]"
    unfolding c' using commit_message_view [OF assms(1) cm] unfolding c0 by blast+
qed

lemma handle_view:
  assumes "commit_ok ops v" and "handle fmt ops handler ctx m c = (res, c')"
  shows "v_log v (c_reader c') = v_log v (c_reader c) \<and> v_pos v (c_reader c') = v_pos v (c_reader c)
    \<and> v_committed v (c_reader c') \<in> {v_committed v (c_reader c), Suc (msg_Offset m)}
    \<and> set (c_log c) \<subseteq> set (c_log c')
    \<and> (\<exists>out. became fmt handler m (c_app c) (c_app c') out \<and> c_seen c' = c_seen c @ [(msg_Offset m, out)]
          \<and> (out = Malformed \<longrightarrow> SkippingMalformed (msg_Offset m) \<in> set (c_log c'))
          \<and> (out = Failed \<longrightarrow> isl res))"
proof (cases "envelope_of fmt m")
  case None
  with handle_malformed [OF assms None] show ?thesis by (auto simp: became_def)
next
  case (Some env)
  define cid where "cid = (if ev_CorrelationID env \<noteq> '''' then ev_CorrelationID env else ctx)"
  obtain r s where h: "handler cid env (c_app c) = (r, s)" by fastforce
  have "c' = sees m (case r of Inl _ \<Rightarrow> Failed | Inr _ \<Rightarrow> Handled)
               (logs (EventReceived (ev_Type env) (ev_ID env)) c)\<lparr>c_app := s\<rparr>"
    and "res = r"
    using assms(2) Some h by (auto simp: handle_def cid_def)
  then show ?thesis using Some h
    by (auto simp: became_def sees_def logs_def split: sum.splits intro!: exI [of _ cid])
qed

lemma Run_turn_takes:
  assumes "fetch_ok ops v" and "commit_ok ops v"
    and "FetchMessage ops (c_reader c) = (Inr m, r)" and "Run_turn fmt ops topic handler ctx c = (res, c')"
  shows "(\<exists>out. takes fmt v handler c c' out) \<and> res = None"
proof -
  note f = fetch_okD [OF assms(1,3)]
  obtain h c2 where h: "handle fmt ops handler ctx m (c\<lparr>c_reader := r\<rparr>) = (h, c2)" by fastforce
  obtain k c3 where k: "commit_message ops m c2 = (k, c3)" by fastforce
  have c': "res = None \<and> (\<exists>l. (c' = logs l c2 \<and> isl h \<and> l = HandlingFailed (projl h) (msg_Offset m))
      \<or> (c' = logs l c3 \<and> \<not> isl h) \<or> (c' = c3 \<and> \<not> isl h))"
  proof (cases h)
    case (Inl err)
    with assms(3,4) h show ?thesis by (auto simp: Run_turn_def)
  next
    case (Inr u)
    with assms(3,4) h k show ?thesis by (cases k) (auto simp: Run_turn_def)
  qed
  obtain out where out: "became fmt handler m (c_app c) (c_app c2) out"
    "c_seen c2 = c_seen c @ [(v_pos v (c_reader c), out)]"
    "out = Malformed \<longrightarrow> SkippingMalformed (v_pos v (c_reader c)) \<in> set (c_log c2)" "out = Failed \<longrightarrow> isl h"
    using handle_view [OF assms(2) h] f(5) by auto
  have "takes fmt v handler c c' out"
    using handle_view [OF assms(2) h] commit_message_view [OF assms(2) k] f c' out
    by (auto simp: takes_def logs_def)
  then show ?thesis using c' by blast
qed

lemma Run_turn_stays:
  assumes "fetch_ok ops v" and "FetchMessage ops (c_reader c) = (Inl err, r)"
    and "Run_turn fmt ops topic handler ctx c = (res, c')"
  shows "stays v c c' \<and> res \<noteq> None"
proof -
  have "prefix (v_log v (c_reader c)) (v_log v r)" "v_committed v r = v_committed v (c_reader c)"
    "v_pos v r = v_pos v (c_reader c)"
    using assms(1,2) unfolding fetch_ok_def by fastforce+
  then show ?thesis using assms(2,3)
    by (cases err) (auto simp: Run_turn_def stays_def logs_def)
qed

section \<open>Any number of turns and sessions\<close>

lemma stays_logs [simp]: "stays v c (logs l c)"
  by (auto simp: stays_def logs_def)

lemma stays_trans: "stays v c c' \<Longrightarrow> stays v c' c'' \<Longrightarrow> stays v c c''"
  by (auto simp: stays_def intro: prefix_order.trans)

text \<open>What every taken message and every idle step preserve, a session preserves.\<close>

lemma Run_loop_keeps:
  assumes "fetch_ok ops v" and "commit_ok ops v" and "P c"
    and takes: "\<And>c c' out. P c \<Longrightarrow> takes fmt v handler c c' out \<Longrightarrow> P c'"
    and stays: "\<And>c c'. P c \<Longrightarrow> stays v c c' \<Longrightarrow> P c'"
  shows "P (snd (Run_loop n fmt ops topic handler ctx c))"
  using assms(3)
proof (induction n arbitrary: c)
  case (Suc n)
  obtain res c' where turn: "Run_turn fmt ops topic handler ctx c = (res, c')" by fastforce
  obtain fetched r where f: "FetchMessage ops (c_reader c) = (fetched, r)" by fastforce
  have "P c'"
  proof (cases fetched)
    case (Inl err)
    then have "stays v c c'" using Run_turn_stays [OF assms(1) _ turn] f by simp
    then show ?thesis by (rule stays [OF Suc.prems])
  next
    case (Inr m)
    then obtain out where "takes fmt v handler c c' out"
      using Run_turn_takes [OF assms(1,2) _ turn] f by auto
    then show ?thesis by (rule takes [OF Suc.prems])
  qed
  with Suc.IH [of c'] turn show ?case by (simp split: option.splits)
qed simp

lemma Consumer_Run_keeps:
  assumes "reader_contract ops restart v" and "P c"
    and takes: "\<And>c c' out. P c \<Longrightarrow> takes fmt v handler c c' out \<Longrightarrow> P c'"
    and stays: "\<And>c c'. P c \<Longrightarrow> stays v c c' \<Longrightarrow> P c'"
  shows "P (snd (Consumer_Run n fmt ops topic handler ctx c))"
proof -
  have ok: "fetch_ok ops v" "commit_ok ops v" "close_ok ops v"
    using assms(1) by (simp_all add: reader_contract_def)
  have "P (logs ConsumerStarted c)" using assms(2) stays [of c] by simp
  then have "P (snd (Run_loop n fmt ops topic handler ctx (logs ConsumerStarted c)))"
    by (rule Run_loop_keeps [where P = P, OF ok(1,2)]) (erule (1) takes, erule (1) stays)
  then obtain res c' where loop: "Run_loop n fmt ops topic handler ctx (logs ConsumerStarted c) = (res, c')" and c': "P c'"
    by (metis prod.collapse)
  obtain k r where k: "Reader_Close ops (c_reader c') = (k, r)" by fastforce
  have "stays v c' (c'\<lparr>c_reader := r\<rparr>)" using ok(3) k by (simp add: close_ok_def stays_def)
  then have "P (c'\<lparr>c_reader := r\<rparr>)" and "P (logs l (c'\<lparr>c_reader := r\<rparr>))" for l
    using c' stays stays_trans stays_logs by blast+
  with c' loop k show ?thesis by (auto simp: Consumer_Run_def Let_def split: option.splits sum.splits)
qed

lemma sessions_keep:
  assumes "reader_contract ops restart v" and "P c"
    and takes: "\<And>c c' out. P c \<Longrightarrow> takes fmt v handler c c' out \<Longrightarrow> P c'"
    and stays: "\<And>c c'. P c \<Longrightarrow> stays v c c' \<Longrightarrow> P c'"
    and restarts: "\<And>c. P c \<Longrightarrow> P (c\<lparr>c_reader := restart (c_reader c)\<rparr>)"
  shows "P (sessions ns fmt ops restart topic handler ctx c)"
  using assms(2)
proof (induction ns arbitrary: c)
  case (Cons n ns)
  have "P (snd (Consumer_Run n fmt ops topic handler ctx c))"
    by (rule Consumer_Run_keeps [where P = P, OF assms(1) Cons.prems]) (erule (1) takes, erule (1) stays)
  then show ?case using Cons.IH restarts by (simp add: Let_def)
qed simp

section \<open>At least once\<close>

text \<open>
  A handler is effective for \<open>done_by\<close> when its success on an event brings about what \<open>done_by\<close> says and
  no later event undoes it.
\<close>

definition effective :: "'s event_handler \<Rightarrow> (Envelope \<Rightarrow> 's \<Rightarrow> bool) \<Rightarrow> bool" where
  "effective handler done_by \<longleftrightarrow>
     (\<forall>cid env s. fst (handler cid env s) = Inr () \<longrightarrow> done_by env (snd (handler cid env s)))
     \<and> (\<forall>cid env env' s. done_by env s \<longrightarrow> done_by env (snd (handler cid env' s)))"

definition accounted ::
  "time_format \<Rightarrow> 'r reader_view \<Rightarrow> (Envelope \<Rightarrow> 's \<Rightarrow> bool) \<Rightarrow> ('r, 's) Consumer \<Rightarrow> nat \<Rightarrow> bool" where
  "accounted fmt v done_by c i \<longleftrightarrow>
     i < length (v_log v (c_reader c)) \<and>
     (case envelope_of fmt (v_log v (c_reader c) ! i) of
        None \<Rightarrow> SkippingMalformed i \<in> set (c_log c)
      | Some env \<Rightarrow> (\<exists>err. HandlingFailed err i \<in> set (c_log c)) \<or> done_by env (c_app c))"

definition consumer_inv ::
  "time_format \<Rightarrow> 'r reader_view \<Rightarrow> (Envelope \<Rightarrow> 's \<Rightarrow> bool) \<Rightarrow> ('r, 's) Consumer \<Rightarrow> bool" where
  "consumer_inv fmt v done_by c \<longleftrightarrow>
     v_committed v (c_reader c) \<le> v_pos v (c_reader c)
     \<and> (\<forall>i < v_pos v (c_reader c). accounted fmt v done_by c i)"

lemma accounted_mono:
  assumes "accounted fmt v done_by c i" and "prefix (v_log v (c_reader c)) (v_log v (c_reader c'))"
    and "set (c_log c) \<subseteq> set (c_log c')" and "\<And>env. done_by env (c_app c) \<Longrightarrow> done_by env (c_app c')"
  shows "accounted fmt v done_by c' i"
proof -
  have "v_log v (c_reader c') ! i = v_log v (c_reader c) ! i" "i < length (v_log v (c_reader c'))"
    using assms(1,2) by (auto simp: accounted_def prefix_def nth_append)
  with assms(1,3,4) show ?thesis by (fastforce simp: accounted_def split: option.splits)
qed

lemma accounted_stays: "accounted fmt v done_by c i \<Longrightarrow> stays v c c' \<Longrightarrow> accounted fmt v done_by c' i"
  by (rule accounted_mono) (simp_all add: stays_def)

lemma consumer_inv_restart:
  assumes "consumer_inv fmt v done_by c" and "restart_ok restart v"
  shows "consumer_inv fmt v done_by (c\<lparr>c_reader := restart (c_reader c)\<rparr>)"
proof -
  have r: "prefix (v_log v (c_reader c)) (v_log v (restart (c_reader c)))"
    "v_pos v (restart (c_reader c)) = v_committed v (c_reader c)"
    "v_committed v (restart (c_reader c)) = v_committed v (c_reader c)"
    using assms(2) unfolding restart_ok_def by blast+
  have "accounted fmt v done_by (c\<lparr>c_reader := restart (c_reader c)\<rparr>) i" if "i < v_committed v (c_reader c)" for i
  proof (rule accounted_mono)
    show "accounted fmt v done_by c i" using assms(1) that by (simp add: consumer_inv_def)
  qed (use r in simp_all)
  with r show ?thesis by (simp add: consumer_inv_def)
qed

lemma consumer_inv_stays: "consumer_inv fmt v done_by c \<Longrightarrow> stays v c c' \<Longrightarrow> consumer_inv fmt v done_by c'"
  using accounted_stays by (fastforce simp: consumer_inv_def stays_def)

lemma effectiveD:
  assumes "effective handler done_by" and "handler cid env s = (res, s')"
  shows "res = Inr () \<Longrightarrow> done_by env s'" and "done_by env' s \<Longrightarrow> done_by env' s'"
  using assms unfolding effective_def by (metis fst_conv snd_conv)+

lemma became_keeps:
  "effective handler done_by \<Longrightarrow> became fmt handler m s s' out \<Longrightarrow> done_by env s \<Longrightarrow> done_by env s'"
  by (auto simp: became_def dest: effectiveD(2) split: option.splits)

lemma consumer_inv_takes:
  assumes "effective handler done_by" and inv: "consumer_inv fmt v done_by c" and t: "takes fmt v handler c c' out"
  shows "consumer_inv fmt v done_by c'"
proof -
  let ?p = "v_pos v (c_reader c)"
  let ?m = "v_log v (c_reader c') ! ?p"
  have b: "became fmt handler ?m (c_app c) (c_app c') out" and logged: "set (c_log c) \<subseteq> set (c_log c')"
    "out = Malformed \<longrightarrow> SkippingMalformed ?p \<in> set (c_log c')"
    "out = Failed \<longrightarrow> (\<exists>err. HandlingFailed err ?p \<in> set (c_log c'))"
    and len: "?p < length (v_log v (c_reader c'))" and pos: "v_pos v (c_reader c') = Suc ?p"
    and com: "v_committed v (c_reader c') \<in> {v_committed v (c_reader c), Suc ?p}"
    and pre: "prefix (v_log v (c_reader c)) (v_log v (c_reader c'))"
    using t by (auto simp: takes_def)
  have old: "accounted fmt v done_by c' i" if i: "i < ?p" for i
  proof (rule accounted_mono)
    show "accounted fmt v done_by c i" using inv i by (simp add: consumer_inv_def)
  qed (use pre logged(1) became_keeps [OF assms(1) b] in auto)
  have new: "accounted fmt v done_by c' ?p"
  proof (cases "envelope_of fmt ?m")
    case None
    with b len logged show ?thesis by (simp add: accounted_def became_def)
  next
    case (Some env)
    with b obtain cid res where h: "handler cid env (c_app c) = (res, c_app c')" "out \<noteq> Malformed"
      "out = Handled \<longleftrightarrow> res = Inr ()" by (auto simp: became_def)
    then have "out = Failed \<or> done_by env (c_app c')"
      using effectiveD(1) [OF assms(1) h(1)] by (cases out) auto
    with Some len logged show ?thesis by (auto simp: accounted_def)
  qed
  show ?thesis using inv old new com
    unfolding consumer_inv_def pos by (auto simp: less_Suc_eq)
qed


section \<open>In order, and never again\<close>

text \<open>
  Order.  One session gives the handler the messages of its partition in the order of their offsets,
  each once, from the position it started at, and never moves the committed offset back.
\<close>

theorem session_in_order:
  assumes contract: "reader_contract ops restart v"
    and start: "v_committed v (c_reader c) \<le> v_pos v (c_reader c)"
    and after: "Consumer_Run n fmt ops topic handler ctx c = (res, c')"
  shows "map fst (c_seen c') = map fst (c_seen c) @ [v_pos v (c_reader c) ..< v_pos v (c_reader c')]
    \<and> v_pos v (c_reader c) \<le> v_pos v (c_reader c')
    \<and> v_committed v (c_reader c) \<le> v_committed v (c_reader c')
    \<and> v_committed v (c_reader c') \<le> v_pos v (c_reader c')"
proof -
  define P where "P c' \<longleftrightarrow>
     map fst (c_seen c') = map fst (c_seen c) @ [v_pos v (c_reader c) ..< v_pos v (c_reader c')]
     \<and> v_pos v (c_reader c) \<le> v_pos v (c_reader c') \<and> v_committed v (c_reader c) \<le> v_committed v (c_reader c')
     \<and> v_committed v (c_reader c') \<le> v_pos v (c_reader c')" for c' :: "('a, 'b) Consumer"
  have "P (snd (Consumer_Run n fmt ops topic handler ctx c))"
  proof (rule Consumer_Run_keeps [where P = P, OF contract])
    show "P c" using start by (simp add: P_def)
    show "P c2" if "P c1" "takes fmt v handler c1 c2 out" for c1 c2 out
      using that start by (auto simp: P_def takes_def)
    show "P c2" if "P c1" "stays v c1 c2" for c1 c2
      using that by (auto simp: P_def stays_def)
  qed
  then show ?thesis using after by (simp add: P_def)
qed


end
