(* ===== verification/ConsumerDemo.thy ===== *)
theory ConsumerDemo
  imports ConsumerProps
begin

text \<open>
  A concrete partition and handler: the reader's contract can hold, and the guarantees of
  \<open>ConsumerProps\<close> are applied to runs with a failed commit, a malformed message, a restart and a failing
  handler.
\<close>

section \<open>A partition\<close>

text \<open>A message is an event or bytes that are not JSON; \<open>d_fates\<close> says which commits succeed.\<close>

record demo_reader =
  d_events :: "Envelope option list"
  d_pos :: nat
  d_com :: nat
  d_fates :: "bool list"

definition demo_format :: time_format where
  "demo_format = \<lparr>time_text = (\<lambda>_. ''t''), time_value = (\<lambda>_. Some 7)\<rparr>"

definition demo_message :: "nat \<Rightarrow> Envelope option \<Rightarrow> message" where
  "demo_message i e =
     (case e of
        None \<Rightarrow> \<lparr>msg_Offset = i, msg_Key = ''k'', msg_Headers = [], msg_Value = None\<rparr>
      | Some ev \<Rightarrow> message_of demo_format i ''k'' ev)"

definition demo_ops :: "demo_reader reader_ops" where
  "demo_ops =
     \<lparr>FetchMessage = (\<lambda>r. if d_pos r < length (d_events r)
                          then (Inr (demo_message (d_pos r) (d_events r ! d_pos r)), r\<lparr>d_pos := Suc (d_pos r)\<rparr>)
                          else (Inl Canceled, r)),
      CommitMessages = (\<lambda>m r. case d_fates r of
                                False # fs \<Rightarrow> (Inl ''timeout'', r\<lparr>d_fates := fs\<rparr>)
                              | _ \<Rightarrow> (Inr (), r\<lparr>d_com := Suc (msg_Offset m), d_fates := drop 1 (d_fates r)\<rparr>)),
      Reader_Close = (\<lambda>r. (Inr (), r))\<rparr>"

definition demo_restart :: "demo_reader \<Rightarrow> demo_reader" where
  "demo_restart r = r\<lparr>d_pos := d_com r\<rparr>"

definition demo_view :: "demo_reader reader_view" where
  "demo_view = \<lparr>v_log = (\<lambda>r. map (\<lambda>(i, e). demo_message i e) (List.enumerate 0 (d_events r))),
                v_pos = d_pos, v_committed = d_com\<rparr>"

lemma demo_log_nth: "i < length (d_events r) \<Longrightarrow> v_log demo_view r ! i = demo_message i (d_events r ! i)"
  by (simp add: demo_view_def nth_enumerate_eq)

lemma demo_log_length: "length (v_log demo_view r) = length (d_events r)"
  by (simp add: demo_view_def)

lemma demo_offset: "msg_Offset (demo_message i e) = i"
  by (simp add: demo_message_def message_of_def split: option.splits)

lemma demo_contract: "reader_contract demo_ops demo_restart demo_view"
proof -
  have "fetch_ok demo_ops demo_view"
    unfolding fetch_ok_def
    by (auto simp: demo_ops_def demo_offset demo_log_nth demo_log_length split: if_splits)
      (simp_all add: demo_view_def nth_enumerate_eq)
  moreover have "commit_ok demo_ops demo_view"
    unfolding commit_ok_def demo_ops_def demo_view_def by (auto split: list.splits bool.splits)
  moreover have "close_ok demo_ops demo_view" "restart_ok demo_restart demo_view"
    by (simp_all add: close_ok_def restart_ok_def demo_ops_def demo_restart_def demo_view_def)
  ultimately show ?thesis by (simp add: reader_contract_def)
qed

section \<open>A handler\<close>

text \<open>The service counts down an outage, and remembers the identifiers of the events it has handled.\<close>

definition demo_handler :: "(nat \<times> string list) event_handler" where
  "demo_handler cid env s =
     (case s of (0, done) \<Rightarrow> (Inr (), (0, ev_ID env # done)) | (Suc n, done) \<Rightarrow> (Inl ''database down'', (n, done)))"

definition demo_done :: "Envelope \<Rightarrow> nat \<times> string list \<Rightarrow> bool" where
  "demo_done env s \<longleftrightarrow> ev_ID env \<in> set (snd s)"

lemma demo_effective: "effective demo_handler demo_done"
  by (auto simp: effective_def demo_handler_def demo_done_def split: prod.splits nat.splits)

definition demo_event :: "string \<Rightarrow> Envelope" where
  "demo_event i = \<lparr>ev_ID = i, ev_Type = TypeOrderCreated, ev_CorrelationID = ''cid'', ev_OccurredAt = 7,
                   ev_Payload = Some JNull\<rparr>"

lemma demo_event_simps [simp]:
  "ev_ID (demo_event i) = i" "ev_Type (demo_event i) = TypeOrderCreated" "ev_CorrelationID (demo_event i) = ''cid''"
  by (simp_all add: demo_event_def)

lemma demo_envelope [simp]:
  "envelope_of demo_format (demo_message i None) = None"
  "envelope_of demo_format (demo_message i (Some (demo_event e))) = Some (demo_event e)"
proof -
  have "unmarshal_Envelope demo_format (marshal_Envelope demo_format (demo_event e)) = Some (demo_event e)"
    by (rule unmarshal_marshal_Envelope) (simp_all add: demo_format_def demo_event_def)
  then show "envelope_of demo_format (demo_message i (Some (demo_event e))) = Some (demo_event e)"
    by (simp add: envelope_of_def demo_message_def message_of_def)
qed (simp add: envelope_of_def demo_message_def)

definition demo_consumer :: "Envelope option list \<Rightarrow> bool list \<Rightarrow> nat \<Rightarrow> (demo_reader, nat \<times> string list) Consumer" where
  "demo_consumer es fates outage =
     \<lparr>c_reader = \<lparr>d_events = es, d_pos = 0, d_com = 0, d_fates = fates\<rparr>, c_app = (outage, []), c_log = [],
      c_seen = []\<rparr>"

lemmas demo_run =
  demo_consumer_def Consumer_Run_def Run_turn_def handle_def commit_message_def logs_def sees_def demo_ops_def
  demo_restart_def demo_handler_def demo_offset Let_def

text \<open>
  The first session handles the first event and loses the commit, skips the malformed message and stops;
  the second handles the third event.
\<close>

definition demo_calm :: "(demo_reader, nat \<times> string list) Consumer" where
  "demo_calm = demo_consumer [Some (demo_event ''a''), None, Some (demo_event ''b'')] [False] 0"

lemma demo_calm_run:
  "sessions [2, 5] demo_format demo_ops demo_restart ''order.created'' demo_handler '''' demo_calm =
    \<lparr>c_reader = \<lparr>d_events = [Some (demo_event ''a''), None, Some (demo_event ''b'')], d_pos = 3, d_com = 3,
       d_fates = []\<rparr>,
     c_app = (0, [''b'', ''a'']),
     c_log = [ConsumerStarted, EventReceived TypeOrderCreated ''a'', CommittingFailed ''timeout'' 0,
              SkippingMalformed 1, ConsumerStarted, EventReceived TypeOrderCreated ''b'', ConsumerStopping],
     c_seen = [(0, Handled), (1, Malformed), (2, Handled)]\<rparr>"
  by (simp add: demo_calm_def demo_run numeral_nat)


theorem session_in_order_witness:
  "map fst (c_seen (snd (Consumer_Run 5 demo_format demo_ops ''order.created'' demo_handler '''' demo_calm)))
    = [0, 1, 2]"
proof -
  have start: "v_committed demo_view (c_reader demo_calm) \<le> v_pos demo_view (c_reader demo_calm)"
    by (simp add: demo_view_def demo_calm_def demo_consumer_def)
  obtain res c' where run: "Consumer_Run 5 demo_format demo_ops ''order.created'' demo_handler '''' demo_calm = (res, c')"
    by fastforce
  have "v_pos demo_view (c_reader (snd (Consumer_Run 5 demo_format demo_ops ''order.created'' demo_handler '''' demo_calm))) = 3"
    by (simp add: demo_calm_def demo_run numeral_nat demo_view_def)
  then have "v_pos demo_view (c_reader c') = 3" by (simp add: run)
  with session_in_order [OF demo_contract start run] run show ?thesis
    by (simp add: demo_view_def demo_calm_def demo_consumer_def upt_rec)
qed

text \<open>The database is down for the first event and back for the second.\<close>

definition demo_outage :: "(demo_reader, nat \<times> string list) Consumer" where
  "demo_outage =
     snd (Consumer_Run 5 demo_format demo_ops ''order.created'' demo_handler ''''
       (demo_consumer [Some (demo_event ''a''), Some (demo_event ''b'')] [] 1))"

lemma demo_outage_run:
  "v_committed demo_view (c_reader demo_outage) = 2" "c_seen demo_outage = [(0, Failed), (1, Handled)]"
  "HandlingFailed ''database down'' 0 \<in> set (c_log demo_outage)"
  by (simp_all add: demo_outage_def demo_run numeral_nat demo_view_def)


end
