(* ===== verification/Redis.thy ===== *)
theory Redis
  imports TokenBucket Postgres
begin

text \<open>
  What the Redis-backed limiters (\<open>ratelimiter/redis\<close>) share: the keys of a Redis server as far as the Lua
  scripts use them, the evaluation of a script (\<open>runScript\<close>), and the decoding of its reply.

  A number that a script turns into text is the number that reading the text gives back: \<open>tostring\<close>
  writes 14 significant digits (\<open>lua_num_of_text\<close>), a number handed to \<open>redis.call\<close> is written with 17,
  which loses nothing.  Numbers are binary64, as in \<open>Float64\<close>.
\<close>

section \<open>The server\<close>

text \<open>
  A hash holds numbers, a sorted set members with scores.  A key is seen until its expiry, in
  milliseconds, has passed.  A script is atomic; the server's clock counts microseconds and is the instant
  of the call.  \<open>rd_net\<close> says what becomes of the \<open>n\<close>-th evaluation on the network.
\<close>

datatype redis_value = RHash "string \<rightharpoonup> rat" | RZSet "(string \<times> rat) list"

record redis_entry =
  re_value :: redis_value
  re_when :: int

record redis =
  rd_keys :: "string \<rightharpoonup> redis_entry"
  rd_net :: "nat \<Rightarrow> fate"
  rd_calls :: nat

definition micros :: "time \<Rightarrow> int" where "micros t = t div 1000"

definition millis_of :: "time \<Rightarrow> int" where "millis_of t = t div 1000000"

definition redis_get :: "redis \<Rightarrow> time \<Rightarrow> string \<Rightarrow> redis_value option" where
  "redis_get r now key =
     (case rd_keys r key of
        None \<Rightarrow> None
      | Some e \<Rightarrow> if millis_of now \<le> re_when e then Some (re_value e) else None)"

text \<open>\<open>HSET\<close> or \<open>ZADD\<close> followed by \<open>PEXPIRE\<close>.\<close>

definition redis_set :: "redis \<Rightarrow> time \<Rightarrow> string \<Rightarrow> redis_value \<Rightarrow> int \<Rightarrow> redis" where
  "redis_set r now key val ttl =
     r\<lparr>rd_keys := (rd_keys r)(key \<mapsto> \<lparr>re_value = val, re_when = millis_of now + ttl\<rparr>)\<rparr>"

text \<open>Lua's \<open>math.ceil\<close> and \<open>math.floor\<close> are exact; an integer among their arguments is small.\<close>

definition lua_ceil :: "rat \<Rightarrow> int" where "lua_ceil x = \<lceil>x\<rceil>"

definition lua_floor :: "rat \<Rightarrow> int" where "lua_floor x = \<lfloor>x\<rfloor>"

section \<open>Replies\<close>

text \<open>An element is a text, numeric or not, or something else.\<close>

datatype reply_item = Text "rat option" | NotText

datatype reply = Array "reply_item list" | NotArray

definition tostring :: "rat \<Rightarrow> reply_item" where
  "tostring x = Text (Some (lua_num_of_text x))"

definition millis :: "rat \<Rightarrow> duration" where
  "millis ms = (if ms \<le> 0 then 0 else f2i (fmul ms (fint Millisecond)))"

fun parse_items :: "reply_item list \<Rightarrow> (limiter_error, rat list) result" where
  "parse_items [] = Inr []"
| "parse_items (NotText # vs) = Inl (BadReply ''reply element is not a string'')"
| "parse_items (Text None # vs) = Inl (BadReply ''reply element is not numeric'')"
| "parse_items (Text (Some n) # vs) =
     (case parse_items vs of Inl e \<Rightarrow> Inl e | Inr ns \<Rightarrow> Inr (n # ns))"

definition decode :: "reply \<Rightarrow> int \<Rightarrow> (limiter_error, Result) result" where
  "decode raw limit =
     (case raw of
        NotArray \<Rightarrow> Inl (BadReply ''expected an array reply'')
      | Array values \<Rightarrow>
          if length values \<noteq> 4 then Inl (BadReply ''expected 4 reply elements'')
          else case parse_items values of
            Inl e \<Rightarrow> Inl e
          | Inr nums \<Rightarrow>
              (let remaining = f2i (nums ! 1);
                   remaining' = (if remaining < 0 then 0 else remaining)
               in Inr \<lparr>Allowed = (nums ! 0 = 1), Limit = limit, Remaining = remaining',
                       ResetAfter = millis (nums ! 2), RetryAfter = millis (nums ! 3)\<rparr>))"

section \<open>Evaluation\<close>

text \<open>
  A script is a function of the server and the instant; \<open>None\<close> when a command in it fails, which stops
  it.  The client's error does not tell whether the script ran.
\<close>

type_synonym script = "redis \<Rightarrow> time \<Rightarrow> (reply \<times> redis) option"

definition runScript :: "script \<Rightarrow> int \<Rightarrow> redis \<Rightarrow> time \<Rightarrow> (limiter_error, Result) result \<times> redis" where
  "runScript s limit r now =
     (let fate = rd_net r (rd_calls r); r0 = r\<lparr>rd_calls := Suc (rd_calls r)\<rparr> in
      case fate of
        Refused \<Rightarrow> (Inl (ScriptError ''rate limiter script''), r0)
      | Unanswered \<Rightarrow>
          (Inl (ScriptError ''rate limiter script''), case s r0 now of None \<Rightarrow> r0 | Some (_, r') \<Rightarrow> r')
      | Runs \<Rightarrow>
          (case s r0 now of
             None \<Rightarrow> (Inl (ScriptError ''rate limiter script''), r0)
           | Some (raw, r') \<Rightarrow> (decode raw limit, r')))"

section \<open>Constructors\<close>

text \<open>Each constructor wants a client and positive parameters; a client is there or it is nil.\<close>

definition check_config :: "string \<Rightarrow> string \<Rightarrow> string \<Rightarrow> bool \<Rightarrow> int \<Rightarrow> duration \<Rightarrow> limiter_error option" where
  "check_config name what period client n d =
     (if \<not> client then Some (NilClient (name @ '': client must not be nil''))
      else if n \<le> 0 then Some (NonPositive (name @ '': '' @ what) n)
      else if d \<le> 0 then Some (NonPositive (name @ '': '' @ period) d)
      else None)"

record RedisTokenBucket =
  rtb_prefix :: string
  rtb_capacity :: int
  rtb_rate :: rat

definition NewRedisTokenBucket ::
  "bool \<Rightarrow> string \<Rightarrow> int \<Rightarrow> duration \<Rightarrow> (limiter_error, RedisTokenBucket) result" where
  "NewRedisTokenBucket client keyPrefix cap interval =
     (case check_config ''token bucket'' ''capacity'' ''interval'' client cap interval of
        Some e \<Rightarrow> Inl e
      | None \<Rightarrow> Inr \<lparr>rtb_prefix = keyPrefix, rtb_capacity = cap, rtb_rate = fdiv (fint cap) (seconds interval)\<rparr>)"

record RedisSlidingWindowLog =
  rsl_prefix :: string
  rsl_limit :: int
  rsl_window :: duration
  rsl_seq :: nat

definition NewRedisSlidingWindowLog ::
  "bool \<Rightarrow> string \<Rightarrow> int \<Rightarrow> duration \<Rightarrow> (limiter_error, RedisSlidingWindowLog) result" where
  "NewRedisSlidingWindowLog client keyPrefix limit window =
     (case check_config ''sliding window log'' ''limit'' ''window'' client limit window of
        Some e \<Rightarrow> Inl e
      | None \<Rightarrow> Inr \<lparr>rsl_prefix = keyPrefix, rsl_limit = limit, rsl_window = window, rsl_seq = 0\<rparr>)"

record RedisSlidingWindowCounter =
  rsc_prefix :: string
  rsc_limit :: int
  rsc_window :: duration

definition NewRedisSlidingWindowCounter ::
  "bool \<Rightarrow> string \<Rightarrow> int \<Rightarrow> duration \<Rightarrow> (limiter_error, RedisSlidingWindowCounter) result" where
  "NewRedisSlidingWindowCounter client keyPrefix limit window =
     (case check_config ''sliding window counter'' ''limit'' ''window'' client limit window of
        Some e \<Rightarrow> Inl e
      | None \<Rightarrow> Inr \<lparr>rsc_prefix = keyPrefix, rsc_limit = limit, rsc_window = window\<rparr>)"

section \<open>Decoding a script's own reply\<close>

lemma millis_nonneg: "0 \<le> millis x \<or> millis x = min_int64"
  by (auto simp: millis_def f2i_def trunc_rat_def fmul_def fint_def f64_nonneg Let_def)

lemma decode_tostring:
  "decode (Array [tostring a, tostring b, tostring c, tostring d]) limit =
     Inr \<lparr>Allowed = (lua_num_of_text a = 1), Limit = limit,
          Remaining = max 0 (f2i (lua_num_of_text b)), ResetAfter = millis (lua_num_of_text c),
          RetryAfter = millis (lua_num_of_text d)\<rparr>"
  by (simp add: decode_def tostring_def max_def Let_def)

text \<open>Whatever a script replies, a decoded result never reports a negative \<open>Remaining\<close>.\<close>

lemma decode_remaining: "decode raw limit = Inr res \<Longrightarrow> 0 \<le> Remaining res \<and> Limit res = limit"
  by (auto simp: decode_def Let_def split: reply.splits sum.splits if_splits)

end
