(* ===== verification/RedisBucket.thy ===== *)
theory RedisBucket
  imports Redis
begin

text \<open>
  The Redis-backed token bucket, the limiter the gateway runs with: \<open>ratelimiter/redis/limiters.go\<close> and
  \<open>scripts/tokenbucket.lua\<close>.
\<close>

section \<open>The code\<close>

text \<open>\<open>TIME\<close> as seconds with a fraction.\<close>

definition lua_seconds :: "time \<Rightarrow> rat" where
  "lua_seconds t = fadd (fint (micros t div 1000000)) (fdiv (fint (micros t mod 1000000)) 1000000)"

definition credit :: "rat \<Rightarrow> rat \<Rightarrow> rat \<Rightarrow> rat \<Rightarrow> rat" where
  "credit cap rate elapsed toks =
     (if 0 < elapsed then min cap (fadd toks (fmul elapsed rate)) else toks)"

definition token_bucket_script :: "string \<Rightarrow> rat \<Rightarrow> rat \<Rightarrow> rat \<Rightarrow> script" where
  "token_bucket_script key cap rate requested r time =
     (let now = lua_seconds time in
      case redis_get r time key of
        Some (RZSet _) \<Rightarrow> None
      | found \<Rightarrow>
          (let state = (case found of Some (RHash h) \<Rightarrow> h | _ \<Rightarrow> Map.empty) in
           case (case state ''tokens'' of None \<Rightarrow> Some (cap, now)
                 | Some toks \<Rightarrow> map_option (Pair toks) (state ''ts'')) of
             None \<Rightarrow> None
           | Some (toks, seen) \<Rightarrow>
               (let t1 = credit cap rate (fsub now seen) toks;
                    allowed = (if requested \<le> t1 then 1 else 0);
                    t2 = (if requested \<le> t1 then fsub t1 requested else t1);
                    retry_after = (if requested \<le> t1 then 0 else fdiv (fsub requested t1) rate);
                    reset_after = fdiv (fsub cap t2) rate;
                    ttl = lua_ceil (fmul reset_after 1000) + 1000;
                    h = [''tokens'' \<mapsto> lua_num_of_text t2, ''ts'' \<mapsto> lua_num_of_text now]
                in Some (Array [tostring allowed, tostring (of_int (lua_floor t2)),
                                tostring (fmul reset_after 1000), tostring (fmul retry_after 1000)],
                         redis_set r time key (RHash (state ++ h)) ttl))))"

definition bucket_key :: "RedisTokenBucket \<Rightarrow> string \<Rightarrow> string" where
  "bucket_key tb key = rtb_prefix tb @ '':tb:'' @ key"

text \<open>
  The arguments cross as decimal text: an integer, and the rate in its shortest exact form, so the script
  reads back the numbers themselves.
\<close>

definition RedisTokenBucket_Allow :: "RedisTokenBucket \<Rightarrow> redis allow_fun" where
  "RedisTokenBucket_Allow tb r now key =
     runScript (token_bucket_script (bucket_key tb key) (fint (rtb_capacity tb)) (rtb_rate tb) 1)
       (rtb_capacity tb) r now"

section \<open>The clock and its text\<close>

text \<open>Instants from 1970 to 2286.\<close>

definition unix_time :: "time \<Rightarrow> bool" where
  "unix_time t \<longleftrightarrow> 0 \<le> t \<and> t < (10 ^ 10 - 1) * Second"

abbreviation secs :: "int \<Rightarrow> rat" where "secs t \<equiv> of_int t / 1000000000"

lemma lua_seconds_err:
  assumes "unix_time t"
  shows "secs t - 3 / 1000000 \<le> lua_seconds t \<and> lua_seconds t \<le> secs t + 2 / 1000000
    \<and> 0 \<le> lua_seconds t \<and> lua_seconds t < 10 ^ 10"
proof -
  define q where "q = micros t div 1000000"
  define r where "r = micros t mod 1000000"
  have m: "0 \<le> micros t" "micros t * 1000 \<le> t" "t < micros t * 1000 + 1000"
    using assms by (auto simp: micros_def unix_time_def)
  have qr: "micros t = q * 1000000 + r" "0 \<le> q" "0 \<le> r" "r < 1000000"
    using m by (simp_all add: q_def r_def pos_imp_zdiv_nonneg_iff)
  have q: "q \<le> 10 ^ 10 - 1" using m qr assms by (simp add: unix_time_def)
  have ex: "fint q = of_int q" "fint r = of_int r" using qr q by (simp_all add: fint_exact)
  define x where "x = (of_int r / 1000000 :: rat)"
  have x: "0 \<le> x" "x \<le> 1" using qr by (simp_all add: x_def)
  define y where "y = f64 x"
  have y: "\<bar>y - x\<bar> \<le> x / 2 ^ 53" "0 \<le> y" using f64_err [OF x(1)] f64_nonneg [OF x(1)] by (simp_all add: y_def)
  have y1: "\<bar>y - x\<bar> \<le> 1 / 2 ^ 53" using y(1) x(2) by (simp add: divide_right_mono order_trans)
  define z where "z = of_int q + y"
  have z: "0 \<le> z" "z \<le> 10 ^ 10 + 1"
  proof -
    have "(of_int q :: rat) \<le> of_int (10 ^ 10 - 1)" using q by (simp only: of_int_le_iff)
    then show "z \<le> 10 ^ 10 + 1" using abs_le_D1 [OF y1] x(2) by (simp add: z_def)
  qed (use qr(2) y(2) in \<open>simp add: z_def\<close>)
  have s: "lua_seconds t = f64 z" by (simp add: lua_seconds_def q_def [symmetric] r_def [symmetric] ex fadd_def fdiv_def
        x_def y_def z_def)
  have e: "\<bar>f64 z - z\<bar> \<le> (10 ^ 10 + 1) / 2 ^ 53"
    by (rule order_trans [OF f64_err [OF z(1)]]) (rule divide_right_mono [OF z(2)], simp)
  have exact: "z - y + x = of_int (micros t) / 1000000" using qr(1) by (simp add: z_def x_def field_simps)
  have "of_int (micros t * 1000) \<le> (of_int t :: rat)" "(of_int t :: rat) < of_int (micros t * 1000 + 1000)"
    using m(2,3) by (simp_all only: of_int_le_iff of_int_less_iff)
  then have mt: "secs t - 1 / 1000000 \<le> of_int (micros t) / 1000000" "of_int (micros t) / 1000000 \<le> secs t"
    by simp_all
  have "\<bar>f64 z - z\<bar> \<le> 3 / 2000000" by (rule order_trans [OF e]) simp
  moreover have "\<bar>y - x\<bar> \<le> 1 / 2000000" by (rule order_trans [OF y1]) simp
  ultimately have near: "f64 z \<le> of_int (micros t) / 1000000 + 2 / 1000000"
    "of_int (micros t) / 1000000 - 2 / 1000000 \<le> f64 z"
    using exact by linarith+
  have "(of_int t :: rat) \<le> of_int ((10 ^ 10 - 1) * Second)"
    using assms by (simp only: of_int_le_iff unix_time_def) linarith
  then have "secs t \<le> 10 ^ 10 - 1" by simp
  then have "f64 z < 10 ^ 10" using near(1) mt(2) by linarith
  then show ?thesis unfolding s using near mt f64_nonneg [OF z(1)] by linarith
qed

section \<open>One bucket\<close>

text \<open>
  What the limiter keeps for a key: the tokens and the instant written at the last call, as the texts say
  them.  A key that has expired is one that was never seen.
\<close>

definition rtb_ok :: "int \<Rightarrow> duration \<Rightarrow> RedisTokenBucket \<Rightarrow> bool" where
  "rtb_ok cap interval tb \<longleftrightarrow>
     0 < cap \<and> cap \<le> 10 ^ 14 \<and> 0 < interval \<and> interval \<le> 2 ^ 61
     \<and> rtb_capacity tb = cap \<and> rtb_rate tb = fdiv (fint cap) (seconds interval)"

lemma NewRedisTokenBucket_ok:
  assumes "NewRedisTokenBucket client p cap interval = Inr tb" and "cap \<le> 10 ^ 14" and "interval \<le> 2 ^ 61"
  shows "rtb_ok cap interval tb"
  using assms
  by (auto simp: NewRedisTokenBucket_def check_config_def rtb_ok_def split: option.splits if_splits)

text \<open>The in-memory bucket of the same configuration has the same rate, so its facts apply.\<close>

definition twin :: "RedisTokenBucket \<Rightarrow> TokenBucket" where
  "twin tb = \<lparr>capacity = rtb_capacity tb, refillRate = rtb_rate tb, buckets = Map.empty\<rparr>"

lemma twin_inv: "rtb_ok cap interval tb \<Longrightarrow> tb_inv cap interval (twin tb)"
  by (auto simp: rtb_ok_def tb_inv_def twin_def)

definition entry_ok :: "int \<Rightarrow> redis_entry \<Rightarrow> bool" where
  "entry_ok cap e \<longleftrightarrow>
     (\<exists>h toks ts. re_value e = RHash h \<and> h ''tokens'' = Some toks \<and> h ''ts'' = Some ts
        \<and> 0 \<le> toks \<and> toks \<le> of_int cap)"

text \<open>The tokens a call finds after crediting, and those it leaves.\<close>

definition found :: "RedisTokenBucket \<Rightarrow> redis \<Rightarrow> time \<Rightarrow> string \<Rightarrow> rat" where
  "found tb r now key =
     (case redis_get r now (bucket_key tb key) of
        Some (RHash h) \<Rightarrow>
          credit (fint (rtb_capacity tb)) (rtb_rate tb) (fsub (lua_seconds now) (the (h ''ts''))) (the (h ''tokens''))
      | _ \<Rightarrow> fint (rtb_capacity tb))"

definition left_over :: "rat \<Rightarrow> rat" where
  "left_over x = (if 1 \<le> x then fsub x 1 else x)"

lemma credit_range:
  assumes "0 \<le> toks" and "toks \<le> cap" and "0 \<le> rate"
  shows "0 \<le> credit cap rate el toks \<and> credit cap rate el toks \<le> cap"
  using assms by (auto simp: credit_def fadd_def fmul_def f64_nonneg)

definition entry_after :: "RedisTokenBucket \<Rightarrow> redis \<Rightarrow> time \<Rightarrow> string \<Rightarrow> redis_entry" where
  "entry_after tb r now key =
     \<lparr>re_value = RHash ((case redis_get r now (bucket_key tb key) of Some (RHash h) \<Rightarrow> h | _ \<Rightarrow> Map.empty)
        ++ [''tokens'' \<mapsto> lua_num_of_text (left_over (found tb r now key)),
            ''ts'' \<mapsto> lua_num_of_text (lua_seconds now)]),
      re_when = millis_of now
        + (lua_ceil (fmul (fdiv (fsub (fint (rtb_capacity tb)) (left_over (found tb r now key))) (rtb_rate tb)) 1000)
           + 1000)\<rparr>"

definition bucket_reply :: "RedisTokenBucket \<Rightarrow> rat \<Rightarrow> reply" where
  "bucket_reply tb x =
     Array [tostring (if 1 \<le> x then 1 else 0), tostring (of_int (lua_floor (left_over x))),
            tostring (fmul (fdiv (fsub (fint (rtb_capacity tb)) (left_over x)) (rtb_rate tb)) 1000),
            tostring (fmul (if 1 \<le> x then 0 else fdiv (fsub 1 x) (rtb_rate tb)) 1000)]"

lemma script_runs:
  assumes "\<And>e. rd_keys r (bucket_key tb key) = Some e \<Longrightarrow> entry_ok cap e"
  shows "token_bucket_script (bucket_key tb key) (fint (rtb_capacity tb)) (rtb_rate tb) 1 r now
    = Some (bucket_reply tb (found tb r now key),
            r\<lparr>rd_keys := (rd_keys r)(bucket_key tb key \<mapsto> entry_after tb r now key)\<rparr>)"
proof (cases "redis_get r now (bucket_key tb key)")
  case None
  have neq: "fsub (lua_seconds now) (lua_seconds now) = 0" by (simp add: fsub_def)
  show ?thesis using None neq
    by (simp add: token_bucket_script_def found_def left_over_def bucket_reply_def entry_after_def credit_def
        redis_set_def Let_def)
next
  case (Some v)
  then obtain e where e: "rd_keys r (bucket_key tb key) = Some e" "re_value e = v"
    by (auto simp: redis_get_def split: option.splits if_splits)
  then obtain h toks ts where h: "v = RHash h" "h ''tokens'' = Some toks" "h ''ts'' = Some ts"
    using assms [OF e(1)] by (auto simp: entry_ok_def)
  show ?thesis using Some h
    by (simp add: token_bucket_script_def found_def left_over_def bucket_reply_def entry_after_def
        redis_set_def Let_def)
qed

lemma rtb_okD:
  assumes "rtb_ok cap interval tb"
  shows "0 < cap" "cap \<le> 10 ^ 14" "0 < interval" "interval \<le> 2 ^ 61" "rtb_capacity tb = cap"
    "fint cap = of_int cap" "is_f64 (of_int cap)" "is_int64 interval" "0 < rtb_rate tb"
    "lua_num_of_text (of_int cap) = of_int cap"
  using assms rate_pos [OF twin_inv [OF assms]]
  by (auto simp: rtb_ok_def fint_exact is_f64_int is_int64_def min_int64_def max_int64_def lua_text_int twin_def)

text \<open>The rate per second, as the float the constructor computes, against the exact rate per nanosecond.\<close>

lemma rate_bounds:
  assumes "rtb_ok cap interval tb"
  shows "rtb_rate tb \<le> 1000000000 * ideal_rate cap interval * (1 + 1 / 2 ^ 51)"
    and "1000000000 * ideal_rate cap interval * (1 - 1 / 2 ^ 50) \<le> rtb_rate tb"
proof -
  note ok = rtb_okD [OF assms]
  define s where "s = secs interval"
  define C where "C = (of_int cap :: rat)"
  define S where "S = seconds interval"
  have sC: "0 < s" "0 < C" using ok by (simp_all add: s_def C_def)
  have S: "s * (1 - 1 / 2 ^ 52) \<le> S" "S \<le> s * (1 + 1 / 2 ^ 51)" "0 < S"
    using seconds_bounds [of interval] seconds_pos [of interval] ok by (simp_all add: s_def S_def)
  have r: "rtb_rate tb = f64 (C / S)" using assms ok by (simp add: rtb_ok_def fdiv_def C_def S_def)
  have i: "1000000000 * ideal_rate cap interval = C / s" using ok by (simp add: ideal_rate_def C_def s_def)
  have up: "C / S \<le> C / (s * (1 - 1 / 2 ^ 52))" using S sC by (intro divide_left_mono) simp_all
  have "f64 (C / S) \<le> C / S * (1 + 1 / 2 ^ 53)" using S sC by (intro f64_upper) simp
  also have "\<dots> \<le> C / (s * (1 - 1 / 2 ^ 52)) * (1 + 1 / 2 ^ 53)" using up by (intro mult_right_mono) simp_all
  also have "\<dots> = C / s * ((1 + 1 / 2 ^ 53) / (1 - 1 / 2 ^ 52))" by simp
  also have "\<dots> \<le> C / s * (1 + 1 / 2 ^ 51)" using sC by (intro mult_left_mono) simp_all
  finally show "rtb_rate tb \<le> 1000000000 * ideal_rate cap interval * (1 + 1 / 2 ^ 51)" by (simp only: r i)
  have lo: "C / (s * (1 + 1 / 2 ^ 51)) \<le> C / S" using S sC by (intro divide_left_mono) simp_all
  have "C / s * (1 - 1 / 2 ^ 50) \<le> C / s * ((1 - 1 / 2 ^ 53) / (1 + 1 / 2 ^ 51))"
    using sC by (intro mult_left_mono) simp_all
  also have "\<dots> = C / (s * (1 + 1 / 2 ^ 51)) * (1 - 1 / 2 ^ 53)" by simp
  also have "\<dots> \<le> C / S * (1 - 1 / 2 ^ 53)" using lo by (intro mult_right_mono) simp_all
  also have "\<dots> \<le> f64 (C / S)" using S sC by (intro f64_lower) simp
  finally show "1000000000 * ideal_rate cap interval * (1 - 1 / 2 ^ 50) \<le> rtb_rate tb" by (simp only: r i)
qed

lemma left_over_range:
  assumes "rtb_ok cap interval tb" and "0 \<le> x" and "x \<le> of_int cap"
  shows "0 \<le> left_over x" "left_over x \<le> of_int cap"
    "left_over x \<le> x - (if 1 \<le> x then 1 else 0) + of_int cap / 2 ^ 53"
proof -
  note ok = rtb_okD [OF assms(1)]
  have C: "0 < (of_int cap :: rat)" using ok(1) by simp
  show "0 \<le> left_over x" using assms(2) by (simp add: left_over_def fsub_def f64_nonneg)
  show "left_over x \<le> of_int cap"
    using assms ok(7) by (auto simp: left_over_def fsub_def intro!: f64_le)
  show "left_over x \<le> x - (if 1 \<le> x then 1 else 0) + of_int cap / 2 ^ 53"
  proof (cases "1 \<le> x")
    case True
    then have "f64 (x - 1) \<le> x - 1 + (x - 1) / 2 ^ 53" by (intro f64_upper_abs) simp
    also have "\<dots> \<le> x - 1 + of_int cap / 2 ^ 53"
      using assms(3) by (intro add_left_mono divide_right_mono) simp_all
    finally show ?thesis using True by (simp add: left_over_def fsub_def)
  qed (use C in \<open>simp add: left_over_def\<close>)
qed

definition keys_ok :: "RedisTokenBucket \<Rightarrow> int \<Rightarrow> redis \<Rightarrow> bool" where
  "keys_ok tb cap r \<longleftrightarrow> (\<forall>key e. rd_keys r (bucket_key tb key) = Some e \<longrightarrow> entry_ok cap e)"

lemma found_range:
  assumes ok: "rtb_ok cap interval tb" and "keys_ok tb cap r"
  shows "0 \<le> found tb r now key" "found tb r now key \<le> of_int cap"
proof -
  note o = rtb_okD [OF ok]
  have "0 \<le> found tb r now key \<and> found tb r now key \<le> of_int cap"
  proof (cases "redis_get r now (bucket_key tb key)")
    case None
    then show ?thesis using o by (simp add: found_def)
  next
    case (Some v)
    then obtain e where e: "rd_keys r (bucket_key tb key) = Some e" "re_value e = v"
      by (auto simp: redis_get_def split: option.splits if_splits)
    then obtain h toks ts where h: "v = RHash h" "h ''tokens'' = Some toks" "h ''ts'' = Some ts"
      "0 \<le> toks" "toks \<le> of_int cap"
      using assms(2) unfolding keys_ok_def entry_ok_def by blast
    then show ?thesis using Some o credit_range [of toks "of_int cap" "rtb_rate tb"] by (simp add: found_def)
  qed
  then show "0 \<le> found tb r now key" "found tb r now key \<le> of_int cap" by simp_all
qed

lemma lua_text_le_cap:
  "rtb_ok cap interval tb \<Longrightarrow> x \<le> of_int cap \<Longrightarrow> lua_num_of_text x \<le> of_int cap"
  using lua_text_mono [of x "of_int cap"] rtb_okD(10) by simp

lemma entry_after_ok:
  assumes "rtb_ok cap interval tb" and "keys_ok tb cap r"
  shows "entry_ok cap (entry_after tb r now key)"
  using left_over_range(1,2) [OF assms(1) found_range [OF assms]] lua_text_nonneg lua_text_le_cap [OF assms(1)]
  by (simp add: entry_after_def entry_ok_def)

section \<open>The Redis token bucket is a limiter\<close>

lemma bucket_key_inject [simp]: "bucket_key tb k = bucket_key tb k' \<longleftrightarrow> k = k'"
  by (simp add: bucket_key_def)

text \<open>What a call does, by the fate of its evaluation.\<close>

lemma RedisAllow_cases:
  assumes "keys_ok tb cap r"
  shows "RedisTokenBucket_Allow tb r now key =
    (let r0 = r\<lparr>rd_calls := Suc (rd_calls r)\<rparr>;
         r' = r0\<lparr>rd_keys := (rd_keys r)(bucket_key tb key \<mapsto> entry_after tb r now key)\<rparr> in
     case rd_net r (rd_calls r) of
       Refused \<Rightarrow> (Inl (ScriptError ''rate limiter script''), r0)
     | Unanswered \<Rightarrow> (Inl (ScriptError ''rate limiter script''), r')
     | Runs \<Rightarrow> (decode (bucket_reply tb (found tb r now key)) (rtb_capacity tb), r'))"
proof -
  define r0 where "r0 = r\<lparr>rd_calls := Suc (rd_calls r)\<rparr>"
  have "entry_ok cap e" if "rd_keys r0 (bucket_key tb key) = Some e" for e
    using assms that by (auto simp: keys_ok_def r0_def)
  from script_runs [of r0 tb key cap, OF this, of now]
  have "token_bucket_script (bucket_key tb key) (fint (rtb_capacity tb)) (rtb_rate tb) 1 r0 now
    = Some (bucket_reply tb (found tb r0 now key),
            r0\<lparr>rd_keys := (rd_keys r0)(bucket_key tb key \<mapsto> entry_after tb r0 now key)\<rparr>)" .
  moreover have "found tb r0 now key = found tb r now key" "entry_after tb r0 now key = entry_after tb r now key"
    by (simp_all add: r0_def found_def entry_after_def redis_get_def)
  ultimately show ?thesis
    by (simp add: RedisTokenBucket_Allow_def runScript_def r0_def Let_def split: fate.splits)
qed

lemma RedisAllow_keys_ok:
  assumes "rtb_ok cap interval tb" and "keys_ok tb cap r"
  shows "keys_ok tb cap (snd (RedisTokenBucket_Allow tb r now key))"
  using assms(2) entry_after_ok [OF assms]
  by (auto simp: RedisAllow_cases [OF assms(2)] keys_ok_def Let_def split: fate.splits)

lemma script_frame:
  "token_bucket_script k cap rate req r now = Some (raw, r') \<Longrightarrow> k' \<noteq> k \<Longrightarrow> rd_keys r' k' = rd_keys r k'"
  by (auto simp: token_bucket_script_def redis_set_def Let_def split: option.splits redis_value.splits)

lemma runScript_frame:
  assumes "\<And>r raw r'. s r now = Some (raw, r') \<Longrightarrow> rd_keys r' k' = rd_keys r k'"
  shows "rd_keys (snd (runScript s limit r now)) k' = rd_keys r k'"
  using assms [of "r\<lparr>rd_calls := Suc (rd_calls r)\<rparr>"]
  by (auto simp: runScript_def Let_def split: fate.splits option.splits)

lemma RedisAllow_frame:
  "key' \<noteq> key \<Longrightarrow>
    rd_keys (snd (RedisTokenBucket_Allow tb r now key)) (bucket_key tb key') = rd_keys r (bucket_key tb key')"
  unfolding RedisTokenBucket_Allow_def by (rule runScript_frame) (erule script_frame, simp)

text \<open>A wait is at most about the configured interval, so its milliseconds fit a duration.\<close>

lemma wait_bound:
  assumes "rtb_ok cap interval tb" and "0 \<le> y" and "y \<le> of_int cap"
  shows "0 \<le> fdiv y (rtb_rate tb)" and "fdiv y (rtb_rate tb) \<le> secs interval * (1 + 1 / 2 ^ 40)"
proof -
  note ok = rtb_okD [OF assms(1)]
  define R where "R = rtb_rate tb"
  define C where "C = (of_int cap :: rat)"
  define s where "s = secs interval"
  have C: "0 < C" "0 < s" "0 < R" using ok by (simp_all add: C_def s_def R_def)
  have i: "1000000000 * ideal_rate cap interval = C / s" using ok by (simp add: ideal_rate_def C_def s_def)
  have lo: "C / s * (1 - 1 / 2 ^ 50) \<le> R" using rate_bounds(2) [OF assms(1)] unfolding i R_def .
  have "y / R \<le> C / (C / s * (1 - 1 / 2 ^ 50))"
    using lo C assms(2,3) by (intro frac_le) (simp_all add: C_def)
  also have "\<dots> = s * (1 / (1 - 1 / 2 ^ 50))" using C by (simp add: field_simps)
  finally have q: "y / R \<le> s * (1 / (1 - 1 / 2 ^ 50))" .
  have "f64 (y / R) \<le> y / R * (1 + 1 / 2 ^ 53)" using assms(2) C by (intro f64_upper) simp
  also have "\<dots> \<le> s * (1 / (1 - 1 / 2 ^ 50)) * (1 + 1 / 2 ^ 53)" using q by (intro mult_right_mono) simp_all
  also have "\<dots> = s * (1 / (1 - 1 / 2 ^ 50) * (1 + 1 / 2 ^ 53))" by (simp only: mult.assoc)
  also have "\<dots> \<le> s * (1 + 1 / 2 ^ 40)" using C by (intro mult_left_mono) simp_all
  finally show "fdiv y (rtb_rate tb) \<le> secs interval * (1 + 1 / 2 ^ 40)" by (simp add: fdiv_def R_def s_def)
  show "0 \<le> fdiv y (rtb_rate tb)" using assms(2) ok by (simp add: fdiv_def f64_nonneg)
qed

lemma millis_fits:
  assumes "0 \<le> w" and "w \<le> 2 ^ 61 / 1000000000 * (1 + 1 / 2 ^ 40)"
  shows "0 \<le> millis (lua_num_of_text (fmul w 1000))"
proof -
  define a where "a = fmul w 1000"
  define b where "b = lua_num_of_text a"
  have a: "0 \<le> a" "a \<le> w * 1000 * (1 + 1 / 2 ^ 53)"
    using assms(1) f64_upper [of "w * 1000"] by (simp_all add: a_def fmul_def f64_nonneg)
  have b: "0 \<le> b" "b \<le> a * (1 + 1 / 10 ^ 13)"
    using lua_text_nonneg [OF a(1)] abs_le_D1 [OF lua_text_err [OF a(1)]] by (simp_all add: b_def field_simps)
  have "fmul b (fint Millisecond) \<le> b * 1000000 * (1 + 1 / 2 ^ 53)"
    using b(1) f64_upper [of "b * 1000000"] by (simp add: fmul_def fint_exact)
  also have "\<dots> \<le> a * (1 + 1 / 10 ^ 13) * 1000000 * (1 + 1 / 2 ^ 53)"
    using b(2) by (intro mult_right_mono) simp_all
  also have "\<dots> \<le> w * 1000 * (1 + 1 / 2 ^ 53) * (1 + 1 / 10 ^ 13) * 1000000 * (1 + 1 / 2 ^ 53)"
    using a(2) by (intro mult_right_mono) simp_all
  also have "\<dots> \<le> 2 ^ 61 / 1000000000 * (1 + 1 / 2 ^ 40) * 1000 * (1 + 1 / 2 ^ 53) * (1 + 1 / 10 ^ 13) * 1000000 * (1 + 1 / 2 ^ 53)"
    using assms(2) by (intro mult_right_mono) simp_all
  also have "\<dots> \<le> 2 ^ 62" by simp
  finally have "fmul b (fint Millisecond) \<le> 2 ^ 62" .
  then have "\<lfloor>fmul b (fint Millisecond)\<rfloor> \<le> max_int64"
    by (simp add: max_int64_def floor_le_iff)
  moreover have "0 \<le> fmul b (fint Millisecond)" using b(1) by (simp add: fmul_def fint_exact f64_nonneg)
  ultimately show ?thesis
    by (simp add: millis_def a_def [symmetric] b_def [symmetric] f2i_def trunc_rat_def is_int64_def min_int64_def Let_def)
qed

lemma reply_decodes:
  assumes "rtb_ok cap interval tb" and "0 \<le> x" and "x \<le> of_int cap"
    and "decode (bucket_reply tb x) (rtb_capacity tb) = Inr res"
  shows "wf_result cap res" and "Allowed res \<longleftrightarrow> 1 \<le> x" and "Remaining res = \<lfloor>left_over x\<rfloor>"
proof -
  note ok = rtb_okD [OF assms(1)]
  define y where "y = left_over x"
  have y: "0 \<le> y" "y \<le> of_int cap" using left_over_range [OF assms(1-3)] by (simp_all add: y_def)
  have big: "secs interval * (1 + 1 / 2 ^ 40) \<le> 2 ^ 61 / 1000000000 * (1 + 1 / 2 ^ 40)"
  proof -
    have "(of_int interval :: rat) \<le> of_int (2 ^ 61)" using ok(4) by (simp only: of_int_le_iff)
    then show ?thesis by simp
  qed
  have fits: "0 \<le> millis (lua_num_of_text (fmul (fdiv d (rtb_rate tb)) 1000))"
    if "0 \<le> d" "d \<le> of_int cap" for d
    using wait_bound [OF assms(1) that] big by (intro millis_fits) linarith+
  have y53: "y \<le> 2 ^ 53"
  proof -
    have "cap \<le> 2 ^ 53" using ok(2) by simp
    then have "(of_int cap :: rat) \<le> of_int (2 ^ 53)" by (simp only: of_int_le_iff)
    then show ?thesis using y(2) by simp
  qed
  have fl: "0 \<le> \<lfloor>y\<rfloor>" "\<lfloor>y\<rfloor> \<le> cap" using y by (simp_all add: floor_le_iff)
  then have text0: "lua_num_of_text (of_int \<lfloor>y\<rfloor>) = of_int \<lfloor>y\<rfloor>" using ok(2) by (intro lua_text_int) linarith
  have rem: "f2i (of_int \<lfloor>y\<rfloor>) = \<lfloor>y\<rfloor>" using fl y53 by (subst f2i_in_range) (simp_all add: floor_le_iff)
  have one: "lua_num_of_text 1 = 1" "lua_num_of_text 0 = 0" "lua_num_of_text (fmul 0 1000) = 0" "millis 0 = 0"
    using lua_text_int [of 1] lua_text_int [of 0] by (simp_all add: fmul_def millis_def)
  have res: "res = \<lparr>Allowed = (1 \<le> x), Limit = cap, Remaining = \<lfloor>y\<rfloor>,
      ResetAfter = millis (lua_num_of_text (fmul (fdiv (fsub (of_int cap) y) (rtb_rate tb)) 1000)),
      RetryAfter = (if 1 \<le> x then 0 else millis (lua_num_of_text (fmul (fdiv (fsub 1 x) (rtb_rate tb)) 1000)))\<rparr>"
    using assms(4) one text0 rem fl(1) ok(5,6)
    by (auto simp: bucket_reply_def y_def [symmetric] decode_tostring lua_floor_def)
  have "0 \<le> ResetAfter res"
    unfolding res using y ok(7) by (simp, intro fits) (simp_all add: fsub_def f64_nonneg f64_le)
  moreover have "0 \<le> RetryAfter res"
  proof (cases "1 \<le> x")
    case False
    have "fsub 1 x \<le> of_int cap" unfolding fsub_def using assms(2) ok(1,7) by (intro f64_le) simp_all
    with False show ?thesis unfolding res by (simp add: fits fsub_def f64_nonneg)
  qed (simp add: res)
  moreover have "\<lfloor>y\<rfloor> < cap \<and> (x < 1 \<longrightarrow> \<lfloor>y\<rfloor> = 0)"
  proof (cases "1 \<le> x")
    case True
    have "is_f64 (of_int (cap - 1))" using ok(1,2) by (intro is_f64_int) simp
    then have "y \<le> of_int (cap - 1)"
      unfolding y_def left_over_def fsub_def using True assms(3) by (simp add: f64_le)
    then show ?thesis using True by (simp add: floor_less_iff)
  next
    case False
    then have "\<lfloor>y\<rfloor> = 0" using assms(2) by (simp add: y_def left_over_def floor_eq_iff)
    then show ?thesis using ok(1) False by simp
  qed
  ultimately show "wf_result cap res" using fl(1) by (auto simp: wf_result_def res)
  show "Allowed res \<longleftrightarrow> 1 \<le> x" "Remaining res = \<lfloor>left_over x\<rfloor>" by (simp_all add: res y_def)
qed

interpretation rtb: limiter "RedisTokenBucket_Allow tb" "\<lambda>r key. rd_keys r (bucket_key tb key)"
    "\<lambda>r. rtb_ok cap interval tb \<and> keys_ok tb cap r" "\<lambda>_. True" cap
  for tb cap interval
proof unfold_locales
  show "rtb_ok cap interval tb \<and> keys_ok tb cap s
    \<Longrightarrow> rtb_ok cap interval tb \<and> keys_ok tb cap (snd (RedisTokenBucket_Allow tb s now key))" for s now key
    using RedisAllow_keys_ok by blast
  show "wf_result cap res"
    if "rtb_ok cap interval tb \<and> keys_ok tb cap s" "fst (RedisTokenBucket_Allow tb s now key) = Inr res" for s now key res
    using that reply_decodes(1) [of cap interval tb "found tb s now key" res] found_range [of cap interval tb s now key]
    by (auto simp: RedisAllow_cases Let_def split: fate.splits)
qed (rule RedisAllow_frame)

section \<open>The long-run rate\<close>

text \<open>
  A call costs up to 60 microseconds of credit: the time is stored with four decimals of a second, so the
  next call can be credited for time that had been credited before.
\<close>

definition ns_rate :: "int \<Rightarrow> duration \<Rightarrow> rat" where
  "ns_rate cap interval = ideal_rate cap interval * (1 + 1 / 2 ^ 49)"

definition drift :: "int \<Rightarrow> duration \<Rightarrow> rat" where
  "drift cap interval = 60000 * ns_rate cap interval + 2 * of_int cap / 10 ^ 12"

definition tracked :: "int \<Rightarrow> duration \<Rightarrow> time \<Rightarrow> rat \<Rightarrow> redis_entry \<Rightarrow> bool" where
  "tracked cap interval t0 toks e \<longleftrightarrow>
     (\<exists>h ts. re_value e = RHash h \<and> h ''tokens'' = Some toks \<and> h ''ts'' = Some ts \<and> secs t0 - 55 / 1000000 \<le> ts)
     \<and> 0 \<le> toks \<and> toks \<le> of_int cap
     \<and> (\<forall>t. t0 \<le> t \<and> re_when e < millis_of t \<longrightarrow>
           of_int cap \<le> toks + of_int (t - t0) * ns_rate cap interval + of_int cap / 10 ^ 12)"

lemma ns_rate_pos: "rtb_ok cap interval tb \<Longrightarrow> 0 < ns_rate cap interval"
  using rtb_okD(1,3) [of cap interval tb] by (simp add: ns_rate_def ideal_rate_def)

lemma rate_le_ns: "rtb_ok cap interval tb \<Longrightarrow> rtb_rate tb * (1 + 1 / 2 ^ 51) \<le> 1000000000 * ns_rate cap interval"
proof -
  assume ok: "rtb_ok cap interval tb"
  define i where "i = ideal_rate cap interval"
  have i: "0 < i" using rtb_okD(1,3) [OF ok] by (simp add: i_def ideal_rate_def)
  have "rtb_rate tb * (1 + 1 / 2 ^ 51) \<le> 1000000000 * i * (1 + 1 / 2 ^ 51) * (1 + 1 / 2 ^ 51)"
    using rate_bounds(1) [OF ok] by (intro mult_right_mono) (simp_all add: i_def)
  also have "\<dots> = 1000000000 * i * ((1 + 1 / 2 ^ 51) * (1 + 1 / 2 ^ 51))" by (simp only: mult.assoc)
  also have "\<dots> \<le> 1000000000 * i * (1 + 1 / 2 ^ 49)" using i by (intro mult_left_mono) simp_all
  finally show ?thesis by (simp only: ns_rate_def i_def [symmetric] mult.assoc)
qed

lemma credit_le:
  assumes ok: "rtb_ok cap interval tb" and "0 \<le> toks" "toks \<le> of_int cap"
    and el: "el \<le> D" and D: "0 \<le> D"
  shows "credit (of_int cap) (rtb_rate tb) (f64 el) toks
    \<le> toks + D * 1000000000 * ns_rate cap interval + of_int cap / 2 ^ 53"
proof -
  define R where "R = rtb_rate tb"
  define N where "N = ns_rate cap interval"
  have R: "0 < R" and N: "0 < N" and C: "0 < (of_int cap :: rat)"
    using rtb_okD(1,9) [OF ok] ns_rate_pos [OF ok] by (simp_all add: R_def N_def)
  have DN: "0 \<le> D * 1000000000 * N" using D N by simp
  show ?thesis
  proof (cases "0 < f64 el")
    case False
    then show ?thesis using DN C by (simp add: credit_def N_def)
  next
    case True
    then have el0: "0 \<le> el" using f64_mono [of el 0] by (cases "el < 0") (simp_all add: f64_0)
    define c where "c = fmul (f64 el) R"
    have "c \<le> f64 el * R * (1 + 1 / 2 ^ 53)"
      using True R f64_upper [of "f64 el * R"] by (simp add: c_def fmul_def)
    also have "\<dots> \<le> el * (1 + 1 / 2 ^ 53) * R * (1 + 1 / 2 ^ 53)"
      using f64_upper [OF el0] R by (intro mult_right_mono) simp_all
    also have "\<dots> \<le> D * (1 + 1 / 2 ^ 53) * R * (1 + 1 / 2 ^ 53)"
      using el R by (intro mult_right_mono) simp_all
    also have "\<dots> = D * R * ((1 + 1 / 2 ^ 53) * (1 + 1 / 2 ^ 53))" by simp
    also have "\<dots> \<le> D * R * (1 + 1 / 2 ^ 51)" using D R by (intro mult_left_mono) simp_all
    also have "\<dots> \<le> D * (1000000000 * N)"
      using rate_le_ns [OF ok] D unfolding R_def N_def mult.assoc by (intro mult_left_mono) simp_all
    finally have c: "c \<le> D * 1000000000 * N" by (simp only: mult.assoc)
    have c0: "0 \<le> c" using True R by (simp add: c_def fmul_def f64_nonneg)
    have "min (of_int cap) (f64 (toks + c)) \<le> toks + c + of_int cap / 2 ^ 53"
    proof (cases "toks + c \<le> of_int cap")
      case le: True
      have "f64 (toks + c) \<le> toks + c + (toks + c) / 2 ^ 53"
        using assms(2) c0 by (intro f64_upper_abs) simp
      also have "\<dots> \<le> toks + c + of_int cap / 2 ^ 53"
        using le by (intro add_left_mono divide_right_mono) simp_all
      finally show ?thesis by simp
    next
      case False
      have "0 \<le> (of_int cap :: rat) / 2 ^ 53" using C by simp
      with False show ?thesis by linarith
    qed
    then have "credit (of_int cap) R (f64 el) toks \<le> toks + c + of_int cap / 2 ^ 53"
      using True by (simp add: credit_def c_def fadd_def)
    with c show ?thesis unfolding N_def R_def by linarith
  qed
qed

lemma found_le:
  assumes ok: "rtb_ok cap interval tb" and e: "rd_keys r (bucket_key tb key) = Some e"
    and tr: "tracked cap interval t0 toks e" and t: "t0 \<le> t" "unix_time t"
  shows "found tb r t key \<le> toks + (of_int (t - t0) + 60000) * ns_rate cap interval + of_int cap / 10 ^ 12"
proof -
  define N where "N = ns_rate cap interval"
  have N: "0 < N" and C: "0 < (of_int cap :: rat)" using ns_rate_pos [OF ok] rtb_okD(1) [OF ok] by (simp_all add: N_def)
  obtain h ts where h: "re_value e = RHash h" "h ''tokens'' = Some toks" "h ''ts'' = Some ts"
    "secs t0 - 55 / 1000000 \<le> ts" and range: "0 \<le> toks" "toks \<le> of_int cap"
    and expired: "\<And>t. t0 \<le> t \<Longrightarrow> re_when e < millis_of t \<Longrightarrow>
           of_int cap \<le> toks + of_int (t - t0) * N + of_int cap / 10 ^ 12"
    using tr by (auto simp: tracked_def N_def)
  show ?thesis
  proof (cases "millis_of t \<le> re_when e")
    case False
    then have "found tb r t key = of_int cap" using e rtb_okD(5,6) [OF ok] by (simp add: found_def redis_get_def)
    then show ?thesis using expired [of t] t(1) False N by (simp add: N_def [symmetric] distrib_right)
  next
    case True
    define D where "D = secs (t - t0) + 60 / 1000000"
    have D: "0 \<le> D" using t(1) by (simp add: D_def)
    have "lua_seconds t - ts \<le> D" using lua_seconds_err [OF t(2)] h(4) by (simp add: D_def diff_divide_distrib)
    from credit_le [OF ok range this D]
    have "found tb r t key \<le> toks + D * 1000000000 * N + of_int cap / 2 ^ 53"
      using e h True rtb_okD(5,6) [OF ok] by (simp add: found_def redis_get_def fsub_def N_def)
    also have "D * 1000000000 * N = (of_int (t - t0) + 60000) * N" by (simp add: D_def field_simps)
    finally show ?thesis using C unfolding N_def by simp
  qed
qed

lemma millis_gap:
  assumes "millis_of t + m < millis_of t'"
  shows "m * 1000000 \<le> t' - t"
proof -
  have "millis_of t' * 1000000 \<le> t'" "t < millis_of t * 1000000 + 1000000"
    using minus_mod_eq_div_mult [of t' 1000000] minus_mod_eq_div_mult [of t 1000000]
      pos_mod_bound [of 1000000 t] pos_mod_sign [of 1000000 t']
    by (simp_all add: millis_of_def)
  then show ?thesis using assms by simp
qed

text \<open>When the key expires, the bucket has filled up.\<close>

lemma expired_full:
  assumes ok: "rtb_ok cap interval tb" and y: "0 \<le> y" "y \<le> of_int cap"
    and late: "millis_of t + (lua_ceil (fmul (fdiv (fsub (of_int cap) y) (rtb_rate tb)) 1000) + 1000) < millis_of t'"
  shows "of_int cap \<le> y + of_int (t' - t) * ns_rate cap interval + of_int cap / 2 ^ 50"
proof -
  define R where "R = rtb_rate tb"
  define N where "N = ns_rate cap interval"
  define C where "C = (of_int cap :: rat)"
  define w where "w = fdiv (fsub C y) R"
  define v where "v = (1 - 1 / 2 ^ 53 :: rat)"
  have R: "0 < R" and N: "0 < N" and C: "0 < C"
    using rtb_okD(1,9) [OF ok] ns_rate_pos [OF ok] by (simp_all add: R_def N_def C_def)
  have RN: "R \<le> 1000000000 * N" using rate_le_ns [OF ok] R unfolding R_def [symmetric] N_def [symmetric]
    by (simp add: distrib_left)
  have d: "(C - y) * v \<le> fsub C y" using y f64_lower [of "C - y"] by (simp add: fsub_def C_def v_def)
  have d0: "0 \<le> fsub C y" using y by (simp add: fsub_def C_def f64_nonneg)
  have "(C - y) * v / R * v \<le> fsub C y / R * v"
    using d R by (intro mult_right_mono divide_right_mono) (simp_all add: v_def)
  also have "\<dots> \<le> w" using d0 R f64_lower [of "fsub C y / R"] by (simp add: w_def fdiv_def v_def)
  finally have w: "(C - y) * v / R * v \<le> w" .
  have w0: "0 \<le> w" using d0 R by (simp add: w_def fdiv_def f64_nonneg)
  have "w * 1000 * v \<le> fmul w 1000" using w0 f64_lower [of "w * 1000"] by (simp add: fmul_def v_def)
  also have "\<dots> \<le> of_int (lua_ceil (fmul w 1000))" by (simp add: lua_ceil_def)
  also have "\<dots> * 1000000 \<le> of_int (t' - t)"
  proof -
    have "(lua_ceil (fmul w 1000) + 1000) * 1000000 \<le> t' - t"
      using late by (intro millis_gap) (simp add: w_def C_def R_def)
    then have "lua_ceil (fmul w 1000) * 1000000 \<le> t' - t" by simp
    then have "(of_int (lua_ceil (fmul w 1000) * 1000000) :: rat) \<le> of_int (t' - t)" by (simp only: of_int_le_iff)
    then show ?thesis by simp
  qed
  finally have t: "w * 1000000000 * v \<le> of_int (t' - t)" by simp
  have "(C - y) * v * v * v = (C - y) * v / R * v * R * v" using R by simp
  also have "\<dots> \<le> w * R * v" using w R by (intro mult_right_mono) (simp_all add: v_def)
  also have "\<dots> \<le> w * (1000000000 * N) * v"
    using RN w0 by (intro mult_right_mono mult_left_mono) (simp_all add: v_def)
  also have "\<dots> = w * 1000000000 * v * N" by simp
  also have "\<dots> \<le> of_int (t' - t) * N" using t N by (intro mult_right_mono) simp_all
  finally have main: "(C - y) * v * v * v \<le> of_int (t' - t) * N" .
  have "C - y - C / 2 ^ 50 \<le> (C - y) * (1 - 1 / 2 ^ 50)" using y by (simp add: C_def algebra_simps)
  also have "\<dots> \<le> (C - y) * (v * v * v)" using y by (intro mult_left_mono) (simp_all add: v_def C_def)
  finally show ?thesis using main unfolding C_def N_def by (simp add: mult.assoc)
qed

lemma entry_after_tracked:
  assumes ok: "rtb_ok cap interval tb" and k: "keys_ok tb cap r" and t: "unix_time t"
  shows "\<exists>toks. tracked cap interval t toks (entry_after tb r t key)
    \<and> toks \<le> found tb r t key - (if 1 \<le> found tb r t key then 1 else 0) + of_int cap / 10 ^ 12"
proof -
  define x where "x = found tb r t key"
  define y where "y = left_over x"
  define C where "C = (of_int cap :: rat)"
  have C: "0 < C" using rtb_okD(1) [OF ok] by (simp add: C_def)
  have x: "0 \<le> x" "x \<le> C" using found_range [OF ok k, of t key] by (simp_all add: x_def C_def)
  have y: "0 \<le> y" "y \<le> C" "y \<le> x - (if 1 \<le> x then 1 else 0) + C / 2 ^ 53"
    using left_over_range [OF ok x [unfolded C_def]] by (simp_all add: y_def C_def)
  define z where "z = lua_num_of_text y"
  have z: "0 \<le> z" "z \<le> C" "\<bar>z - y\<bar> \<le> C / 10 ^ 13"
    using lua_text_nonneg [OF y(1)] lua_text_le_cap [OF ok, of y] lua_text_err [OF y(1)] y(2)
    by (simp_all add: z_def C_def)
  have "\<bar>lua_num_of_text (lua_seconds t) - lua_seconds t\<bar> \<le> 52 / 1000000"
    using lua_seconds_err [OF t] by (intro lua_text_time_err) simp_all
  then have ts: "secs t - 55 / 1000000 \<le> lua_num_of_text (lua_seconds t)"
    using lua_seconds_err [OF t] by linarith
  define e where "e = entry_after tb r t key"
  have due: "re_when e = millis_of t + (lua_ceil (fmul (fdiv (fsub C y) (rtb_rate tb)) 1000) + 1000)"
    using rtb_okD(5,6) [OF ok] by (simp add: e_def entry_after_def x_def y_def C_def)
  have "C \<le> z + of_int (t' - t) * ns_rate cap interval + C / 10 ^ 12"
    if "t \<le> t'" "re_when e < millis_of t'" for t'
    using expired_full [OF ok y(1,2) [unfolded C_def], of t t'] that(2) abs_le_D2 [OF z(3)] C
    unfolding due C_def by simp
  then have "tracked cap interval t z e"
    using ts z(1,2) unfolding tracked_def by (auto simp: e_def entry_after_def x_def y_def z_def C_def)
  moreover have "z \<le> x - (if 1 \<le> x then 1 else 0) + C / 10 ^ 12" using y(3) abs_le_D1 [OF z(3)] C by simp
  ultimately show ?thesis by (auto simp: e_def x_def C_def)
qed

lemma admitted_drift:
  assumes "rtb_ok cap interval tb" and "keys_ok tb cap r"
    and "rd_keys r (bucket_key tb key) = Some e" and "tracked cap interval t0 toks e"
    and "sorted (map fst reqs)" and "\<forall>(t, k) \<in> set reqs. unix_time t \<and> t0 \<le> t \<and> t \<le> T" and "t0 \<le> T"
  shows "of_nat (admitted (RedisTokenBucket_Allow tb) key r reqs)
    \<le> toks + of_int (T - t0) * ns_rate cap interval + of_nat (calls_for key reqs) * drift cap interval"
  using assms
proof (induction reqs arbitrary: r e t0 toks)
  case Nil
  have "0 \<le> of_int (T - t0) * ns_rate cap interval" using ns_rate_pos [OF Nil.prems(1)] Nil.prems(7) by simp
  then show ?case using Nil.prems(4) by (simp add: tracked_def)
next
  case (Cons req reqs)
  obtain t k where req: "req = (t, k)" by (cases req)
  define N where "N = ns_rate cap interval"
  define E where "E = drift cap interval"
  have N: "0 < N" and C: "0 < (of_int cap :: rat)"
    using ns_rate_pos [OF Cons.prems(1)] rtb_okD(1) [OF Cons.prems(1)] by (simp_all add: N_def)
  then have E: "E = 60000 * N + 2 * of_int cap / 10 ^ 12" "0 \<le> E" by (simp_all add: E_def N_def drift_def)
  let ?a = "RedisTokenBucket_Allow tb r t k"
  have t: "unix_time t" "t0 \<le> t" "t \<le> T" and srt: "sorted (map fst reqs)"
    and rest: "\<forall>(t', k) \<in> set reqs. unix_time t' \<and> t \<le> t' \<and> t' \<le> T"
    using Cons.prems(5,6) req by auto
  have rest0: "\<forall>(t', k) \<in> set reqs. unix_time t' \<and> t0 \<le> t' \<and> t' \<le> T" using Cons.prems(6) by auto
  have ok': "keys_ok tb cap (snd ?a)" by (rule RedisAllow_keys_ok [OF Cons.prems(1,2)])
  show ?case
  proof (cases "k = key \<and> rd_net r (rd_calls r) \<noteq> Refused")
    case False
    have "rd_keys (snd ?a) (bucket_key tb key) = Some e"
      using False Cons.prems(3) RedisAllow_frame [of key k tb r t] RedisAllow_cases [OF Cons.prems(2), of t k]
      by (cases "k = key") (simp_all add: Let_def)
    moreover have "k = key \<Longrightarrow> \<not> granted (fst ?a)"
      using False RedisAllow_cases [OF Cons.prems(2), of t k] by (simp add: granted_def Let_def)
    ultimately show ?thesis
      using Cons.IH [OF Cons.prems(1) ok' _ Cons.prems(4) srt rest0 Cons.prems(7)] E(2)
      by (auto simp: req admitted_Cons N_def [symmetric] E_def [symmetric] distrib_right)
  next
    case True
    define x where "x = found tb r t key"
    obtain toks' where tr: "tracked cap interval t toks' (entry_after tb r t key)"
      "toks' \<le> x - (if 1 \<le> x then 1 else 0) + of_int cap / 10 ^ 12"
      using entry_after_tracked [OF Cons.prems(1,2) t(1)] by (auto simp: x_def)
    have x: "x \<le> toks + (of_int (t - t0) + 60000) * N + of_int cap / 10 ^ 12"
      using found_le [OF Cons.prems(1,3,4) t(2,1)] by (simp add: x_def N_def)
    have key: "rd_keys (snd ?a) (bucket_key tb key) = Some (entry_after tb r t key)"
      using True RedisAllow_cases [OF Cons.prems(2), of t k] by (auto simp: Let_def split: fate.splits)
    have g: "granted (fst ?a) \<Longrightarrow> 1 \<le> x"
      using True RedisAllow_cases [OF Cons.prems(2), of t k]
        reply_decodes(2) [OF Cons.prems(1) found_range [OF Cons.prems(1,2)], of t key] rtb_okD(5) [OF Cons.prems(1)]
      by (auto simp: granted_def Let_def x_def split: fate.splits sum.splits)
    have time: "(of_int (t - t0) + 60000) * N + of_int (T - t) * N = of_int (T - t0) * N + 60000 * N"
      by (simp add: algebra_simps)
    have "of_nat (admitted (RedisTokenBucket_Allow tb) key (snd ?a) reqs)
        \<le> toks' + of_int (T - t) * N + of_nat (calls_for key reqs) * E"
      using Cons.IH [OF Cons.prems(1) ok' key tr(1) srt rest t(3)] by (simp add: N_def E_def)
    then have "of_nat (admitted (RedisTokenBucket_Allow tb) key r (req # reqs))
        \<le> x + of_int cap / 10 ^ 12 + of_int (T - t) * N + of_nat (calls_for key reqs) * E"
      using tr(2) g True by (auto simp: req admitted_Cons split: if_splits)
    also have "\<dots> \<le> toks + of_int (T - t0) * N + of_nat (calls_for key (req # reqs)) * E"
      using x time True by (simp add: req distrib_right E(1))
    finally show ?thesis by (simp add: N_def E_def)
  qed
qed

lemma admitted_fresh:
  assumes "rtb_ok cap interval tb" and "keys_ok tb cap r" and "rd_keys r (bucket_key tb key) = None"
    and "sorted (map fst reqs)" and "\<forall>(t, k) \<in> set reqs. unix_time t \<and> T0 \<le> t \<and> t \<le> T" and "T0 \<le> T"
  shows "of_nat (admitted (RedisTokenBucket_Allow tb) key r reqs)
    \<le> of_int cap + of_int (T - T0) * ns_rate cap interval + of_nat (calls_for key reqs) * drift cap interval"
  using assms
proof (induction reqs arbitrary: r)
  case Nil
  have "0 \<le> of_int (T - T0) * ns_rate cap interval" using ns_rate_pos [OF Nil.prems(1)] Nil.prems(6) by simp
  then show ?case using rtb_okD(1) [OF Nil.prems(1)] by simp
next
  case (Cons req reqs)
  obtain t k where req: "req = (t, k)" by (cases req)
  define N where "N = ns_rate cap interval"
  define E where "E = drift cap interval"
  have N: "0 < N" and C: "0 < (of_int cap :: rat)"
    using ns_rate_pos [OF Cons.prems(1)] rtb_okD(1) [OF Cons.prems(1)] by (simp_all add: N_def)
  then have E: "2 * of_int cap / 10 ^ 12 \<le> E" "0 \<le> E" by (simp_all add: E_def N_def drift_def)
  let ?a = "RedisTokenBucket_Allow tb r t k"
  have t: "unix_time t" "T0 \<le> t" "t \<le> T" and srt: "sorted (map fst reqs)"
    and rest: "\<forall>(t', k) \<in> set reqs. unix_time t' \<and> t \<le> t' \<and> t' \<le> T"
    using Cons.prems(4,5) req by auto
  have rest0: "\<forall>(t', k) \<in> set reqs. unix_time t' \<and> T0 \<le> t' \<and> t' \<le> T" using Cons.prems(5) by auto
  have ok': "keys_ok tb cap (snd ?a)" by (rule RedisAllow_keys_ok [OF Cons.prems(1,2)])
  show ?case
  proof (cases "k = key \<and> rd_net r (rd_calls r) \<noteq> Refused")
    case False
    have "rd_keys (snd ?a) (bucket_key tb key) = None"
      using False Cons.prems(3) RedisAllow_frame [of key k tb r t] RedisAllow_cases [OF Cons.prems(2), of t k]
      by (cases "k = key") (simp_all add: Let_def)
    moreover have "k = key \<Longrightarrow> \<not> granted (fst ?a)"
      using False RedisAllow_cases [OF Cons.prems(2), of t k] by (simp add: granted_def Let_def)
    ultimately show ?thesis
      using Cons.IH [OF Cons.prems(1) ok' _ srt rest0 Cons.prems(6)] E(2)
      by (auto simp: req admitted_Cons N_def [symmetric] E_def [symmetric] distrib_right)
  next
    case True
    have x: "found tb r t key = of_int cap"
      using Cons.prems(3) rtb_okD(5,6) [OF Cons.prems(1)] by (simp add: found_def redis_get_def)
    have cap1: "1 \<le> (of_int cap :: rat)" using rtb_okD(1) [OF Cons.prems(1)] by simp
    obtain toks' where tr: "tracked cap interval t toks' (entry_after tb r t key)"
      "toks' \<le> of_int cap - 1 + of_int cap / 10 ^ 12"
      using entry_after_tracked [OF Cons.prems(1,2) t(1), of key] cap1 by (auto simp: x)
    have key: "rd_keys (snd ?a) (bucket_key tb key) = Some (entry_after tb r t key)"
      using True RedisAllow_cases [OF Cons.prems(2), of t k] by (auto simp: Let_def split: fate.splits)
    have "of_nat (admitted (RedisTokenBucket_Allow tb) key (snd ?a) reqs)
        \<le> toks' + of_int (T - t) * N + of_nat (calls_for key reqs) * E"
      using admitted_drift [OF Cons.prems(1) ok' key tr(1) srt rest t(3)] by (simp add: N_def E_def)
    moreover have "of_int (T - t) * N \<le> of_int (T - T0) * N"
      using t(2) N by (intro mult_right_mono) simp_all
    ultimately show ?thesis using tr(2) E(1) C True
      by (auto simp: req admitted_Cons distrib_right N_def [symmetric] E_def [symmetric])
  qed
qed


end
