(* ===== verification/RedisDemo.thy ===== *)
theory RedisDemo
  imports RedisBucket
begin

text \<open>
  The Redis-backed token bucket on concrete configurations: the bound of \<open>RedisBucket\<close> at work, and what the
  stored time's four decimals cost.
\<close>

definition empty_redis :: redis where
  "empty_redis = \<lparr>rd_keys = Map.empty, rd_net = (\<lambda>_. Runs), rd_calls = 0\<rparr>"

lemma empty_keys_ok [simp]: "keys_ok tb cap empty_redis"
  by (simp add: keys_ok_def empty_redis_def)

abbreviation day :: time where "day \<equiv> 1700000000 * Second"

definition phase :: time where "phase = day + 40000"

lemma day_unix: "unix_time day" "unix_time phase"
  by (simp_all add: unix_time_def phase_def)

lemma phase_seconds: "1700000000 + 37 / 1000000 \<le> lua_seconds phase" "lua_seconds phase \<le> 1700000000 + 42 / 1000000"
  using lua_seconds_err [OF day_unix(2)] by (simp_all add: phase_def)


section \<open>Time that is credited twice\<close>

text \<open>
  40 microseconds into a tenth of a millisecond, the script stores the start of that tenth.  At 100 requests
  per millisecond the lost 40 microseconds are worth four tokens, to every call.
\<close>

lemma day_text:
  assumes "1700000000 \<le> x" and "x < 1700000000 + 45 / 1000000"
  shows "lua_num_of_text x = 1700000000"
proof -
  have fl: "\<lfloor>x\<rfloor> = 1700000000" using assms by (simp add: floor_eq_iff)
  have "mag 10 x = 9" using assms(1) by (simp add: mag_def fl ndigits.simps)
  then have u: "sig_ulp 10 14 x = 1 / 10000" using assms(1) by (simp add: sig_ulp_def power_int_def power_divide)
  have "\<lfloor>x * 10000\<rfloor> = 17000000000000" using assms by (simp add: floor_eq_iff)
  then have "rne (x * 10000) = 17000000000000" using assms by (simp add: rne_def)
  then have "sig_round 10 14 x = 1700000000" using assms(1) by (simp add: sig_round_def u)
  then show ?thesis using f64_int [of 1700000000] by (simp add: lua_num_of_text_def)
qed

definition recredited :: "redis_entry \<Rightarrow> bool" where
  "recredited e \<longleftrightarrow>
     (\<exists>h. re_value e = RHash h \<and> h ''tokens'' = Some 99 \<and> h ''ts'' = Some 1700000000)
     \<and> millis_of phase \<le> re_when e"

definition burst_config :: "RedisTokenBucket \<Rightarrow> bool" where
  "burst_config tb \<longleftrightarrow> NewRedisTokenBucket True ''gateway'' 100 Millisecond = Inr tb"

lemma burst_configD:
  assumes "burst_config tb"
  shows "rtb_ok 100 Millisecond tb" "rtb_capacity tb = 100" "99000 \<le> rtb_rate tb"
proof -
  have tb: "NewRedisTokenBucket True ''gateway'' 100 Millisecond = Inr tb" using assms by (simp add: burst_config_def)
  show ok: "rtb_ok 100 Millisecond tb" by (rule NewRedisTokenBucket_ok [OF tb]) simp_all
  then show "rtb_capacity tb = 100" by (rule rtb_okD)
  show "99000 \<le> rtb_rate tb" using rate_bounds(2) [OF ok] by (simp add: ideal_rate_def)
qed

lemma recredited_full:
  assumes "burst_config tb" and "rd_keys r (bucket_key tb key) = Some e" and "recredited e"
  shows "found tb r phase key = 100"
proof -
  note c = burst_configD [OF assms(1)]
  define x where "x = lua_seconds phase"
  obtain h where h: "re_value e = RHash h" "h ''tokens'' = Some 99" "h ''ts'' = Some 1700000000"
    "millis_of phase \<le> re_when e" using assms(3) by (auto simp: recredited_def)
  have "37 / 1000000 \<le> x - 1700000000" using phase_seconds by (simp add: x_def)
  then have "of_int 1 * 2 powi (- 15) \<le> fsub x 1700000000"
    unfolding fsub_def using b64.round_exact [of 1 "- 15"]
    by (intro f64_ge) (simp_all add: is_f64_def f64_def power_int_minus)
  then have el: "1 / 32768 \<le> fsub x 1700000000" by (simp add: power_int_minus)
  then have "1 \<le> fsub x 1700000000 * rtb_rate tb"
    using mult_mono [OF el c(3)] by simp
  then have "of_int 1 \<le> fmul (fsub x 1700000000) (rtb_rate tb)"
    unfolding fmul_def by (intro f64_ge is_f64_int) simp_all
  then have "of_int 100 \<le> fadd 99 (fmul (fsub x 1700000000) (rtb_rate tb))"
    unfolding fadd_def by (intro f64_ge is_f64_int) simp_all
  then show ?thesis using h assms(2) el c(2)
    by (simp add: found_def redis_get_def credit_def x_def [symmetric] fint_exact min_def)
qed

lemma recredited_after:
  assumes "burst_config tb" and "found tb r phase key = 100"
  shows "recredited (entry_after tb r phase key)"
proof -
  note c = burst_configD [OF assms(1)]
  have "lua_num_of_text (lua_seconds phase) = 1700000000"
    using phase_seconds by (intro day_text) simp_all
  moreover have y: "left_over 100 = 99" using f64_int [of 99] by (simp add: left_over_def fsub_def)
  moreover have "lua_num_of_text 99 = 99" using lua_text_int [of 99] by simp
  moreover have "0 \<le> fmul (fdiv (fsub (fint 100) 99) (rtb_rate tb)) 1000"
    using c(3) by (simp add: fmul_def fdiv_def fsub_def fint_exact f64_nonneg)
  then have "0 \<le> lua_ceil (fmul (fdiv (fsub (fint 100) 99) (rtb_rate tb)) 1000)"
    by (simp add: lua_ceil_def)
  ultimately show ?thesis by (simp add: recredited_def entry_after_def assms(2) c(2))
qed

lemma recredited_step:
  assumes "burst_config tb" and "keys_ok tb 100 r" and "rd_net r = (\<lambda>_. Runs)"
    and "case rd_keys r (bucket_key tb key) of None \<Rightarrow> True | Some e \<Rightarrow> recredited e"
  shows "granted (fst (RedisTokenBucket_Allow tb r phase key))
    \<and> keys_ok tb 100 (snd (RedisTokenBucket_Allow tb r phase key))
    \<and> rd_net (snd (RedisTokenBucket_Allow tb r phase key)) = (\<lambda>_. Runs)
    \<and> (\<exists>e. rd_keys (snd (RedisTokenBucket_Allow tb r phase key)) (bucket_key tb key) = Some e \<and> recredited e)"
proof -
  note c = burst_configD [OF assms(1)]
  have x: "found tb r phase key = 100"
  proof (cases "rd_keys r (bucket_key tb key)")
    case None
    then show ?thesis using c(2) by (simp add: found_def redis_get_def fint_exact)
  next
    case (Some e)
    then show ?thesis using assms(4) recredited_full [OF assms(1) Some] by simp
  qed
  have one: "lua_num_of_text 1 = 1" using lua_text_int [of 1] by simp
  have "granted (decode (bucket_reply tb 100) (rtb_capacity tb))"
    by (simp add: bucket_reply_def decode_tostring granted_def one)
  then have "granted (fst (RedisTokenBucket_Allow tb r phase key))
    \<and> rd_net (snd (RedisTokenBucket_Allow tb r phase key)) = (\<lambda>_. Runs)
    \<and> (\<exists>e. rd_keys (snd (RedisTokenBucket_Allow tb r phase key)) (bucket_key tb key) = Some e \<and> recredited e)"
    using RedisAllow_cases [OF assms(2), of phase key] assms(3) x recredited_after [OF assms(1) x]
    by (simp add: Let_def)
  then show ?thesis using RedisAllow_keys_ok [OF c(1) assms(2)] by blast
qed

lemma recredited_run:
  assumes "burst_config tb" and "keys_ok tb 100 r" and "rd_net r = (\<lambda>_. Runs)"
    and "case rd_keys r (bucket_key tb key) of None \<Rightarrow> True | Some e \<Rightarrow> recredited e"
  shows "admitted (RedisTokenBucket_Allow tb) key r (replicate n (phase, key)) = n"
  using assms(2-)
proof (induction n arbitrary: r)
  case (Suc n)
  define r' where "r' = snd (RedisTokenBucket_Allow tb r phase key)"
  have "granted (fst (RedisTokenBucket_Allow tb r phase key))" "keys_ok tb 100 r'" "rd_net r' = (\<lambda>_. Runs)"
    "case rd_keys r' (bucket_key tb key) of None \<Rightarrow> True | Some e \<Rightarrow> recredited e"
    using recredited_step [OF assms(1) Suc.prems] by (auto simp: r'_def)
  with Suc.IH [of r'] show ?case by (simp add: admitted_Cons r'_def [symmetric])
qed simp

text \<open>
  C40.  No burst is cut off at this instant.  With 100 requests per millisecond, any number of requests that
  arrive within one microsecond, 40 microseconds into a tenth of a millisecond, is admitted, where the
  in-memory bucket of the same configuration admits 100: the script's \<open>tostring(now)\<close> keeps 14 digits, so
  every call is credited once more for the time since the start of the tenth.
\<close>

theorem same_instant_unlimited:
  "\<exists>tb. NewRedisTokenBucket True ''gateway'' 100 Millisecond = Inr tb
    \<and> (\<forall>n. admitted (RedisTokenBucket_Allow tb) key empty_redis (replicate n (phase, key)) = n)"
proof -
  obtain tb where tb: "burst_config tb"
    by (simp add: burst_config_def NewRedisTokenBucket_def check_config_def)
  from recredited_run [OF tb empty_keys_ok] tb show ?thesis
    by (auto simp: burst_config_def empty_redis_def)
qed

end
