(* ===== verification/RedisLog.thy ===== *)
theory RedisLog
  imports RedisBucket SlidingWindowLog
begin

text \<open>
  The Redis-backed sliding window log: \<open>ratelimiter/redis/limiters.go\<close> and
  \<open>scripts/slidingwindowlog.lua\<close>, run by any number of processes on one server.
\<close>

section \<open>The code\<close>

text \<open>\<open>TIME\<close> in milliseconds, with a fraction.\<close>

definition score :: "int \<Rightarrow> rat" where
  "score us = fadd (fmul (fint (us div 1000000)) 1000) (fdiv (fint (us mod 1000000)) 1000)"

definition lua_millis :: "time \<Rightarrow> rat" where "lua_millis t = score (micros t)"

text \<open>A sorted set is kept as its members with their scores; only the extreme scores are asked for.\<close>

definition zadd :: "rat \<Rightarrow> string \<Rightarrow> (string \<times> rat) list \<Rightarrow> (string \<times> rat) list" where
  "zadd sc member zs = filter (\<lambda>(m, _). m \<noteq> member) zs @ [(member, sc)]"

definition first_score :: "(string \<times> rat) list \<Rightarrow> rat" where "first_score zs = Min (snd ` set zs)"

definition last_score :: "(string \<times> rat) list \<Rightarrow> rat" where "last_score zs = Max (snd ` set zs)"

definition until_clear :: "rat \<Rightarrow> rat \<Rightarrow> rat \<Rightarrow> rat" where
  "until_clear sc window now = (let d = fsub (fadd sc window) now in if d < 0 then 0 else d)"

definition sliding_window_log_script :: "string \<Rightarrow> rat \<Rightarrow> rat \<Rightarrow> string \<Rightarrow> script" where
  "sliding_window_log_script key limit window member r time =
     (let now = lua_millis time in
      case redis_get r time key of
        Some (RHash _) \<Rightarrow> None
      | state \<Rightarrow>
          (let zs = (case state of Some (RZSet z) \<Rightarrow> z | _ \<Rightarrow> []);
               cutoff = fsub now window;
               kept = filter (\<lambda>(_, s). cutoff < s) zs;
               ok = of_nat (length kept) < limit;
               zs' = (if ok then zadd now member kept else kept);
               count = of_nat (length kept) + (if ok then 1 else 0);
               retry_after = (if ok \<or> kept = [] then 0 else until_clear (first_score kept) window now);
               reset_after = (if zs' = [] then window else until_clear (last_score zs') window now);
               remaining = (if limit - count < 0 then 0 else limit - count)
           in Some (Array [tostring (if ok then 1 else 0), tostring remaining, tostring reset_after,
                           tostring retry_after],
                    if zs' = [] then r\<lparr>rd_keys := (rd_keys r)(key := None)\<rparr>
                    else redis_set r time key (RZSet zs') (lua_ceil reset_after + 1000))))"

text \<open>\<open>strconv\<close> in base 36.\<close>

definition base36 :: string where "base36 = ''0123456789abcdefghijklmnopqrstuvwxyz''"

fun digits36 :: "nat \<Rightarrow> string" where
  "digits36 n = (if n < 36 then [base36 ! n] else digits36 (n div 36) @ [base36 ! (n mod 36)])"

declare digits36.simps [simp del]

definition FormatInt36 :: "int \<Rightarrow> string" where
  "FormatInt36 n = (if n < 0 then CHR ''-'' # digits36 (nat (- n)) else digits36 (nat n))"

definition member_id :: "int \<Rightarrow> nat \<Rightarrow> string" where
  "member_id unix_nano seq = FormatInt36 unix_nano @ ''-'' @ digits36 seq"

definition log_key :: "RedisSlidingWindowLog \<Rightarrow> string \<Rightarrow> string" where
  "log_key s key = rsl_prefix s @ '':swl:'' @ key"

definition Milliseconds :: "duration \<Rightarrow> int" where
  "Milliseconds d = go_div d Millisecond"

definition RedisSlidingWindowLog_Allow ::
  "RedisSlidingWindowLog \<Rightarrow> int \<Rightarrow> redis \<Rightarrow> time \<Rightarrow> string
    \<Rightarrow> (limiter_error, Result) result \<times> redis \<times> RedisSlidingWindowLog" where
  "RedisSlidingWindowLog_Allow s unix_nano r now key =
     (let seq = (rsl_seq s + 1) mod 2 ^ 64;
          (res, r') = runScript (sliding_window_log_script (log_key s key) (fint (rsl_limit s))
                        (fint (Milliseconds (rsl_window s))) (member_id unix_nano seq)) (rsl_limit s) r now
      in (res, r', s\<lparr>rsl_seq := seq\<rparr>))"

section \<open>Members\<close>

lemma base36_facts: "length base36 = 36" "distinct base36" "CHR ''-'' \<notin> set base36"
  by (simp_all add: base36_def)

lemma digit36_inj: "a < 36 \<Longrightarrow> b < 36 \<Longrightarrow> base36 ! a = base36 ! b \<longleftrightarrow> a = b"
  using nth_eq_iff_index_eq [OF base36_facts(2)] by (simp add: base36_facts(1))

lemma digits36_cases:
  "n < 36 \<Longrightarrow> digits36 n = [base36 ! n]"
  "36 \<le> n \<Longrightarrow> digits36 n = digits36 (n div 36) @ [base36 ! (n mod 36)]"
  by (subst digits36.simps, simp)+

lemma digits36_nonempty: "digits36 n \<noteq> []"
  by (cases "n < 36") (simp_all add: digits36_cases)

lemma digits36_inj: "digits36 m = digits36 n \<Longrightarrow> m = n"
proof (induction m arbitrary: n rule: less_induct)
  case (less m)
  consider "m < 36" "n < 36" | "m < 36" "36 \<le> n" | "36 \<le> m" "n < 36" | "36 \<le> m" "36 \<le> n" by linarith
  then show ?case
  proof cases
    case 4
    then have eq: "digits36 (m div 36) = digits36 (n div 36)" "m mod 36 = n mod 36"
      using less.prems by (simp_all add: digits36_cases digit36_inj)
    have "m div 36 < m" using 4(1) by simp
    from less.IH [OF this eq(1)] eq(2) show ?thesis by (metis div_mult_mod_eq)
  qed (use less.prems digits36_nonempty [of "n div 36"] digits36_nonempty [of "m div 36"] in
      \<open>auto simp: digits36_cases digit36_inj Cons_eq_append_conv append_eq_Cons_conv\<close>)
qed

lemma digits36_chars: "CHR ''-'' \<notin> set (digits36 n)"
proof (induction n rule: less_induct)
  case (less n)
  have d: "base36 ! i \<noteq> CHR ''-''" if "i < 36" for i
    using nth_mem [of i base36] that base36_facts(1,3) by metis
  show ?case
  proof (cases "n < 36")
    case False
    then have "CHR ''-'' \<notin> set (digits36 (n div 36))" by (intro less.IH) simp
    with False show ?thesis using d [of "n mod 36"] by (simp add: digits36_cases)
  qed (use d [of n] in \<open>simp add: digits36_cases\<close>)
qed

text \<open>A member determines the counter and the instant it was made from.\<close>

lemma FormatInt36_inj: "FormatInt36 a = FormatInt36 b \<Longrightarrow> a = b"
proof -
  assume eq: "FormatInt36 a = FormatInt36 b"
  have "CHR ''-'' # x \<noteq> digits36 k" for x k using digits36_chars [of k] by (metis list.set_intros(1))
  then show ?thesis using eq digits36_inj [of "nat (- a)" "nat (- b)"] digits36_inj [of "nat a" "nat b"]
    by (auto simp: FormatInt36_def split: if_splits) metis+
qed

lemma last_dash_unique:
  assumes "x @ d # y = x' @ d # y'" and "d \<notin> set y" and "d \<notin> set y'"
  shows "x = x' \<and> y = y'"
proof -
  have "takeWhile ((\<noteq>) d) (rev (x @ d # y)) = rev y \<and> dropWhile ((\<noteq>) d) (rev (x @ d # y)) = d # rev x"
    if "d \<notin> set y" for x y
  proof -
    have ne: "d \<noteq> c" if "c \<in> set (rev y)" for c using that \<open>d \<notin> set y\<close> by auto
    show ?thesis
      using takeWhile_append2 [of "rev y" "(\<noteq>) d" "d # rev x", OF ne]
        dropWhile_append2 [of "rev y" "(\<noteq>) d" "d # rev x", OF ne] by simp
  qed
  from this [OF assms(2), of x] this [OF assms(3), of x'] assms(1) show ?thesis by simp
qed

lemma member_id_inj: "member_id a m = member_id b n \<longleftrightarrow> a = b \<and> m = n"
  using last_dash_unique [of "FormatInt36 a" "CHR ''-''" "digits36 m" "FormatInt36 b" "digits36 n"]
    digits36_chars FormatInt36_inj digits36_inj by (auto simp: member_id_def)


section \<open>Scores\<close>

text \<open>Instants up to the year 2049: a score then tells microseconds apart.\<close>

definition log_us :: "int \<Rightarrow> bool" where "log_us u \<longleftrightarrow> 0 \<le> u \<and> u < 25 * 10 ^ 14"

lemma f64_err_abs: "\<bar>f64 x - x\<bar> \<le> \<bar>x\<bar> / 2 ^ 53"
proof (cases "0 \<le> x")
  case False
  have "f64 x = - f64 (- x)" using b64.round_minus [of "- x"] by (simp add: f64_def)
  then show ?thesis using f64_err [of "- x"] False by (simp add: abs_minus_commute)
qed (use f64_err [of x] in simp)

lemma score_err:
  assumes "log_us u"
  shows "\<bar>score u - of_int u / 1000\<bar> \<le> 3 / 10000"
proof -
  define q where "q = u div 1000000"
  define r where "r = u mod 1000000"
  have qr: "u = q * 1000000 + r" "0 \<le> q" "0 \<le> r" "r < 1000000" "q < 25 * 10 ^ 8"
    using assms zdiv_mono1 [of u "25 * 10 ^ 14 - 1" 1000000]
    by (simp_all add: q_def r_def log_us_def pos_imp_zdiv_nonneg_iff)
  define x where "x = (of_int r / 1000 :: rat)"
  define y where "y = f64 x"
  define z where "z = of_int q * 1000 + y"
  have x: "0 \<le> x" "x \<le> 1000" using qr by (simp_all add: x_def)
  have y: "\<bar>y - x\<bar> \<le> 1000 / 2 ^ 53" "0 \<le> y"
    using order_trans [OF f64_err [OF x(1)] divide_right_mono [OF x(2)]] f64_nonneg [OF x(1)] by (simp_all add: y_def)
  have q1000: "f64 (of_int q * 1000) = of_int q * 1000" using f64_int [of "q * 1000"] qr by simp
  have s: "score u = f64 z"
    using qr q1000 by (simp add: score_def q_def [symmetric] r_def [symmetric] fint_exact fadd_def fmul_def fdiv_def
        x_def y_def z_def)
  have q8: "(of_int q :: rat) \<le> 25 * 10 ^ 8"
  proof -
    have "(of_int q :: rat) \<le> of_int (25 * 10 ^ 8)" using qr(5) by (simp only: of_int_le_iff)
    then show ?thesis by simp
  qed
  have z: "0 \<le> z" "z \<le> 25 * 10 ^ 11 + 2000"
    using qr(2) y q8 x(2) abs_le_D1 [OF y(1)] by (simp_all add: z_def)
  have e: "\<bar>f64 z - z\<bar> \<le> (25 * 10 ^ 11 + 2000) / 2 ^ 53"
    by (rule order_trans [OF f64_err [OF z(1)]]) (rule divide_right_mono [OF z(2)], simp)
  have exact: "z - y + x = of_int u / 1000" using qr(1) by (simp add: z_def x_def field_simps)
  have "\<bar>f64 z - z\<bar> \<le> 29 / 100000" by (rule order_trans [OF e]) simp
  moreover have "\<bar>y - x\<bar> \<le> 1 / 100000" by (rule order_trans [OF y(1)]) simp
  ultimately show ?thesis using exact s by linarith
qed

lemma score_range: "log_us u \<Longrightarrow> - 1 \<le> score u \<and> score u \<le> 25 * 10 ^ 11 + 1"
proof -
  assume u: "log_us u"
  have "(of_int u :: rat) \<le> of_int (25 * 10 ^ 14)" "(0 :: rat) \<le> of_int u"
    using u by (simp_all only: of_int_le_iff log_us_def of_int_0_le_iff) linarith
  then have "(of_int u :: rat) / 1000 \<le> 25 * 10 ^ 11" "(0 :: rat) \<le> of_int u / 1000" by simp_all
  then show ?thesis using score_err [OF u] by linarith
qed

text \<open>Pruning never drops an entry that is still inside the window.\<close>

lemma score_kept:
  assumes "log_us u" and "log_us v" and "v - ms * 1000 < u" and ms: "0 \<le> ms" "ms \<le> 25 * 10 ^ 11"
  shows "fsub (score v) (of_int ms) < score u"
proof -
  define d where "d = score v - of_int ms"
  have msr: "(of_int ms :: rat) \<le> 25 * 10 ^ 11" "(0 :: rat) \<le> of_int ms"
  proof -
    have "(of_int ms :: rat) \<le> of_int (25 * 10 ^ 11)" using ms(2) by (simp only: of_int_le_iff)
    then show "(of_int ms :: rat) \<le> 25 * 10 ^ 11" by simp
  qed (use ms(1) in simp)
  have "\<bar>d\<bar> \<le> 25 * 10 ^ 11 + 1" using score_range [OF assms(2)] msr by (simp add: d_def abs_le_iff)
  from divide_right_mono [OF this, of "2 ^ 53"] f64_err_abs [of d]
  have "\<bar>f64 d - d\<bar> \<le> (25 * 10 ^ 11 + 1) / 2 ^ 53" by simp
  then have e: "\<bar>f64 d - d\<bar> \<le> 29 / 100000" by (rule order_trans) simp
  have "(of_int (v - ms * 1000 + 1) :: rat) \<le> of_int u" using assms(3) by (simp only: of_int_le_iff)
  then have "of_int v / 1000 - of_int ms + 1 / 1000 \<le> (of_int u / 1000 :: rat)" by simp
  then show ?thesis using score_err [OF assms(1)] score_err [OF assms(2)] e
    unfolding fsub_def d_def by linarith
qed

end
