(* ===== verification/RedisFleet.thy ===== *)
theory RedisFleet
  imports RedisLog
begin

text \<open>
  The Redis-backed sliding window log shared by any number of processes: its contract and its exact ceiling.
\<close>

section \<open>Processes on one server\<close>

text \<open>
  The processes run limiters of one configuration against one server.  \<open>who\<close> says which of them makes the
  \<open>n\<close>-th evaluation, \<open>wall\<close> what its own clock, in nanoseconds, reads then.
\<close>

record log_fleet =
  lf_redis :: redis
  lf_procs :: "nat \<Rightarrow> RedisSlidingWindowLog"

definition fleet_Allow :: "(nat \<Rightarrow> nat) \<Rightarrow> (nat \<Rightarrow> int) \<Rightarrow> log_fleet allow_fun" where
  "fleet_Allow who wall f now key =
     (let c = rd_calls (lf_redis f);
          (res, r, s) = RedisSlidingWindowLog_Allow (lf_procs f (who c)) (wall c) (lf_redis f) now key
      in (res, \<lparr>lf_redis = r, lf_procs = (lf_procs f)(who c := s)\<rparr>))"

definition fleet_config :: "string \<Rightarrow> int \<Rightarrow> duration \<Rightarrow> log_fleet \<Rightarrow> bool" where
  "fleet_config prefix limit window f \<longleftrightarrow>
     0 < limit \<and> limit \<le> 10 ^ 14 \<and> 0 < window \<and> window \<le> 2 ^ 61
     \<and> (\<forall>p. rsl_prefix (lf_procs f p) = prefix \<and> rsl_limit (lf_procs f p) = limit \<and> rsl_window (lf_procs f p) = window)"

definition zset_ok :: "redis_entry \<Rightarrow> bool" where
  "zset_ok e \<longleftrightarrow> (\<exists>zs. re_value e = RZSet zs \<and> (\<forall>(m, s) \<in> set zs. - 1 \<le> s \<and> s \<le> 25 * 10 ^ 11 + 1))"

definition prefix_key :: "string \<Rightarrow> string \<Rightarrow> string" where
  "prefix_key prefix key = prefix @ '':swl:'' @ key"

definition zsets_ok :: "string \<Rightarrow> redis \<Rightarrow> bool" where
  "zsets_ok prefix r \<longleftrightarrow> (\<forall>key e. rd_keys r (prefix_key prefix key) = Some e \<longrightarrow> zset_ok e)"

text \<open>The entries a script sees.\<close>

definition zset_at :: "redis \<Rightarrow> time \<Rightarrow> string \<Rightarrow> (string \<times> rat) list" where
  "zset_at r now k = (case redis_get r now k of Some (RZSet zs) \<Rightarrow> zs | _ \<Rightarrow> [])"

definition kept :: "int \<Rightarrow> redis \<Rightarrow> time \<Rightarrow> string \<Rightarrow> (string \<times> rat) list" where
  "kept ms r now k = filter (\<lambda>(_, s). fsub (lua_millis now) (of_int ms) < s) (zset_at r now k)"

definition log_after :: "int \<Rightarrow> int \<Rightarrow> string \<Rightarrow> redis \<Rightarrow> time \<Rightarrow> string \<Rightarrow> (string \<times> rat) list" where
  "log_after limit ms m r now k =
     (if int (length (kept ms r now k)) < limit then zadd (lua_millis now) m (kept ms r now k) else kept ms r now k)"

definition log_reply :: "int \<Rightarrow> int \<Rightarrow> (string \<times> rat) list \<Rightarrow> (string \<times> rat) list \<Rightarrow> rat \<Rightarrow> reply" where
  "log_reply limit ms zs zs' now =
     (let ok = int (length zs) < limit; count = int (length zs) + (if ok then 1 else 0) in
      Array [tostring (if ok then 1 else 0), tostring (of_int (max 0 (limit - count))),
             tostring (until_clear (last_score zs') (of_int ms) now),
             tostring (if ok then 0 else until_clear (first_score zs) (of_int ms) now)])"

definition log_entry :: "int \<Rightarrow> (string \<times> rat) list \<Rightarrow> time \<Rightarrow> redis_entry" where
  "log_entry ms zs' now =
     \<lparr>re_value = RZSet zs',
      re_when = millis_of now + (lua_ceil (until_clear (last_score zs') (of_int ms) (lua_millis now)) + 1000)\<rparr>"

lemma log_after_nonempty: "0 < limit \<Longrightarrow> log_after limit ms m r now k \<noteq> []"
  by (auto simp: log_after_def zadd_def)

lemma log_script_runs:
  assumes "0 < limit" and "limit \<le> 10 ^ 14" and "0 \<le> ms" "ms \<le> 10 ^ 14"
    and "\<And>e. rd_keys r k = Some e \<Longrightarrow> zset_ok e"
  shows "sliding_window_log_script k (fint limit) (fint ms) m r now
    = Some (log_reply limit ms (kept ms r now k) (log_after limit ms m r now k) (lua_millis now),
            r\<lparr>rd_keys := (rd_keys r)(k \<mapsto> log_entry ms (log_after limit ms m r now k) now)\<rparr>)"
proof -
  have fi: "fint limit = of_int limit" "fint ms = of_int ms" using assms(1-4) by (simp_all add: fint_exact)
  have noh: "redis_get r now k \<noteq> Some (RHash h)" for h
    using assms(5) by (auto simp: redis_get_def zset_ok_def split: option.splits if_splits)
  define zs where "zs = kept ms r now k"
  have lt: "(of_nat n :: rat) < of_int limit \<longleftrightarrow> int n < limit" "(of_int limit :: rat) < of_nat n \<longleftrightarrow> limit < int n"
    "(of_int limit :: rat) < of_nat n + 1 \<longleftrightarrow> limit < int n + 1" for n
    using of_int_less_iff [of "int n" limit, where 'a = rat] of_int_less_iff [of limit "int n", where 'a = rat]
      of_int_less_iff [of limit "int n + 1", where 'a = rat] by simp_all
  have full: "zs \<noteq> []" if "\<not> int (length zs) < limit" using that assms(1) by auto
  have ne: "log_after limit ms m r now k \<noteq> []" by (rule log_after_nonempty [OF assms(1)])
  have after: "log_after limit ms m r now k = (if int (length zs) < limit then zadd (lua_millis now) m zs else zs)"
    by (simp add: log_after_def zs_def)
  have kept: "filter (\<lambda>(_, s). fsub (lua_millis now) (of_int ms) < s)
      (case redis_get r now k of Some (RZSet z) \<Rightarrow> z | _ \<Rightarrow> []) = zs"
    by (simp add: zs_def kept_def zset_at_def)
  show ?thesis
    using noh ne full
    unfolding sliding_window_log_script_def fi log_reply_def log_entry_def Let_def after zs_def [symmetric]
    by (cases "redis_get r now k"; cases "int (length zs) < limit")
      (auto simp: kept [symmetric] lt redis_set_def split: redis_value.splits)
qed

section \<open>The contract\<close>

lemma until_clear_range:
  assumes "s \<le> 25 * 10 ^ 11 + 1" and "- 1 \<le> now" and "0 \<le> ms" "ms \<le> 25 * 10 ^ 11"
  shows "0 \<le> until_clear s (of_int ms) now" "until_clear s (of_int ms) now \<le> 6 * 10 ^ 12"
proof -
  have ms: "(of_int ms :: rat) \<le> 25 * 10 ^ 11"
  proof -
    have "(of_int ms :: rat) \<le> of_int (25 * 10 ^ 11)" using assms(4) by (simp only: of_int_le_iff)
    then show ?thesis by simp
  qed
  have "fadd s (of_int ms) \<le> of_int (50 * 10 ^ 11 + 1)"
    unfolding fadd_def using assms(1) ms by (intro f64_le is_f64_int) simp_all
  then have "fsub (fadd s (of_int ms)) now \<le> of_int (50 * 10 ^ 11 + 2)"
    unfolding fsub_def using assms(2) by (intro f64_le is_f64_int) simp_all
  then show "until_clear s (of_int ms) now \<le> 6 * 10 ^ 12" by (simp add: until_clear_def Let_def)
qed (simp add: until_clear_def Let_def)

lemma millis_small:
  assumes "0 \<le> w" and "w \<le> 8 * 10 ^ 12"
  shows "0 \<le> millis (lua_num_of_text w)"
proof -
  define b where "b = lua_num_of_text w"
  have "\<bar>b - w\<bar> \<le> 1"
    using order_trans [OF lua_text_err [OF assms(1)] divide_right_mono [OF assms(2), of "10 ^ 13"]] by (simp add: b_def)
  then have b: "0 \<le> b" "b \<le> 8 * 10 ^ 12 + 1"
    using lua_text_nonneg [OF assms(1)] assms(2) by (simp add: b_def, linarith)
  have "fmul b (fint Millisecond) \<le> b * 1000000 * (1 + 1 / 2 ^ 53)"
    using b(1) f64_upper [of "b * 1000000"] by (simp add: fmul_def fint_exact)
  also have "\<dots> \<le> (8 * 10 ^ 12 + 1) * 1000000 * (1 + 1 / 2 ^ 53)" using b(2) by (intro mult_right_mono) simp_all
  also have "\<dots> \<le> 9 * 10 ^ 18" by simp
  finally have "\<lfloor>fmul b (fint Millisecond)\<rfloor> \<le> max_int64" by (simp add: max_int64_def floor_le_iff)
  moreover have "0 \<le> fmul b (fint Millisecond)" using b(1) by (simp add: fmul_def fint_exact f64_nonneg)
  ultimately show ?thesis
    by (simp add: millis_def b_def [symmetric] f2i_def trunc_rat_def is_int64_def min_int64_def Let_def)
qed

lemma Milliseconds_range:
  assumes "0 < window" and "window \<le> 2 ^ 61"
  shows "0 \<le> Milliseconds window" "Milliseconds window \<le> 25 * 10 ^ 11"
    "Milliseconds window * 1000000 \<le> window" "window < Milliseconds window * 1000000 + 1000000"
proof -
  have m: "Milliseconds window = window div 1000000" using assms(1) by (simp add: Milliseconds_def go_div_nonneg)
  then show "0 \<le> Milliseconds window" using assms(1) by (simp add: pos_imp_zdiv_nonneg_iff)
  show "Milliseconds window * 1000000 \<le> window" "window < Milliseconds window * 1000000 + 1000000"
    unfolding m using minus_mod_eq_div_mult [of window 1000000] pos_mod_bound [of 1000000 window]
      pos_mod_sign [of 1000000 window] by simp_all
  then show "Milliseconds window \<le> 25 * 10 ^ 11" using assms(2) by simp
qed

lemma log_reply_decodes:
  assumes "0 < limit" "limit \<le> 10 ^ 14" and ms: "0 \<le> ms" "ms \<le> 25 * 10 ^ 11"
    and zs: "\<forall>(m, s) \<in> set zs. s \<le> 25 * 10 ^ 11 + 1" and zs': "\<forall>(m, s) \<in> set zs'. s \<le> 25 * 10 ^ 11 + 1"
    and "zs' \<noteq> []" and "- 1 \<le> now" and d: "decode (log_reply limit ms zs zs' now) limit = Inr res"
  shows "wf_result limit res \<and> (Allowed res \<longleftrightarrow> int (length zs) < limit)"
proof -
  have one: "lua_num_of_text 1 = 1" "lua_num_of_text 0 = 0" "millis 0 = 0"
    using lua_text_int [of 1] lua_text_int [of 0] by (simp_all add: millis_def)
  have le: "0 \<le> millis (lua_num_of_text (until_clear s (of_int ms) now))" if "s \<le> 25 * 10 ^ 11 + 1" for s
    using until_clear_range [OF that \<open>- 1 \<le> now\<close> ms] by (intro millis_small) linarith+
  have last: "last_score zs' \<le> 25 * 10 ^ 11 + 1" using zs' \<open>zs' \<noteq> []\<close> by (auto simp: last_score_def)
  have first: "zs \<noteq> [] \<Longrightarrow> first_score zs \<le> 25 * 10 ^ 11 + 1"
    using zs by (auto simp: first_score_def Min_le_iff neq_Nil_conv)
  have rem: "f2i (lua_num_of_text (of_int n)) = n" if "0 \<le> n" "n \<le> limit" for n
  proof -
    have n: "n \<le> 10 ^ 14" using that(2) assms(2) by (rule order_trans)
    then have "lua_num_of_text (of_int n) = of_int n" using that(1) by (intro lua_text_int) simp
    moreover have "(of_int n :: rat) \<le> of_int (2 ^ 53)" using n by (simp only: of_int_le_iff) simp
    ultimately show ?thesis using that(1) by (simp add: f2i_in_range)
  qed
  show ?thesis
  proof (cases "int (length zs) < limit")
    case True
    then have "res = \<lparr>Allowed = True, Limit = limit, Remaining = limit - (int (length zs) + 1),
        ResetAfter = millis (lua_num_of_text (until_clear (last_score zs') (of_int ms) now)), RetryAfter = 0\<rparr>"
      using d rem [of "limit - (int (length zs) + 1)"] by (simp add: log_reply_def decode_tostring one Let_def max_def)
    then show ?thesis using True le [OF last] by (simp add: wf_result_def)
  next
    case False
    then have "zs \<noteq> []" using assms(1) by auto
    have none: "max 0 (limit - int (length zs)) = 0" and f2i_0: "f2i 0 = 0"
      using False rem [of 0] one assms(1) by simp_all
    have "res = \<lparr>Allowed = False, Limit = limit, Remaining = 0,
        ResetAfter = millis (lua_num_of_text (until_clear (last_score zs') (of_int ms) now)),
        RetryAfter = millis (lua_num_of_text (until_clear (first_score zs) (of_int ms) now))\<rparr>"
      using False d by (simp add: log_reply_def decode_tostring one f2i_0 none Let_def)
    then show ?thesis using False le [OF last] le [OF first [OF \<open>zs \<noteq> []\<close>]] assms(1) by (simp add: wf_result_def)
  qed
qed

definition next_member :: "(nat \<Rightarrow> nat) \<Rightarrow> (nat \<Rightarrow> int) \<Rightarrow> log_fleet \<Rightarrow> string" where
  "next_member who wall f =
     (let c = rd_calls (lf_redis f) in member_id (wall c) ((rsl_seq (lf_procs f (who c)) + 1) mod 2 ^ 64))"

text \<open>What a call leaves for its key when its script runs.\<close>

definition fleet_entry :: "(nat \<Rightarrow> nat) \<Rightarrow> (nat \<Rightarrow> int) \<Rightarrow> string \<Rightarrow> int \<Rightarrow> duration \<Rightarrow> log_fleet \<Rightarrow> time \<Rightarrow> string \<Rightarrow> redis_entry"
  where
  "fleet_entry who wall prefix limit window f now key =
     (let ms = Milliseconds window in
      log_entry ms (log_after limit ms (next_member who wall f) (lf_redis f) now (prefix_key prefix key)) now)"

lemma fleet_cases:
  assumes cfg: "fleet_config prefix limit window f" and ok: "zsets_ok prefix (lf_redis f)"
  shows "\<exists>r' procs'.
    snd (fleet_Allow who wall f now key) = \<lparr>lf_redis = r', lf_procs = procs'\<rparr>
    \<and> rd_calls r' = Suc (rd_calls (lf_redis f)) \<and> rd_net r' = rd_net (lf_redis f)
    \<and> procs' = (let p = who (rd_calls (lf_redis f)) in
        (lf_procs f)(p := (lf_procs f p)\<lparr>rsl_seq := (rsl_seq (lf_procs f p) + 1) mod 2 ^ 64\<rparr>))
    \<and> (case rd_net (lf_redis f) (rd_calls (lf_redis f)) of
         Refused \<Rightarrow> rd_keys r' = rd_keys (lf_redis f) \<and> fst (fleet_Allow who wall f now key) = Inl (ScriptError ''rate limiter script'')
       | Unanswered \<Rightarrow>
           rd_keys r' = (rd_keys (lf_redis f))(prefix_key prefix key \<mapsto> fleet_entry who wall prefix limit window f now key)
           \<and> fst (fleet_Allow who wall f now key) = Inl (ScriptError ''rate limiter script'')
       | Runs \<Rightarrow>
           rd_keys r' = (rd_keys (lf_redis f))(prefix_key prefix key \<mapsto> fleet_entry who wall prefix limit window f now key)
           \<and> fst (fleet_Allow who wall f now key) =
               (let ms = Milliseconds window; k = prefix_key prefix key in
                decode (log_reply limit ms (kept ms (lf_redis f) now k)
                          (log_after limit ms (next_member who wall f) (lf_redis f) now k) (lua_millis now)) limit))"
proof -
  define r where "r = lf_redis f"
  define r0 where "r0 = r\<lparr>rd_calls := Suc (rd_calls r)\<rparr>"
  define p where "p = who (rd_calls r)"
  define k where "k = prefix_key prefix key"
  define ms where "ms = Milliseconds window"
  have c: "0 < limit" "limit \<le> 10 ^ 14" "0 < window" "window \<le> 2 ^ 61" "rsl_limit (lf_procs f p) = limit"
    "rsl_window (lf_procs f p) = window" "log_key (lf_procs f p) key = k"
    using cfg by (simp_all add: fleet_config_def log_key_def k_def prefix_key_def)
  have m: "0 \<le> ms" "ms \<le> 10 ^ 14" using Milliseconds_range [OF c(3,4)] by (simp_all add: ms_def)
  define S where "S = sliding_window_log_script k (fint limit) (fint ms) (next_member who wall f)"
  define s' where "s' = (lf_procs f p)\<lparr>rsl_seq := (rsl_seq (lf_procs f p) + 1) mod 2 ^ 64\<rparr>"
  have zs: "zset_ok e" if "rd_keys r0 k = Some e" for e using ok that by (simp add: zsets_ok_def r0_def r_def k_def)
  have same: "kept ms r0 now k = kept ms r now k" "\<And>m. log_after limit ms m r0 now k = log_after limit ms m r now k"
    by (simp_all add: kept_def log_after_def zset_at_def redis_get_def r0_def)
  have run: "S r0 now = Some (log_reply limit ms (kept ms r now k) (log_after limit ms (next_member who wall f) r now k)
      (lua_millis now), r0\<lparr>rd_keys := (rd_keys r)(k \<mapsto> fleet_entry who wall prefix limit window f now key)\<rparr>)"
    using log_script_runs [where r = r0 and k = k and m = "next_member who wall f" and now = now, OF c(1,2) m zs]
    unfolding same S_def fleet_entry_def Let_def ms_def [symmetric] k_def [symmetric] r_def [symmetric]
    by (simp add: r0_def)
  have mem: "member_id (wall (rd_calls r)) ((rsl_seq (lf_procs f p) + 1) mod 2 ^ 64) = next_member who wall f"
    unfolding next_member_def r_def p_def Let_def ..
  have allow: "fleet_Allow who wall f now key = (let (res, r') = runScript S limit r now in
      (res, \<lparr>lf_redis = r', lf_procs = (lf_procs f)(p := s')\<rparr>))"
    unfolding fleet_Allow_def RedisSlidingWindowLog_Allow_def Let_def r_def [symmetric] p_def [symmetric] c mem
      ms_def [symmetric] S_def [symmetric] s'_def [symmetric] by (simp split: prod.split)
  have s': "(let p = who (rd_calls (lf_redis f)) in
        (lf_procs f)(p := (lf_procs f p)\<lparr>rsl_seq := (rsl_seq (lf_procs f p) + 1) mod 2 ^ 64\<rparr>)) = (lf_procs f)(p := s')"
    unfolding Let_def s'_def p_def r_def ..
  show ?thesis
    unfolding allow s' using run
    by (cases "rd_net r (rd_calls r)")
      (simp_all add: runScript_def r0_def r_def [symmetric] ms_def [symmetric] k_def [symmetric] Let_def)
qed

lemma fleet_fields:
  assumes cfg: "fleet_config prefix limit window f" and ok: "zsets_ok prefix (lf_redis f)"
    and f': "f' = snd (fleet_Allow who wall f now key)"
  shows "rd_calls (lf_redis f') = Suc (rd_calls (lf_redis f))"
    and "rd_net (lf_redis f') = rd_net (lf_redis f)"
    and "lf_procs f' = (let p = who (rd_calls (lf_redis f)) in
        (lf_procs f)(p := (lf_procs f p)\<lparr>rsl_seq := (rsl_seq (lf_procs f p) + 1) mod 2 ^ 64\<rparr>))"
    and "rd_keys (lf_redis f') = (if rd_net (lf_redis f) (rd_calls (lf_redis f)) = Refused then rd_keys (lf_redis f)
        else (rd_keys (lf_redis f))(prefix_key prefix key \<mapsto> fleet_entry who wall prefix limit window f now key))"
    and "fst (fleet_Allow who wall f now key) = (if rd_net (lf_redis f) (rd_calls (lf_redis f)) = Runs then
        (let ms = Milliseconds window; k = prefix_key prefix key in
         decode (log_reply limit ms (kept ms (lf_redis f) now k)
                   (log_after limit ms (next_member who wall f) (lf_redis f) now k) (lua_millis now)) limit)
        else Inl (ScriptError ''rate limiter script''))"
  using fleet_cases [OF cfg ok, of who wall now key] unfolding f'
  by (cases "rd_net (lf_redis f) (rd_calls (lf_redis f))"; auto)+

end
