(* ===== verification/RedisCeiling.thy ===== *)
theory RedisCeiling
  imports RedisFleet
begin

text \<open>
  The shared sliding window log is a limiter, and its ceiling is exact across processes: the log a script
  keeps accounts for every admission a trailing window can still see.
\<close>

section \<open>The shared log is a limiter\<close>

lemma zset_at_range:
  assumes "zsets_ok prefix r"
  shows "\<forall>(m, s) \<in> set (zset_at r now (prefix_key prefix key)). - 1 \<le> s \<and> s \<le> 25 * 10 ^ 11 + 1"
proof (cases "rd_keys r (prefix_key prefix key)")
  case (Some e)
  with assms have "zset_ok e" by (auto simp: zsets_ok_def)
  with Some show ?thesis
    by (auto simp: zset_at_def redis_get_def zset_ok_def split: redis_value.splits)
qed (simp add: zset_at_def redis_get_def)

lemma log_ranges:
  assumes "zsets_ok prefix r" and "log_us (micros now)"
  shows "\<forall>(m, s) \<in> set (kept ms r now (prefix_key prefix key)). - 1 \<le> s \<and> s \<le> 25 * 10 ^ 11 + 1"
    and "\<forall>(m, s) \<in> set (log_after limit ms m' r now (prefix_key prefix key)). - 1 \<le> s \<and> s \<le> 25 * 10 ^ 11 + 1"
  using zset_at_range [OF assms(1), of now key] score_range [OF assms(2)]
  by (auto simp: kept_def log_after_def zadd_def lua_millis_def)

lemma prefix_key_inject [simp]: "prefix_key p k = prefix_key p k' \<longleftrightarrow> k = k'"
  by (simp add: prefix_key_def)

lemma fleet_Allow_inv:
  assumes cfg: "fleet_config prefix limit window f" and ok: "zsets_ok prefix (lf_redis f)"
    and t: "log_us (micros now)"
  shows "fleet_config prefix limit window (snd (fleet_Allow who wall f now key))
    \<and> zsets_ok prefix (lf_redis (snd (fleet_Allow who wall f now key)))"
proof -
  let ?e = "fleet_entry who wall prefix limit window f now key"
  have "zset_ok ?e"
    using log_ranges(2) [OF ok t] by (auto simp: zset_ok_def fleet_entry_def log_entry_def Let_def)
  then show ?thesis
    using fleet_fields(3,4) [OF cfg ok refl, of who wall now key] cfg ok
    by (auto simp: fleet_config_def zsets_ok_def Let_def)
qed

lemma fleet_Allow_wf:
  assumes cfg: "fleet_config prefix limit window f" and ok: "zsets_ok prefix (lf_redis f)"
    and t: "log_us (micros now)" and r: "fst (fleet_Allow who wall f now key) = Inr res"
  shows "wf_result limit res
    \<and> (Allowed res \<longleftrightarrow> int (length (kept (Milliseconds window) (lf_redis f) now (prefix_key prefix key))) < limit)"
proof -
  define k where "k = prefix_key prefix key"
  define ms where "ms = Milliseconds window"
  have c: "0 < limit" "limit \<le> 10 ^ 14" "0 < window" "window \<le> 2 ^ 61" using cfg by (simp_all add: fleet_config_def)
  note m = Milliseconds_range(1,2) [OF c(3,4)]
  have "decode (log_reply limit ms (kept ms (lf_redis f) now k)
          (log_after limit ms (next_member who wall f) (lf_redis f) now k) (lua_millis now)) limit = Inr res"
    using fleet_fields(5) [OF cfg ok refl, of who wall now key] r by (simp add: Let_def ms_def k_def split: if_splits)
  from log_reply_decodes [OF c(1,2) m [folded ms_def] _ _ log_after_nonempty [OF c(1)] _ this]
  show ?thesis using log_ranges [OF ok t] score_range [OF t]
    by (fastforce simp: k_def ms_def lua_millis_def)
qed

lemma fleet_Allow_frame:
  assumes "fleet_config prefix limit window f" and "zsets_ok prefix (lf_redis f)" and "key' \<noteq> key"
  shows "rd_keys (lf_redis (snd (fleet_Allow who wall f now key))) (prefix_key prefix key')
    = rd_keys (lf_redis f) (prefix_key prefix key')"
  using fleet_fields(4) [OF assms(1,2) refl, of who wall now key] assms(3) by simp

section \<open>Members are new\<close>

definition distinct_clocks :: "(nat \<Rightarrow> nat) \<Rightarrow> (nat \<Rightarrow> int) \<Rightarrow> bool" where
  "distinct_clocks who wall \<longleftrightarrow> (\<forall>i j. who i \<noteq> who j \<longrightarrow> wall i \<noteq> wall j)"

definition earlier :: "(nat \<Rightarrow> nat) \<Rightarrow> nat \<Rightarrow> nat \<Rightarrow> nat" where
  "earlier who p c = card {j. j < c \<and> who j = p}"

definition used_member :: "(nat \<Rightarrow> nat) \<Rightarrow> (nat \<Rightarrow> int) \<Rightarrow> nat \<Rightarrow> string" where
  "used_member who wall i = member_id (wall i) (Suc (earlier who (who i) i))"

lemma earlier_Suc: "earlier who p (Suc c) = earlier who p c + (if who c = p then 1 else 0)"
proof -
  have "{j. j < Suc c \<and> who j = p} = {j. j < c \<and> who j = p} \<union> (if who c = p then {c} else {})"
    by (auto simp: less_Suc_eq)
  then show ?thesis by (simp add: earlier_def)
qed

lemma earlier_le: "earlier who p c \<le> c"
proof (induction c)
  case (Suc c)
  then show ?case by (simp add: earlier_Suc)
qed (simp add: earlier_def)

lemma earlier_mono: "i < j \<Longrightarrow> who i = p \<Longrightarrow> earlier who p i < earlier who p j"
proof -
  assume "i < j" "who i = p"
  then have "insert i {l. l < i \<and> who l = p} \<subseteq> {l. l < j \<and> who l = p}" by auto
  then have "card (insert i {l. l < i \<and> who l = p}) \<le> card {l. l < j \<and> who l = p}" by (intro card_mono) auto
  then show ?thesis by (simp add: earlier_def)
qed

lemma used_member_inj: "distinct_clocks who wall \<Longrightarrow> used_member who wall i = used_member who wall j \<Longrightarrow> i = j"
  using earlier_mono [of i j who "who i"] earlier_mono [of j i who "who i"]
  by (auto simp: used_member_def member_id_inj distinct_clocks_def) (metis less_irrefl linorder_neqE_nat)

definition fleet_members :: "(nat \<Rightarrow> nat) \<Rightarrow> (nat \<Rightarrow> int) \<Rightarrow> string \<Rightarrow> log_fleet \<Rightarrow> bool" where
  "fleet_members who wall prefix f \<longleftrightarrow>
     (\<forall>p. rsl_seq (lf_procs f p) = earlier who p (rd_calls (lf_redis f)))
     \<and> (\<forall>key e zs. rd_keys (lf_redis f) (prefix_key prefix key) = Some e \<longrightarrow> re_value e = RZSet zs \<longrightarrow>
          fst ` set zs \<subseteq> used_member who wall ` {..< rd_calls (lf_redis f)})"

lemma zset_at_members:
  assumes "fleet_members who wall prefix f"
  shows "fst ` set (zset_at (lf_redis f) now (prefix_key prefix key)) \<subseteq> used_member who wall ` {..< rd_calls (lf_redis f)}"
proof (cases "rd_keys (lf_redis f) (prefix_key prefix key)")
  case (Some e)
  show ?thesis
  proof (cases "re_value e")
    case (RZSet zs)
    then have "fst ` set zs \<subseteq> used_member who wall ` {..< rd_calls (lf_redis f)}"
      using assms Some unfolding fleet_members_def by blast
    with Some RZSet show ?thesis by (simp add: zset_at_def redis_get_def)
  qed (simp add: Some zset_at_def redis_get_def)
qed (simp add: zset_at_def redis_get_def)

lemma next_member_new:
  assumes "fleet_members who wall prefix f" and "rd_calls (lf_redis f) + 1 < 2 ^ 64"
  shows "next_member who wall f = used_member who wall (rd_calls (lf_redis f))"
  using assms earlier_le [of who "who (rd_calls (lf_redis f))" "rd_calls (lf_redis f)"]
  by (simp add: next_member_def used_member_def fleet_members_def Let_def)

lemma fleet_members_step:
  assumes cfg: "fleet_config prefix limit window f" and ok: "zsets_ok prefix (lf_redis f)"
    and m: "fleet_members who wall prefix f" and c: "rd_calls (lf_redis f) + 1 < 2 ^ 64"
  shows "fleet_members who wall prefix (snd (fleet_Allow who wall f now key))"
proof -
  define n where "n = rd_calls (lf_redis f)"
  let ?k = "prefix_key prefix key"
  have seq: "(rsl_seq (lf_procs f p) + 1) mod 2 ^ 64 = Suc (earlier who p n)" for p
    using m c earlier_le [of who p n] by (simp add: fleet_members_def n_def)
  have old: "used_member who wall ` {..< n} \<subseteq> used_member who wall ` {..< Suc n}" by auto
  have new: "fst ` set zs \<subseteq> used_member who wall ` {..< Suc n}"
    if "re_value (fleet_entry who wall prefix limit window f now key) = RZSet zs" for zs
  proof -
    have "fst ` set zs \<subseteq> insert (next_member who wall f) (fst ` set (zset_at (lf_redis f) now ?k))"
      using that by (auto simp: fleet_entry_def log_entry_def log_after_def zadd_def kept_def Let_def split: if_splits)
    then show ?thesis using zset_at_members [OF m, of now key] next_member_new [OF m c] old
      by (auto simp: n_def [symmetric] lessThan_Suc)
  qed
  note F = fleet_fields [OF cfg ok refl, of who wall now key, folded n_def]
  show ?thesis
    unfolding fleet_members_def F(1)
  proof (intro conjI allI impI)
    show "rsl_seq (lf_procs (snd (fleet_Allow who wall f now key)) p) = earlier who p (Suc n)" for p
      using m seq by (simp add: F(3) earlier_Suc Let_def fleet_members_def n_def [symmetric])
    show "fst ` set zs \<subseteq> used_member who wall ` {..< Suc n}"
      if "rd_keys (lf_redis (snd (fleet_Allow who wall f now key))) (prefix_key prefix key') = Some e"
        "re_value e = RZSet zs" for key' e zs
    proof (cases "key' = key \<and> rd_net (lf_redis f) n \<noteq> Refused")
      case True
      then show ?thesis using that new by (simp add: F(4))
    next
      case False
      then have "rd_keys (lf_redis f) (prefix_key prefix key') = Some e" using that by (auto simp: F(4) split: if_splits)
      then show ?thesis using m that(2) old unfolding fleet_members_def n_def by blast
    qed
  qed
qed

section \<open>The log and the history\<close>

lemma hist_ok_keep:
  assumes "hist_ok limit w T H L" and "\<And>x. x \<in> set L \<Longrightarrow> T - w < x \<Longrightarrow> P x"
  shows "hist_ok limit w T H (filter P L)"
proof -
  have "filter ((<) c) (filter P L) = filter ((<) c) L" if "T - w \<le> c" for c
    unfolding filter_filter using that assms(2) by (intro filter_cong) auto
  with assms(1) show ?thesis by (simp add: hist_ok_def)
qed

lemma hist_ok_add:
  assumes ok: "hist_ok limit w T H L" and "int (length L) < limit" and "0 < w"
  shows "hist_ok limit w T (H @ [T]) (L @ [T])"
proof -
  have "length (filter ((<) (T - w)) L) \<le> length L" by simp
  then have "int (length (filter ((<) (T - w)) L)) < limit" using assms(2) by linarith
  from hist_ok_grant [OF ok this assms(3)]
  have g: "hist_ok limit w T (H @ [T]) (filter ((<) (T - w)) L @ [T])" .
  have "filter ((<) c) (filter ((<) (T - w)) L) = filter ((<) c) L" if "T - w \<le> c" for c
    unfolding filter_filter using that by (intro filter_cong) auto
  with g show ?thesis by (simp add: hist_ok_def)
qed

lemma hist_ok_gone:
  assumes "hist_ok limit w T H L" and "\<And>x. x \<in> set L \<Longrightarrow> x \<le> T - w"
  shows "hist_ok limit w T H []"
proof -
  have "filter ((<) (T - w)) L = []" using assms(2) by (simp add: filter_empty_conv not_less)
  with hist_ok_prune [OF assms(1)] show ?thesis by simp
qed

text \<open>The entry of a key accounts for the history \<open>H\<close> of the evaluations that added to it.\<close>

definition entry_tracks :: "int \<Rightarrow> int \<Rightarrow> int \<Rightarrow> int list \<Rightarrow> redis_entry \<Rightarrow> bool" where
  "entry_tracks limit ms T H e \<longleftrightarrow>
     (\<exists>zs us. re_value e = RZSet zs \<and> map snd zs = map score us \<and> (\<forall>u \<in> set us. log_us u)
        \<and> hist_ok limit (ms * 1000) T H us
        \<and> (\<forall>t. T \<le> micros t \<and> re_when e < millis_of t \<longrightarrow> (\<forall>u \<in> set us. u \<le> micros t - ms * 1000)))"

definition key_tracks :: "int \<Rightarrow> int \<Rightarrow> int \<Rightarrow> int list \<Rightarrow> redis_entry option \<Rightarrow> bool" where
  "key_tracks limit ms T H o0 \<longleftrightarrow>
     (case o0 of None \<Rightarrow> hist_ok limit (ms * 1000) T H [] | Some e \<Rightarrow> entry_tracks limit ms T H e)"

lemma key_tracks_later: "key_tracks limit ms T H o0 \<Longrightarrow> T \<le> T' \<Longrightarrow> key_tracks limit ms T' H o0"
proof (cases o0)
  case (Some e)
  assume "key_tracks limit ms T H o0" "T \<le> T'"
  with Some obtain zs us where "re_value e = RZSet zs" "map snd zs = map score us" "\<forall>u \<in> set us. log_us u"
    "hist_ok limit (ms * 1000) T H us"
    "\<And>t. T \<le> micros t \<Longrightarrow> re_when e < millis_of t \<Longrightarrow> \<forall>u \<in> set us. u \<le> micros t - ms * 1000"
    by (auto simp: key_tracks_def entry_tracks_def)
  with \<open>T \<le> T'\<close> show ?thesis unfolding Some key_tracks_def entry_tracks_def option.case
    by (intro exI [of _ zs] exI [of _ us]) (simp add: hist_ok_later)
qed (simp add: key_tracks_def hist_ok_later)

lemma tracks_visible:
  assumes "key_tracks limit ms (micros now) H (rd_keys r k)"
  shows "\<exists>us. map snd (zset_at r now k) = map score us \<and> (\<forall>u \<in> set us. log_us u)
    \<and> hist_ok limit (ms * 1000) (micros now) H us"
proof (cases "rd_keys r k")
  case None
  with assms show ?thesis by (intro exI [of _ "[]"]) (simp add: zset_at_def redis_get_def key_tracks_def)
next
  case (Some e)
  with assms obtain zs us where e: "re_value e = RZSet zs" "map snd zs = map score us" "\<forall>u \<in> set us. log_us u"
    "hist_ok limit (ms * 1000) (micros now) H us"
    "re_when e < millis_of now \<Longrightarrow> \<forall>u \<in> set us. u \<le> micros now - ms * 1000"
    by (auto simp: key_tracks_def entry_tracks_def)
  show ?thesis
  proof (cases "millis_of now \<le> re_when e")
    case True
    with Some e show ?thesis by (intro exI [of _ us]) (simp add: zset_at_def redis_get_def)
  next
    case False
    then have "hist_ok limit (ms * 1000) (micros now) H []" using e(4,5) by (intro hist_ok_gone [OF e(4)]) auto
    with Some False show ?thesis by (intro exI [of _ "[]"]) (simp add: zset_at_def redis_get_def)
  qed
qed

lemma filter_scores:
  assumes "map snd zs = map score us"
  shows "map snd (filter (\<lambda>(_, s). c < s) zs) = map score (filter (\<lambda>u. c < score u) us)"
proof -
  have "map snd (filter (\<lambda>(_, s). c < s) zs) = filter ((<) c) (map snd zs)"
    by (simp add: filter_map comp_def case_prod_unfold)
  also have "\<dots> = map score (filter (\<lambda>u. c < score u) us)" by (simp add: assms filter_map comp_def)
  finally show ?thesis .
qed

text \<open>What the script keeps still accounts for the history, and so does what it adds.\<close>

lemma tracks_kept:
  assumes "key_tracks limit ms (micros now) H (rd_keys r k)" and now: "log_us (micros now)"
    and ms: "0 \<le> ms" "ms \<le> 25 * 10 ^ 11"
  shows "\<exists>us. map snd (kept ms r now k) = map score us \<and> (\<forall>u \<in> set us. log_us u)
    \<and> hist_ok limit (ms * 1000) (micros now) H us"
proof -
  obtain us where us: "map snd (zset_at r now k) = map score us" "\<forall>u \<in> set us. log_us u"
    "hist_ok limit (ms * 1000) (micros now) H us" using tracks_visible [OF assms(1)] by blast
  let ?P = "\<lambda>u. fsub (lua_millis now) (of_int ms) < score u"
  have "hist_ok limit (ms * 1000) (micros now) H (filter ?P us)"
    using us(2) score_kept [OF _ now _ ms] by (intro hist_ok_keep [OF us(3)]) (auto simp: lua_millis_def)
  then show ?thesis using us filter_scores [OF us(1)] by (intro exI [of _ "filter ?P us"]) (auto simp: kept_def)
qed

text \<open>An expired key held nothing that still counts.\<close>

lemma expired_clear:
  assumes zs: "map snd zs = map score us" and us: "\<forall>u \<in> set us. log_us u" and now: "log_us (micros now)"
    and ms: "0 \<le> ms" "ms \<le> 25 * 10 ^ 11" and late: "re_when (log_entry ms zs now) < millis_of t" and u: "u \<in> set us"
  shows "u \<le> micros t - ms * 1000"
proof -
  define s where "s = score u"
  define R where "R = until_clear (last_score zs) (of_int ms) (lua_millis now)"
  have msr: "(0 :: rat) \<le> of_int ms" "(of_int ms :: rat) \<le> 25 * 10 ^ 11"
  proof -
    have "(of_int ms :: rat) \<le> of_int (25 * 10 ^ 11)" using ms(2) by (simp only: of_int_le_iff)
    then show "(of_int ms :: rat) \<le> 25 * 10 ^ 11" by simp
  qed (use ms(1) in simp)
  have "s \<in> snd ` set zs" using zs u by (metis s_def image_eqI list.set_map)
  then have s: "s \<le> last_score zs" by (simp add: last_score_def)
  have small: "\<bar>f64 x - x\<bar> \<le> 1" if "\<bar>x\<bar> \<le> 10 ^ 13" for x
    using order_trans [OF f64_err_abs [of x] divide_right_mono [OF that, of "2 ^ 53"]] by simp
  have sr: "- 1 \<le> s" "s \<le> 25 * 10 ^ 11 + 1" "- 1 \<le> lua_millis now" "lua_millis now \<le> 25 * 10 ^ 11 + 1"
    using score_range us u now by (auto simp: s_def lua_millis_def)
  have "s + of_int ms - 1 \<le> fadd s (of_int ms)" "\<bar>fadd s (of_int ms)\<bar> \<le> 6 * 10 ^ 12"
    using small [of "s + of_int ms"] sr msr by (auto simp: fadd_def abs_le_iff)
  then have "s + of_int ms - lua_millis now - 2 \<le> fsub (fadd s (of_int ms)) (lua_millis now)"
    using small [of "fadd s (of_int ms) - lua_millis now"] sr by (auto simp: fsub_def abs_le_iff)
  also have "\<dots> \<le> fsub (fadd (last_score zs) (of_int ms)) (lua_millis now)"
    using s by (simp add: fadd_def fsub_def f64_mono)
  also have "\<dots> \<le> R" by (simp add: R_def until_clear_def Let_def)
  also have "\<dots> \<le> of_int (lua_ceil R)" by (simp add: lua_ceil_def)
  finally have R: "s + of_int ms - lua_millis now - 2 \<le> of_int (lua_ceil R)" .
  have "(lua_ceil R + 1000) * 1000000 \<le> t - now"
    using late by (intro millis_gap) (simp add: log_entry_def R_def)
  then have "micros now + (lua_ceil R + 1000) * 1000 \<le> micros t"
    using zdiv_mono1 [of "now + (lua_ceil R + 1000) * 1000000" t 1000]
      div_mult_self1 [of 1000 now "(lua_ceil R + 1000) * 1000"] by (simp add: micros_def)
  then have "(of_int (micros now + (lua_ceil R + 1000) * 1000) :: rat) \<le> of_int (micros t)" by (simp only: of_int_le_iff)
  then have "of_int (micros now) + 1000 * of_int (lua_ceil R) + 1000000 \<le> (of_int (micros t) :: rat)"
    by (simp add: algebra_simps)
  moreover have "of_int u / 1000 - s \<le> 3 / 10000" 
    using abs_le_D1 [OF score_err [OF us [rule_format, OF u]]] abs_le_D2 [OF score_err [OF us [rule_format, OF u]]]
    unfolding s_def by linarith
  moreover have "lua_millis now - of_int (micros now) / 1000 \<le> 3 / 10000"
    using abs_le_D1 [OF score_err [OF now]] by (simp add: lua_millis_def)
  ultimately have "(of_int u :: rat) \<le> of_int (micros t) - 1000 * of_int ms" using R by linarith
  then have "(of_int u :: rat) \<le> of_int (micros t - ms * 1000)" by (simp add: mult.commute)
  then show ?thesis by (simp only: of_int_le_iff)
qed


section \<open>The ceiling\<close>

lemma zadd_new: "member \<notin> fst ` set zs \<Longrightarrow> zadd sc member zs = zs @ [(member, sc)]"
  by (force simp: zadd_def filter_id_conv)

definition fleet_ok :: "(nat \<Rightarrow> nat) \<Rightarrow> (nat \<Rightarrow> int) \<Rightarrow> string \<Rightarrow> int \<Rightarrow> duration \<Rightarrow> log_fleet \<Rightarrow> bool" where
  "fleet_ok who wall prefix limit window f \<longleftrightarrow>
     fleet_config prefix limit window f \<and> zsets_ok prefix (lf_redis f) \<and> fleet_members who wall prefix f"

lemma fleet_ok_step:
  "fleet_ok who wall prefix limit window f \<Longrightarrow> rd_calls (lf_redis f) + 1 < 2 ^ 64 \<Longrightarrow> log_us (micros now)
    \<Longrightarrow> fleet_ok who wall prefix limit window (snd (fleet_Allow who wall f now key))"
  unfolding fleet_ok_def using fleet_Allow_inv fleet_members_step by blast

definition fleet_room :: "string \<Rightarrow> int \<Rightarrow> duration \<Rightarrow> log_fleet \<Rightarrow> time \<Rightarrow> string \<Rightarrow> bool" where
  "fleet_room prefix limit window f now key \<longleftrightarrow>
     int (length (kept (Milliseconds window) (lf_redis f) now (prefix_key prefix key))) < limit"

text \<open>An evaluation that runs leaves an entry that accounts for what it added.\<close>

lemma fleet_entry_tracks:
  assumes ok: "fleet_ok who wall prefix limit window f" and c: "rd_calls (lf_redis f) + 1 < 2 ^ 64"
    and d: "distinct_clocks who wall" and now: "log_us (micros now)" and w: "Millisecond \<le> window"
    and tr: "key_tracks limit (Milliseconds window) (micros now) H (rd_keys (lf_redis f) (prefix_key prefix key))"
  shows "key_tracks limit (Milliseconds window) (micros now)
    (if fleet_room prefix limit window f now key then H @ [micros now] else H)
    (Some (fleet_entry who wall prefix limit window f now key))"
proof -
  define ms where "ms = Milliseconds window"
  define k where "k = prefix_key prefix key"
  define zs where "zs = kept ms (lf_redis f) now k"
  define room where "room \<longleftrightarrow> int (length zs) < limit"
  have cfg: "fleet_config prefix limit window f" and mem: "fleet_members who wall prefix f"
    using ok by (simp_all add: fleet_ok_def)
  have "0 < window" "window \<le> 2 ^ 61" using cfg by (simp_all add: fleet_config_def)
  note m = Milliseconds_range [OF this, folded ms_def]
  have ms: "0 < ms * 1000" "0 \<le> ms" "ms \<le> 25 * 10 ^ 11" using m w by linarith+
  obtain us where us: "map snd zs = map score us" "\<forall>u \<in> set us. log_us u" "hist_ok limit (ms * 1000) (micros now) H us"
    using tracks_kept [OF tr [folded ms_def k_def] now ms(2,3)] unfolding zs_def by blast
  define us' where "us' = (if room then us @ [micros now] else us)"
  have "fst ` set zs \<subseteq> fst ` set (zset_at (lf_redis f) now k)" by (auto simp: zs_def kept_def)
  also have "\<dots> \<subseteq> used_member who wall ` {..< rd_calls (lf_redis f)}"
    using zset_at_members [OF mem, of now key] unfolding k_def .
  finally have "next_member who wall f \<notin> fst ` set zs"
    unfolding next_member_new [OF mem c] using used_member_inj [OF d] by blast
  then have after: "map snd (log_after limit ms (next_member who wall f) (lf_redis f) now k) = map score us'"
    using us(1) by (simp add: log_after_def zs_def [symmetric] room_def [symmetric] us'_def zadd_new lua_millis_def)
  have us': "\<forall>u \<in> set us'. log_us u" using us(2) now by (simp add: us'_def)
  have "length zs = length us" using us(1) by (metis length_map)
  then have h: "hist_ok limit (ms * 1000) (micros now) (if room then H @ [micros now] else H) us'"
    using us(3) hist_ok_add [OF us(3) _ ms(1)] by (simp add: us'_def room_def)
  have e: "fleet_entry who wall prefix limit window f now key
      = log_entry ms (log_after limit ms (next_member who wall f) (lf_redis f) now k) now"
    by (simp add: fleet_entry_def ms_def k_def Let_def)
  have room: "fleet_room prefix limit window f now key = room"
    by (simp add: fleet_room_def room_def zs_def ms_def k_def)
  define zs' where "zs' = log_after limit ms (next_member who wall f) (lf_redis f) now k"
  have "entry_tracks limit ms (micros now) (if room then H @ [micros now] else H) (log_entry ms zs' now)"
    unfolding entry_tracks_def
  proof (intro exI conjI allI impI)
    show "re_value (log_entry ms zs' now) = RZSet zs'" by (simp add: log_entry_def)
    show "map snd zs' = map score us'" unfolding zs'_def by (rule after)
    show "\<forall>u \<in> set us'. u \<le> micros t - ms * 1000"
      if "micros now \<le> micros t \<and> re_when (log_entry ms zs' now) < millis_of t" for t
      using expired_clear [OF after us' now ms(2,3), folded zs'_def] that by blast
  qed (rule us' h)+
  then show ?thesis unfolding key_tracks_def option.case e room ms_def [symmetric] zs'_def .
qed

lemma key_tracks_bound: "key_tracks limit ms T H o0 \<Longrightarrow> int (window_count (ms * 1000) t H) \<le> limit"
  by (cases o0) (auto simp: key_tracks_def entry_tracks_def hist_ok_def)

lemma micros_mono: "t \<le> t' \<Longrightarrow> micros t \<le> micros t'"
  by (simp add: micros_def zdiv_mono1)

lemma fleet_run:
  assumes "fleet_ok who wall prefix limit window f" and d: "distinct_clocks who wall" and w: "Millisecond \<le> window"
    and "key_tracks limit (Milliseconds window) T H (rd_keys (lf_redis f) (prefix_key prefix key))"
    and "sorted (map fst reqs)" and "\<forall>(t, k) \<in> set reqs. log_us (micros t) \<and> T \<le> micros t"
    and "rd_calls (lf_redis f) + length reqs < 2 ^ 64"
  shows "int (window_count (Milliseconds window * 1000) t
    (H @ map micros (granted_times (fleet_Allow who wall) key f reqs))) \<le> limit"
  using assms(1,4-)
proof (induction reqs arbitrary: f T H)
  case Nil
  then show ?case by (simp add: granted_times_simps key_tracks_bound)
next
  case (Cons req reqs)
  obtain now k where req: "req = (now, k)" by (cases req)
  define a where "a = fleet_Allow who wall f now k"
  have cfg: "fleet_config prefix limit window f" "zsets_ok prefix (lf_redis f)" using Cons.prems(1) by (simp_all add: fleet_ok_def)
  have now: "log_us (micros now)" "T \<le> micros now" and c: "rd_calls (lf_redis f) + 1 < 2 ^ 64"
    using Cons.prems(4,5) req by auto
  note F = fleet_fields [OF cfg refl, of who wall now k, folded a_def]
  have srt: "sorted (map fst reqs)" and rest: "\<forall>(t, k) \<in> set reqs. log_us (micros t) \<and> micros now \<le> micros t"
    using Cons.prems(3,4) req micros_mono by fastforce+
  have ok': "fleet_ok who wall prefix limit window (snd a)"
    unfolding a_def by (rule fleet_ok_step [OF Cons.prems(1) c now(1)])
  have n: "rd_calls (lf_redis (snd a)) + length reqs < 2 ^ 64" using Cons.prems(5) by (simp add: F(1))
  note tr = key_tracks_later [OF Cons.prems(2) now(2)]
  let ?new = "if k = key \<and> granted (fst a) then [now] else []"
  let ?runs = "k = key \<and> rd_net (lf_redis f) (rd_calls (lf_redis f)) \<noteq> Refused"
  let ?H = "if ?runs \<and> fleet_room prefix limit window f now k then H @ [micros now] else H"
  have tr': "key_tracks limit (Milliseconds window) (micros now) ?H (rd_keys (lf_redis (snd a)) (prefix_key prefix key))"
    using tr fleet_entry_tracks [OF Cons.prems(1) c d now(1) w tr] by (auto simp: F(4))
  have g: "granted (fst a) \<Longrightarrow> fleet_room prefix limit window f now k \<and> rd_net (lf_redis f) (rd_calls (lf_redis f)) \<noteq> Refused"
    using fleet_Allow_wf [OF cfg now(1), of who wall k] F(5)
    by (auto simp: granted_def a_def [symmetric] fleet_room_def split: sum.splits if_splits)
  have "window_count (Milliseconds window * 1000) t (H @ map micros ?new) \<le> window_count (Milliseconds window * 1000) t ?H"
    using g by (auto simp: window_count_append window_count_Nil)
  moreover have "int (window_count (Milliseconds window * 1000) t
      (?H @ map micros (granted_times (fleet_Allow who wall) key (snd a) reqs))) \<le> limit"
    by (rule Cons.IH [OF ok' tr' srt rest n])
  ultimately show ?case by (simp add: req granted_times_simps a_def [symmetric] window_count_append)
qed

text \<open>A server without keys and processes that have not made a call yet.\<close>

definition fleet_start :: "log_fleet \<Rightarrow> bool" where
  "fleet_start f \<longleftrightarrow> rd_keys (lf_redis f) = Map.empty \<and> rd_calls (lf_redis f) = 0 \<and> (\<forall>p. rsl_seq (lf_procs f p) = 0)"

lemma fleet_start_ok:
  "fleet_config prefix limit window f \<Longrightarrow> fleet_start f \<Longrightarrow> fleet_ok who wall prefix limit window f"
  by (simp add: fleet_ok_def fleet_start_def zsets_ok_def fleet_members_def earlier_def)


end
