(* ===== verification/RedisCounter.thy ===== *)
theory RedisCounter
  imports RedisFleet
begin

text \<open>
  The Redis-backed sliding window counter: \<open>ratelimiter/redis/limiters.go\<close> and
  \<open>scripts/slidingwindowcounter.lua\<close>, at windows of a millisecond and more.  Its state is in Redis alone, so
  that any number of processes of one configuration are one limiter.
\<close>

section \<open>The code\<close>

text \<open>\<open>HMGET\<close>: a missing key is an empty hash, a key of another type an error.\<close>

definition hmget :: "redis_value option \<Rightarrow> (string \<rightharpoonup> rat) option" where
  "hmget v = (case v of None \<Rightarrow> Some Map.empty | Some (RHash h) \<Rightarrow> Some h | Some (RZSet _) \<Rightarrow> None)"

definition hash_num :: "(string \<rightharpoonup> rat) \<Rightarrow> string \<Rightarrow> rat" where
  "hash_num h field = (case h field of None \<Rightarrow> 0 | Some n \<Rightarrow> n)"

text \<open>The counts of the current and the previous window, as the current window sees them.\<close>

definition roll_counts :: "(string \<rightharpoonup> rat) \<Rightarrow> rat \<Rightarrow> rat \<times> rat" where
  "roll_counts h current_window =
     (case h ''window'' of
        None \<Rightarrow> (0, 0)
      | Some stored \<Rightarrow>
          if stored < fsub current_window 1 then (0, 0)
          else if stored = fsub current_window 1 then (0, hash_num h ''curr'')
          else (hash_num h ''curr'', hash_num h ''prev''))"

definition counter_retry :: "rat \<Rightarrow> rat \<Rightarrow> rat \<Rightarrow> rat \<Rightarrow> rat \<Rightarrow> rat" where
  "counter_retry limit window elapsed cur prev =
     (let remainder = fsub window elapsed in
      if prev = 0 then
        if cur = 0 then remainder
        else
          let target_f = fdiv (fadd (fsub cur limit) 1) cur;
              target_f' = (if target_f < 0 then 0 else target_f)
          in fadd remainder (of_int (lua_ceil (fmul target_f' window)))
      else
        let target = fsub (fsub limit 1) cur in
        if target < 0 then remainder
        else
          let threshold_f = fsub 1 (fdiv target prev) in
          if 1 \<le> threshold_f then remainder
          else
            let wait = fsub (of_int (lua_ceil (fmul threshold_f window))) elapsed in
            if wait \<le> 0 then 1 else if remainder < wait then remainder else wait)"

definition window_index :: "rat \<Rightarrow> rat \<Rightarrow> int" where
  "window_index now window = lua_floor (fdiv now window)"

definition sliding_window_counter_script :: "string \<Rightarrow> rat \<Rightarrow> rat \<Rightarrow> script" where
  "sliding_window_counter_script key limit window r time =
     (let now = lua_millis time;
          current_window = of_int (window_index now window);
          elapsed = fsub now (fmul current_window window);
          f = fdiv elapsed window
      in case hmget (redis_get r time key) of
           None \<Rightarrow> None
         | Some h \<Rightarrow>
             (let (cur, prev) = roll_counts h current_window;
                  estimate = fadd (fmul prev (fsub 1 f)) cur;
                  ok = fadd estimate 1 \<le> limit;
                  cur' = (if ok then fadd cur 1 else cur);
                  rem = fsub limit (fadd estimate 1);
                  remaining = (if ok \<and> 0 < rem then of_int (lua_floor rem) else 0);
                  retry_after = (if ok then 0 else counter_retry limit window elapsed cur prev)
              in Some (Array [tostring (if ok then 1 else 0), tostring remaining,
                              tostring (fsub window elapsed), tostring retry_after],
                       redis_set r time key
                         (RHash (h(''window'' \<mapsto> current_window, ''curr'' \<mapsto> cur', ''prev'' \<mapsto> prev)))
                         (lua_ceil (fmul window 2) + 1000))))"

definition counter_key :: "RedisSlidingWindowCounter \<Rightarrow> string \<Rightarrow> string" where
  "counter_key s key = rsc_prefix s @ '':swc:'' @ key"

definition RedisSlidingWindowCounter_Allow :: "RedisSlidingWindowCounter \<Rightarrow> redis allow_fun" where
  "RedisSlidingWindowCounter_Allow s r now key =
     runScript (sliding_window_counter_script (counter_key s key) (fint (rsc_limit s))
       (fint (Milliseconds (rsc_window s)))) (rsc_limit s) r now"

section \<open>The grid\<close>

text \<open>A configuration and the instants for which it is claimed to work.\<close>

definition rsc_ok :: "int \<Rightarrow> duration \<Rightarrow> RedisSlidingWindowCounter \<Rightarrow> bool" where
  "rsc_ok limit window s \<longleftrightarrow>
     0 < limit \<and> limit \<le> 10 ^ 14 \<and> Millisecond \<le> window \<and> window \<le> 2 ^ 61 \<and> rsc_limit s = limit \<and> rsc_window s = window"

definition grid :: "int \<Rightarrow> time \<Rightarrow> int" where
  "grid ms now = window_index (lua_millis now) (of_int ms)"

definition ms_ok :: "int \<Rightarrow> bool" where "ms_ok ms \<longleftrightarrow> 1 \<le> ms \<and> ms \<le> 25 * 10 ^ 11"

lemma ms_okD: "ms_ok ms \<Longrightarrow> (1 :: rat) \<le> of_int ms \<and> (of_int ms :: rat) \<le> 25 * 10 ^ 11"
proof -
  assume "ms_ok ms"
  then have "(of_int 1 :: rat) \<le> of_int ms" "(of_int ms :: rat) \<le> of_int (25 * 10 ^ 11)"
    by (simp_all only: ms_ok_def of_int_le_iff)
  then show ?thesis by simp
qed

lemma millis_range: "log_us (micros now) \<Longrightarrow> - 1 \<le> lua_millis now \<and> lua_millis now \<le> 25 * 10 ^ 11 + 1"
  using score_range by (simp add: lua_millis_def)

text \<open>The instant lies before the end of its window, and the part of the window that has passed is not too long.\<close>

lemma grid_quotient:
  assumes "log_us (micros now)" and "ms_ok ms"
  shows "- 2 \<le> grid ms now" "grid ms now \<le> 25 * 10 ^ 11 + 1" "\<bar>fdiv (lua_millis now) (of_int ms) - lua_millis now / of_int ms\<bar> \<le> 3 / 10000"
    and "lua_millis now < (of_int (grid ms now) + 1) * of_int ms"
proof -
  define q where "q = lua_millis now / (of_int ms :: rat)"
  note m = ms_okD [OF assms(2)] and l = millis_range [OF assms(1)]
  have q: "- 1 \<le> q" "q \<le> 25 * 10 ^ 11 + 1"
    using m l frac_le [of "lua_millis now" "25 * 10 ^ 11 + 1" 1 "of_int ms"]
    by (simp_all add: q_def pos_le_divide_eq pos_divide_le_eq)
  then have "\<bar>q\<bar> / 2 ^ 53 \<le> (25 * 10 ^ 11 + 1) / 2 ^ 53" by (intro divide_right_mono) simp_all
  then show e: "\<bar>fdiv (lua_millis now) (of_int ms) - lua_millis now / of_int ms\<bar> \<le> 3 / 10000"
    using f64_err_abs [of q] by (simp add: fdiv_def q_def [symmetric])
  have g: "grid ms now = \<lfloor>f64 q\<rfloor>" by (simp add: grid_def window_index_def lua_floor_def fdiv_def q_def)
  have fq: "\<bar>f64 q - q\<bar> \<le> 3 / 10000" using e by (simp add: fdiv_def q_def)
  have "- 2 \<le> f64 q" using q(1) abs_le_D2 [OF fq] by simp
  then show "- 2 \<le> grid ms now" unfolding g le_floor_iff by simp
  have "of_int \<lfloor>f64 q\<rfloor> \<le> f64 q" by simp
  also have "\<dots> < of_int (25 * 10 ^ 11 + 2)" using q(2) abs_le_D1 [OF fq] by simp
  finally show "grid ms now \<le> 25 * 10 ^ 11 + 1" unfolding g by (simp only: of_int_less_iff)
  have "q < of_int (grid ms now) + 1"
  proof (rule ccontr)
    assume "\<not> q < of_int (grid ms now) + 1"
    then have "of_int (grid ms now + 1) \<le> q" by simp
    moreover have "is_f64 (of_int (grid ms now + 1))"
      using \<open>- 2 \<le> grid ms now\<close> \<open>grid ms now \<le> 25 * 10 ^ 11 + 1\<close> by (intro is_f64_int) simp
    ultimately have "of_int (grid ms now + 1) \<le> f64 q" by (intro f64_ge)
    then show False unfolding g by linarith
  qed
  then show "lua_millis now < (of_int (grid ms now) + 1) * of_int ms"
    using m by (simp add: q_def pos_divide_less_eq)
qed

lemma f64_between: "\<bar>a\<bar> \<le> 2 ^ 53 \<Longrightarrow> \<bar>b\<bar> \<le> 2 ^ 53 \<Longrightarrow> of_int a \<le> x \<Longrightarrow> x \<le> of_int b \<Longrightarrow> of_int a \<le> f64 x \<and> f64 x \<le> of_int b"
  using f64_le [OF is_f64_int [of b]] f64_ge [OF is_f64_int [of a]] by simp

definition elapsed_at :: "int \<Rightarrow> time \<Rightarrow> rat" where
  "elapsed_at ms now = fsub (lua_millis now) (fmul (of_int (grid ms now)) (of_int ms))"

lemma elapsed_range:
  assumes "log_us (micros now)" and "ms_ok ms"
  shows "- of_int ms \<le> elapsed_at ms now \<and> elapsed_at ms now \<le> of_int ms"
proof -
  define g where "g = grid ms now"
  note m = ms_okD [OF assms(2)] and l = millis_range [OF assms(1)]
  note G = grid_quotient [OF assms, folded g_def]
  have "of_int g \<le> fdiv (lua_millis now) (of_int ms)" by (simp add: g_def grid_def window_index_def lua_floor_def)
  then have "of_int g \<le> lua_millis now / of_int ms + 3 / 10000" using abs_le_D1 [OF G(3)] by linarith
  then have "of_int g * of_int ms \<le> (lua_millis now / of_int ms + 3 / 10000) * of_int ms" using m by (intro mult_right_mono) simp_all
  also have "\<dots> = lua_millis now + 3 / 10000 * of_int ms" using m by (simp add: field_simps)
  finally have up: "of_int (g * ms) \<le> lua_millis now + of_int ms" using m by simp
  have lo: "lua_millis now - of_int (g * ms) \<le> of_int ms" using G(4) by (simp add: algebra_simps)
  have "of_int (g * ms) \<le> (of_int (6 * 10 ^ 12) :: rat)" "of_int (- (6 * 10 ^ 12)) \<le> (of_int (g * ms) :: rat)"
    using up lo m l by simp_all
  then have "\<bar>g * ms\<bar> \<le> 2 ^ 53" by (simp only: of_int_le_iff) simp
  then have p: "fmul (of_int g) (of_int ms) = of_int (g * ms)" using f64_int [of "g * ms"] by (simp add: fmul_def)
  have "\<bar>ms\<bar> \<le> 2 ^ 53" "\<bar>- ms\<bar> \<le> 2 ^ 53" using assms(2) by (simp_all add: ms_ok_def)
  from f64_between [OF this(2,1), of "lua_millis now - of_int (g * ms)"] up lo
  show ?thesis by (simp add: elapsed_at_def g_def [symmetric] p fsub_def)
qed

text \<open>What is left of a window.\<close>

lemma remainder_range:
  assumes "log_us (micros now)" and "ms_ok ms"
  shows "0 \<le> fsub (of_int ms) (elapsed_at ms now) \<and> fsub (of_int ms) (elapsed_at ms now) \<le> of_int (2 * ms)"
  using f64_between [of 0 "2 * ms" "of_int ms - elapsed_at ms now"] elapsed_range [OF assms] assms(2)
  by (simp add: fsub_def ms_ok_def)

text \<open>The estimate counts the current window in full.\<close>

lemma estimate_ge:
  assumes "log_us (micros now)" and "ms_ok ms" and "0 \<le> p" and "0 \<le> c" "c \<le> 10 ^ 14"
  shows "of_int c \<le> fadd (fmul (of_int p) (fsub 1 (fdiv (elapsed_at ms now) (of_int ms)))) (of_int c)"
    and "of_int (c + 1) \<le> fadd (fadd (fmul (of_int p) (fsub 1 (fdiv (elapsed_at ms now) (of_int ms)))) (of_int c)) 1"
proof -
  note m = ms_okD [OF assms(2)]
  have "elapsed_at ms now / of_int ms \<le> of_int 1" using elapsed_range [OF assms(1,2)] m by simp
  then have "fdiv (elapsed_at ms now) (of_int ms) \<le> 1" unfolding fdiv_def using f64_le [OF is_f64_int [of 1]] by simp
  then have "0 \<le> fsub 1 (fdiv (elapsed_at ms now) (of_int ms))" by (simp add: fsub_def f64_nonneg)
  then have "0 \<le> fmul (of_int p) (fsub 1 (fdiv (elapsed_at ms now) (of_int ms)))" using assms(3) by (simp add: fmul_def f64_nonneg)
  then show e: "of_int c \<le> fadd (fmul (of_int p) (fsub 1 (fdiv (elapsed_at ms now) (of_int ms)))) (of_int c)"
    unfolding fadd_def using assms(4,5) by (intro f64_ge is_f64_int) simp_all
  then show "of_int (c + 1) \<le> fadd (fadd (fmul (of_int p) (fsub 1 (fdiv (elapsed_at ms now) (of_int ms)))) (of_int c)) 1"
    unfolding fadd_def [of _ 1] using assms(4,5) by (intro f64_ge is_f64_int) simp_all
qed

lemma counter_retry_range:
  assumes now: "log_us (micros now)" and ms: "ms_ok ms" and "0 \<le> c" "c \<le> limit" "0 \<le> p" "0 < limit" "limit \<le> 10 ^ 14"
  shows "0 \<le> counter_retry (of_int limit) (of_int ms) (elapsed_at ms now) (of_int c) (of_int p)
    \<and> counter_retry (of_int limit) (of_int ms) (elapsed_at ms now) (of_int c) (of_int p) \<le> of_int (3 * ms)"
proof -
  define rem where "rem = fsub (of_int ms) (elapsed_at ms now)"
  have r: "0 \<le> rem" "rem \<le> of_int (2 * ms)" using remainder_range [OF now ms] by (simp_all add: rem_def)
  note m = ms_okD [OF ms]
  have r3: "rem \<le> of_int (3 * ms)" "(1 :: rat) \<le> of_int (3 * ms)" using r(2) m by simp_all
  show ?thesis
  proof (cases "p = 0")
    case True
    show ?thesis
    proof (cases "c = 0")
      case False
      define t where "t = fdiv (fadd (fsub (of_int c) (of_int limit)) 1) (of_int c)"
      define t' where "t' = (if t < 0 then 0 else t)"
      have c1: "(1 :: rat) \<le> of_int c" using False assms(3) by simp
      have "fsub (of_int c) (of_int limit) \<le> of_int 0" unfolding fsub_def using assms(4) by (intro f64_le is_f64_int) simp_all
      then have "fadd (fsub (of_int c) (of_int limit)) 1 \<le> of_int 1" unfolding fadd_def by (intro f64_le is_f64_int) simp_all
      then have "fadd (fsub (of_int c) (of_int limit)) 1 / of_int c \<le> of_int 1" using c1 by simp
      then have "t \<le> of_int 1" unfolding t_def fdiv_def by (intro f64_le is_f64_int) simp_all
      then have t: "0 \<le> t'" "t' \<le> 1" by (simp_all add: t'_def)
      have "t' * of_int ms \<le> of_int ms" using t m mult_right_mono [of t' 1 "of_int ms"] by simp
      then have "fmul t' (of_int ms) \<le> of_int ms" "0 \<le> fmul t' (of_int ms)"
        unfolding fmul_def using t m ms by (auto intro!: f64_le is_f64_int f64_nonneg simp: ms_ok_def)
      then have k: "0 \<le> lua_ceil (fmul t' (of_int ms))" "lua_ceil (fmul t' (of_int ms)) \<le> ms"
        by (simp_all add: lua_ceil_def ceiling_le_iff)
      then have "(of_int (lua_ceil (fmul t' (of_int ms))) :: rat) \<le> of_int ms" "(0 :: rat) \<le> of_int (lua_ceil (fmul t' (of_int ms)))"
        by (simp_all only: of_int_le_iff of_int_0_le_iff)
      then have "of_int 0 \<le> fadd rem (of_int (lua_ceil (fmul t' (of_int ms)))) \<and> fadd rem (of_int (lua_ceil (fmul t' (of_int ms)))) \<le> of_int (3 * ms)"
        unfolding fadd_def using r ms by (intro f64_between) (simp_all add: ms_ok_def)
      then show ?thesis using True False
        by (simp add: counter_retry_def rem_def [symmetric] t_def [symmetric] t'_def [symmetric] Let_def)
    qed (use True r r3 in \<open>simp add: counter_retry_def rem_def [symmetric] Let_def\<close>)
  next
    case False
    then have p: "(of_int p :: rat) \<noteq> 0" by simp
    show ?thesis using r r3 unfolding counter_retry_def rem_def [symmetric] Let_def if_not_P [OF p]
      by (auto simp del: of_int_mult)
  qed
qed

section \<open>Entries\<close>

text \<open>An entry counts up to the limit in a window and in the one before it.\<close>

definition counter_hash :: "int \<Rightarrow> (string \<rightharpoonup> rat) \<Rightarrow> int \<Rightarrow> int \<Rightarrow> int \<Rightarrow> bool" where
  "counter_hash limit h i c p \<longleftrightarrow>
     h ''window'' = Some (of_int i) \<and> h ''curr'' = Some (of_int c) \<and> h ''prev'' = Some (of_int p)
     \<and> \<bar>i\<bar> \<le> 10 ^ 14 \<and> 0 \<le> c \<and> c \<le> limit \<and> 0 \<le> p \<and> p \<le> limit"

definition counter_entry :: "int \<Rightarrow> redis_entry \<Rightarrow> bool" where
  "counter_entry limit e \<longleftrightarrow> (\<exists>h i c p. re_value e = RHash h \<and> counter_hash limit h i c p)"

definition counters_ok :: "RedisSlidingWindowCounter \<Rightarrow> int \<Rightarrow> redis \<Rightarrow> bool" where
  "counters_ok s limit r \<longleftrightarrow> (\<forall>key e. rd_keys r (counter_key s key) = Some e \<longrightarrow> counter_entry limit e)"

definition rolled_counts :: "int \<Rightarrow> int \<Rightarrow> int \<Rightarrow> int \<Rightarrow> int \<times> int" where
  "rolled_counts i c p now_i = (if i < now_i - 1 then (0, 0) else if i = now_i - 1 then (0, c) else (c, p))"

lemma roll_hash:
  assumes "counter_hash limit h i c p" and "\<bar>j\<bar> \<le> 10 ^ 14"
  shows "roll_counts h (of_int j) = (of_int (fst (rolled_counts i c p j)), of_int (snd (rolled_counts i c p j)))"
proof -
  have j: "fsub (of_int j) 1 = of_int (j - 1)" using f64_int [of "j - 1"] assms(2) by (simp add: fsub_def)
  have lt: "(of_int i :: rat) < of_int (j - 1) \<longleftrightarrow> i < j - 1" "(of_int i :: rat) = of_int (j - 1) \<longleftrightarrow> i = j - 1"
    by (simp_all only: of_int_less_iff of_int_eq_iff)
  show ?thesis using assms(1) unfolding roll_counts_def rolled_counts_def j counter_hash_def hash_num_def by (auto simp: lt simp del: of_int_diff)
qed

text \<open>The counts a script sees, the window they belong to being the one of the instant.\<close>

definition counts_at :: "int \<Rightarrow> redis \<Rightarrow> time \<Rightarrow> string \<Rightarrow> rat \<times> rat" where
  "counts_at ms r now k = (case hmget (redis_get r now k) of Some h \<Rightarrow> roll_counts h (of_int (grid ms now)) | None \<Rightarrow> (0, 0))"

lemma counts_range:
  assumes "\<And>e. rd_keys r k = Some e \<Longrightarrow> counter_entry limit e" and "log_us (micros now)" "ms_ok ms" "0 < limit"
  shows "\<exists>c p. counts_at ms r now k = (of_int c, of_int p) \<and> 0 \<le> c \<and> c \<le> limit \<and> 0 \<le> p \<and> p \<le> limit"
proof (cases "redis_get r now k")
  case None
  then show ?thesis using assms(4) by (intro exI [of _ 0]) (simp add: counts_at_def hmget_def roll_counts_def)
next
  case (Some v)
  then obtain e where e: "rd_keys r k = Some e" "v = re_value e" by (auto simp: redis_get_def split: option.splits if_splits)
  from assms(1) [OF e(1)] obtain h i c p where h: "re_value e = RHash h" "counter_hash limit h i c p" by (auto simp: counter_entry_def)
  have "\<bar>grid ms now\<bar> \<le> 10 ^ 14" using grid_quotient(1,2) [OF assms(2,3)] by simp
  from roll_hash [OF h(2) this] h Some e(2) assms(4) show ?thesis
    by (intro exI [of _ "fst (rolled_counts i c p (grid ms now))"] exI [of _ "snd (rolled_counts i c p (grid ms now))"])
      (auto simp: counts_at_def hmget_def rolled_counts_def counter_hash_def)
qed

definition estimate_at :: "int \<Rightarrow> time \<Rightarrow> int \<Rightarrow> int \<Rightarrow> rat" where
  "estimate_at ms now c p = fadd (fmul (of_int p) (fsub 1 (fdiv (elapsed_at ms now) (of_int ms)))) (of_int c)"

definition fits :: "int \<Rightarrow> int \<Rightarrow> time \<Rightarrow> int \<Rightarrow> int \<Rightarrow> bool" where
  "fits limit ms now c p \<longleftrightarrow> fadd (estimate_at ms now c p) 1 \<le> of_int limit"

definition counter_reply :: "int \<Rightarrow> int \<Rightarrow> time \<Rightarrow> int \<Rightarrow> int \<Rightarrow> reply" where
  "counter_reply limit ms now c p =
     (let ok = fits limit ms now c p; rem = fsub (of_int limit) (fadd (estimate_at ms now c p) 1) in
      Array [tostring (if ok then 1 else 0), tostring (if ok \<and> 0 < rem then of_int (lua_floor rem) else 0),
             tostring (fsub (of_int ms) (elapsed_at ms now)),
             tostring (if ok then 0 else counter_retry (of_int limit) (of_int ms) (elapsed_at ms now) (of_int c) (of_int p))])"

text \<open>What a script leaves and answers, for the counts \<open>c\<close> and \<open>p\<close> it sees.\<close>

lemma counter_script_runs:
  assumes ok: "\<And>e. rd_keys r k = Some e \<Longrightarrow> counter_entry limit e" and now: "log_us (micros now)" and ms: "ms_ok ms"
    and limit: "0 < limit" "limit \<le> 10 ^ 14" and cp: "counts_at ms r now k = (of_int c, of_int p)" "0 \<le> c" "c \<le> limit"
  shows "\<exists>h. sliding_window_counter_script k (fint limit) (fint ms) r now
    = Some (counter_reply limit ms now c p,
        r\<lparr>rd_keys := (rd_keys r)(k \<mapsto> \<lparr>re_value = RHash h, re_when = millis_of now + (lua_ceil (fmul (of_int ms) 2) + 1000)\<rparr>)\<rparr>)
    \<and> h ''window'' = Some (of_int (grid ms now)) \<and> h ''prev'' = Some (of_int p)
    \<and> h ''curr'' = Some (of_int (if fits limit ms now c p then c + 1 else c))"
proof -
  have fi: "fint limit = of_int limit" "fint ms = of_int ms" using limit ms by (simp_all add: fint_exact ms_ok_def)
  have w: "window_index (lua_millis now) (of_int ms) = grid ms now" by (simp add: grid_def)
  have el: "fsub (lua_millis now) (fmul (of_int (grid ms now)) (of_int ms)) = elapsed_at ms now" by (simp add: elapsed_at_def)
  have es: "fadd (fmul (of_int p) (fsub 1 (fdiv (elapsed_at ms now) (of_int ms)))) (of_int c) = estimate_at ms now c p"
    by (simp add: estimate_at_def)
  have c1: "fadd (of_int c) 1 = of_int (c + 1)" using f64_int [of "c + 1"] cp(2,3) limit by (simp add: fadd_def)
  have "hmget (redis_get r now k) \<noteq> None"
    using ok by (fastforce simp: hmget_def redis_get_def counter_entry_def split: option.splits redis_value.splits)
  then obtain h0 where h0: "hmget (redis_get r now k) = Some h0" by blast
  then have roll_counts: "roll_counts h0 (of_int (grid ms now)) = (of_int c, of_int p)" using cp(1) by (simp add: counts_at_def)
  define h where "h = h0(''window'' \<mapsto> of_int (grid ms now),
      ''curr'' \<mapsto> of_int (if fits limit ms now c p then c + 1 else c), ''prev'' \<mapsto> of_int p)"
  have "sliding_window_counter_script k (fint limit) (fint ms) r now
    = Some (counter_reply limit ms now c p,
        r\<lparr>rd_keys := (rd_keys r)(k \<mapsto> \<lparr>re_value = RHash h, re_when = millis_of now + (lua_ceil (fmul (of_int ms) 2) + 1000)\<rparr>)\<rparr>)"
    unfolding sliding_window_counter_script_def fi w Let_def el h0 option.case roll_counts prod.case es c1
    by (simp add: counter_reply_def fits_def h_def redis_set_def Let_def c1)
  moreover have "h ''window'' = Some (of_int (grid ms now)) \<and> h ''prev'' = Some (of_int p)
    \<and> h ''curr'' = Some (of_int (if fits limit ms now c p then c + 1 else c))"
    by (simp add: h_def)
  ultimately show ?thesis by blast
qed

section \<open>The contract\<close>

lemma counter_reply_decodes:
  assumes now: "log_us (micros now)" and ms: "ms_ok ms" and "0 \<le> c" "c \<le> limit" "0 \<le> p" and limit: "0 < limit" "limit \<le> 10 ^ 14"
    and d: "decode (counter_reply limit ms now c p) limit = Inr res"
  shows "wf_result limit res \<and> (Allowed res \<longleftrightarrow> fits limit ms now c p)"
proof -
  define ok where "ok = fits limit ms now c p"
  define rem where "rem = fsub (of_int limit) (fadd (estimate_at ms now c p) 1)"
  define k where "k = (if ok \<and> 0 < rem then lua_floor rem else 0)"
  have "of_int (c + 1) \<le> fadd (estimate_at ms now c p) 1"
    using estimate_ge(2) [OF now ms assms(5,3)] assms(4) limit by (simp add: estimate_at_def)
  then have "rem \<le> of_int (limit - 1)" unfolding rem_def fsub_def
    using limit assms(3) by (intro f64_le is_f64_int) simp_all
  then have k: "0 \<le> k" "k \<le> limit - 1" using limit by (simp_all add: k_def lua_floor_def floor_less_iff)
  have one: "lua_num_of_text 1 = 1" "lua_num_of_text 0 = 0" "millis 0 = 0"
    using lua_text_int [of 1] lua_text_int [of 0] by (simp_all add: millis_def)
  have zero: "f2i 0 = 0" by (simp add: f2i_in_range)
  have kt: "f2i (lua_num_of_text (of_int k)) = k"
  proof -
    have k14: "k \<le> 10 ^ 14" using k limit by linarith
    then have "lua_num_of_text (of_int k) = of_int k" using k(1) by (intro lua_text_int) simp
    moreover have "(of_int k :: rat) \<le> of_int (2 ^ 53)" using k14 by (simp only: of_int_le_iff) simp
    ultimately show ?thesis using k(1) by (simp add: f2i_in_range)
  qed
  have m: "0 \<le> millis (lua_num_of_text x)" if "0 \<le> x" "x \<le> of_int (3 * ms)" for x
  proof -
    have "(of_int (3 * ms) :: rat) \<le> 8 * 10 ^ 12" using ms_okD [OF ms] by simp
    then show ?thesis using that by (intro millis_small) linarith+
  qed
  have "of_int (2 * ms) \<le> (of_int (3 * ms) :: rat)" using ms by (simp only: of_int_le_iff ms_ok_def) simp
  then have reset: "0 \<le> millis (lua_num_of_text (fsub (of_int ms) (elapsed_at ms now)))"
    using remainder_range [OF now ms] by (intro m) linarith+
  define retry where "retry = counter_retry (of_int limit) (of_int ms) (elapsed_at ms now) (of_int c) (of_int p)"
  have "0 \<le> millis (lua_num_of_text retry)"
    unfolding retry_def using counter_retry_range [OF now ms assms(3-5) limit] by (intro m) auto
  moreover have "(if ok \<and> 0 < rem then of_int (lua_floor rem) else 0) = (of_int k :: rat)" by (simp add: k_def)
  ultimately show ?thesis
    using d reset k limit unfolding counter_reply_def Let_def ok_def [symmetric] rem_def [symmetric] retry_def [symmetric]
    by (cases ok) (auto simp: decode_tostring one kt zero wf_result_def)
qed

definition counter_ms :: "RedisSlidingWindowCounter \<Rightarrow> int" where "counter_ms s = Milliseconds (rsc_window s)"

lemma rsc_okD:
  assumes "rsc_ok limit window s"
  shows "0 < limit" "limit \<le> 10 ^ 14" "rsc_limit s = limit" "ms_ok (counter_ms s)" "counter_ms s = Milliseconds window"
  using assms Milliseconds_range [of window] by (simp_all add: rsc_ok_def counter_ms_def ms_ok_def)

text \<open>The outcome of a call: refused, the reply lost, or the reply decoded.\<close>

lemma counter_cases:
  assumes ok: "rsc_ok limit window s" and inv: "counters_ok s limit r" and now: "log_us (micros now)"
  shows "\<exists>c p h r'. 0 \<le> c \<and> c \<le> limit \<and> 0 \<le> p \<and> p \<le> limit
    \<and> counts_at (counter_ms s) r now (counter_key s key) = (of_int c, of_int p)
    \<and> snd (RedisSlidingWindowCounter_Allow s r now key) = r'
    \<and> rd_net r' = rd_net r \<and> rd_calls r' = Suc (rd_calls r)
    \<and> counter_hash limit h (grid (counter_ms s) now) (if fits limit (counter_ms s) now c p then c + 1 else c) p
    \<and> rd_keys r' = (if rd_net r (rd_calls r) = Refused then rd_keys r
        else (rd_keys r)(counter_key s key \<mapsto>
          \<lparr>re_value = RHash h, re_when = millis_of now + (lua_ceil (fmul (of_int (counter_ms s)) 2) + 1000)\<rparr>))
    \<and> fst (RedisSlidingWindowCounter_Allow s r now key) =
        (if rd_net r (rd_calls r) = Runs then decode (counter_reply limit (counter_ms s) now c p) limit
         else Inl (ScriptError ''rate limiter script''))"
proof -
  note s = rsc_okD [OF ok]
  define k where "k = counter_key s key"
  define ms where "ms = counter_ms s"
  define r0 where "r0 = r\<lparr>rd_calls := Suc (rd_calls r)\<rparr>"
  have e: "counter_entry limit e" if "rd_keys r k = Some e" for e using inv that by (simp add: counters_ok_def k_def)
  have e0: "counter_entry limit e" if "rd_keys r0 k = Some e" for e using e that by (simp add: r0_def)
  obtain c p where cp: "counts_at ms r now k = (of_int c, of_int p)" "0 \<le> c" "c \<le> limit" "0 \<le> p" "p \<le> limit"
    using counts_range [OF e now s(4) [folded ms_def] s(1)] by blast
  have cp0: "counts_at ms r0 now k = (of_int c, of_int p)" using cp(1) by (simp add: counts_at_def redis_get_def r0_def)
  obtain h where h: "sliding_window_counter_script k (fint limit) (fint ms) r0 now
      = Some (counter_reply limit ms now c p,
          r0\<lparr>rd_keys := (rd_keys r0)(k \<mapsto> \<lparr>re_value = RHash h, re_when = millis_of now + (lua_ceil (fmul (of_int ms) 2) + 1000)\<rparr>)\<rparr>)"
    "h ''window'' = Some (of_int (grid ms now))" "h ''prev'' = Some (of_int p)"
    "h ''curr'' = Some (of_int (if fits limit ms now c p then c + 1 else c))"
    using counter_script_runs [OF e0 now s(4) [folded ms_def] s(1,2) cp0 cp(2,3)] by blast
  have "c + 1 \<le> limit" if "fits limit ms now c p"
  proof -
    have "of_int (c + 1) \<le> fadd (estimate_at ms now c p) 1"
      using estimate_ge(2) [OF now s(4) cp(4,2)] cp(3) s(2) by (simp add: estimate_at_def ms_def)
    then have "(of_int (c + 1) :: rat) \<le> of_int limit" using that unfolding fits_def by (rule order_trans)
    then show ?thesis by (simp only: of_int_le_iff)
  qed
  moreover have "\<bar>grid ms now\<bar> \<le> 10 ^ 14" using grid_quotient(1,2) [OF now s(4)] by (simp add: ms_def)
  ultimately have hash: "counter_hash limit h (grid ms now) (if fits limit ms now c p then c + 1 else c) p"
    using h(2-4) cp by (auto simp: counter_hash_def)
  have allow: "RedisSlidingWindowCounter_Allow s r now key = runScript (sliding_window_counter_script k (fint limit) (fint ms)) limit r now"
    by (simp add: RedisSlidingWindowCounter_Allow_def k_def ms_def counter_ms_def s(3))
  show ?thesis
    unfolding allow k_def [symmetric] ms_def [symmetric]
    using cp hash h(1)
    by (intro exI [of _ c] exI [of _ p] exI [of _ h], cases "rd_net r (rd_calls r)") (simp_all add: runScript_def r0_def [symmetric] Let_def, simp_all add: r0_def)
qed

lemma counter_Allow_inv:
  assumes "rsc_ok limit window s" and "counters_ok s limit r" and "log_us (micros now)"
  shows "counters_ok s limit (snd (RedisSlidingWindowCounter_Allow s r now key))"
  using counter_cases [OF assms, of key] assms(2) unfolding counters_ok_def counter_entry_def
  by (fastforce split: if_splits)

lemma counter_Allow_wf:
  assumes "rsc_ok limit window s" and "counters_ok s limit r" and "log_us (micros now)"
    and "fst (RedisSlidingWindowCounter_Allow s r now key) = Inr res"
  shows "wf_result limit res"
  using counter_cases [OF assms(1-3), of key] assms(4) rsc_okD [OF assms(1)] counter_reply_decodes [OF assms(3)]
  by (fastforce split: if_splits)

lemma counter_script_frame:
  "sliding_window_counter_script k limit window r now = Some (raw, r') \<Longrightarrow> k' \<noteq> k \<Longrightarrow> rd_keys r' k' = rd_keys r k'"
  by (auto simp: sliding_window_counter_script_def redis_set_def Let_def split: option.splits prod.splits)

lemma counter_Allow_frame:
  "key' \<noteq> key \<Longrightarrow>
    rd_keys (snd (RedisSlidingWindowCounter_Allow s r now key)) (counter_key s key') = rd_keys r (counter_key s key')"
  unfolding RedisSlidingWindowCounter_Allow_def
  by (rule runScript_frame) (erule counter_script_frame, simp add: counter_key_def)

text \<open>The shared counter is a limiter.\<close>

interpretation rsc: limiter "RedisSlidingWindowCounter_Allow s" "\<lambda>r key. rd_keys r (counter_key s key)"
    "\<lambda>r. rsc_ok limit window s \<and> counters_ok s limit r" "\<lambda>t. log_us (micros t)" limit
  for s limit window
  by unfold_locales (auto intro: counter_Allow_inv counter_Allow_wf counter_Allow_frame)

section \<open>The ceiling of a window\<close>

text \<open>An entry lives for more than a window: while the grid index is the same, it is seen.\<close>

lemma same_window_alive:
  assumes now: "log_us (micros now)" and t: "log_us (micros t)" and ms: "ms_ok ms" and same: "grid ms t = grid ms now"
  shows "millis_of t \<le> millis_of now + (lua_ceil (fmul (of_int ms) 2) + 1000)"
proof (rule ccontr)
  assume "\<not> millis_of t \<le> millis_of now + (lua_ceil (fmul (of_int ms) 2) + 1000)"
  then have late: "millis_of now + (lua_ceil (fmul (of_int ms) 2) + 1000) < millis_of t" by simp
  note m = ms_okD [OF ms]
  have two: "fmul (of_int ms) 2 = of_int (2 * ms)"
    using f64_int [of "2 * ms"] ms by (simp add: fmul_def ms_ok_def mult.commute)
  have "(2 * ms + 1000) * 1000000 \<le> t - now" 
  proof (rule millis_gap)
    have "lua_ceil (fmul (of_int ms) 2) = 2 * ms" unfolding two lua_ceil_def by (rule ceiling_of_int)
    with late show "millis_of now + (2 * ms + 1000) < millis_of t" by simp
  qed
  then have "micros now + (2 * ms + 1000) * 1000 \<le> micros t"
    using zdiv_mono1 [of "now + (2 * ms + 1000) * 1000000" t 1000]
      div_mult_self1 [of 1000 now "(2 * ms + 1000) * 1000"] by (simp add: micros_def)
  then have "(of_int (micros now + (2 * ms + 1000) * 1000) :: rat) \<le> of_int (micros t)" by (simp only: of_int_le_iff)
  then have gap: "of_int (micros now) + 2000 * of_int ms + 1000000 \<le> (of_int (micros t) :: rat)"
    by (simp add: algebra_simps)
  have "lua_millis now \<le> of_int (micros now) / 1000 + 3 / 10000" "of_int (micros t) / 1000 - 3 / 10000 \<le> lua_millis t"
    using abs_le_D1 [OF score_err [OF now]] abs_le_D2 [OF score_err [OF t]] by (simp_all add: lua_millis_def)
  then have "lua_millis now + 2 * of_int ms \<le> lua_millis t" using gap by linarith
  moreover have "lua_millis t < (of_int (grid ms now) + 1) * of_int ms" using grid_quotient(4) [OF t ms] same by simp
  moreover have "(of_int (grid ms now) - 1) * of_int ms \<le> lua_millis now"
  proof -
    have "of_int (grid ms now) \<le> fdiv (lua_millis now) (of_int ms)" by (simp add: grid_def window_index_def lua_floor_def)
    then have "of_int (grid ms now) - 1 \<le> lua_millis now / of_int ms"
      using abs_le_D1 [OF grid_quotient(3) [OF now ms]] by linarith
    then show ?thesis using m by (simp add: pos_le_divide_eq)
  qed
  ultimately show False by (simp add: algebra_simps)
qed

text \<open>Grid indices follow the clock.\<close>

lemma grid_mono:
  assumes "log_us (micros t)" and "log_us (micros t')" and "t \<le> t'" and "ms_ok ms"
  shows "grid ms t \<le> grid ms t'"
proof -
  have "lua_millis t \<le> lua_millis t'"
  proof (cases "micros t = micros t'")
    case False
    then have "micros t + 1 \<le> micros t'" using assms(3) zdiv_mono1 [of t t' 1000] by (simp add: micros_def)
    then have "(of_int (micros t + 1) :: rat) \<le> of_int (micros t')" by (simp only: of_int_le_iff)
    then have "of_int (micros t) + 1 \<le> (of_int (micros t') :: rat)" by simp
    then show ?thesis unfolding lua_millis_def
      using abs_le_D1 [OF score_err [OF assms(1)]] abs_le_D2 [OF score_err [OF assms(2)]] by linarith
  qed (simp add: lua_millis_def)
  then have "fdiv (lua_millis t) (of_int ms) \<le> fdiv (lua_millis t') (of_int ms)"
    unfolding fdiv_def using ms_okD [OF assms(4)] by (intro f64_mono divide_right_mono) simp_all
  then show ?thesis unfolding grid_def window_index_def lua_floor_def by (rule floor_mono)
qed

text \<open>\<open>n\<close> grants in the window \<open>i\<close> are accounted for: the entry counts them, or the window is over.\<close>

definition counts_entry :: "int \<Rightarrow> int \<Rightarrow> int \<Rightarrow> nat \<Rightarrow> redis_entry option \<Rightarrow> bool" where
  "counts_entry limit ms i n o0 \<longleftrightarrow>
     (\<exists>e h c p t0. o0 = Some e \<and> re_value e = RHash h \<and> counter_hash limit h i c p \<and> int n \<le> c
        \<and> log_us (micros t0) \<and> grid ms t0 = i \<and> re_when e = millis_of t0 + (lua_ceil (fmul (of_int ms) 2) + 1000))"

definition counter_tracks :: "int \<Rightarrow> int \<Rightarrow> int \<Rightarrow> nat \<Rightarrow> time \<Rightarrow> redis_entry option \<Rightarrow> bool" where
  "counter_tracks limit ms i n T o0 \<longleftrightarrow>
     int n \<le> limit \<and> (0 < n \<longrightarrow> i < grid ms T \<or> i = grid ms T \<and> counts_entry limit ms i n o0)"

lemma counter_tracks_later:
  "counter_tracks limit ms i n T o0 \<Longrightarrow> grid ms T \<le> grid ms t \<Longrightarrow> counter_tracks limit ms i n t o0"
  by (auto simp: counter_tracks_def)

text \<open>In its own window an entry is seen as it is.\<close>

lemma counts_entry_seen:
  assumes "counts_entry limit ms (grid ms t) n (rd_keys r k)" and "log_us (micros t)" and "ms_ok ms"
    and "counts_at ms r t k = (of_int c, of_int p)"
  shows "int n \<le> c"
proof -
  obtain e h c' p' t0 where e: "rd_keys r k = Some e" "re_value e = RHash h" "counter_hash limit h (grid ms t) c' p'"
    "int n \<le> c'" "log_us (micros t0)" "grid ms t0 = grid ms t"
    "re_when e = millis_of t0 + (lua_ceil (fmul (of_int ms) 2) + 1000)" using assms(1) by (auto simp: counts_entry_def)
  have "\<bar>grid ms t\<bar> \<le> 10 ^ 14" using grid_quotient(1,2) [OF assms(2,3)] by simp
  from roll_hash [OF e(3) this] have "roll_counts h (of_int (grid ms t)) = (of_int c', of_int p')" by (simp add: rolled_counts_def)
  moreover have "millis_of t \<le> re_when e" using same_window_alive [OF e(5) assms(2,3)] e(6,7) by simp
  ultimately have "counts_at ms r t k = (of_int c', of_int p')" using e(1,2) by (simp add: counts_at_def redis_get_def hmget_def)
  with assms(4) e(4) show ?thesis by simp
qed

definition granted_in :: "int \<Rightarrow> int \<Rightarrow> time list \<Rightarrow> nat" where
  "granted_in ms i ts = length (filter (\<lambda>t. grid ms t = i) ts)"

lemma granted_in_simps: "granted_in ms i [] = 0" "granted_in ms i (ts @ us) = granted_in ms i ts + granted_in ms i us"
  "granted_in ms i [t] = (if grid ms t = i then 1 else 0)"
  by (simp_all add: granted_in_def)

lemma counter_step:
  assumes ok: "rsc_ok limit window s" and inv: "counters_ok s limit r" and t: "log_us (micros t)"
    and ms: "ms = counter_ms s" and tr: "counter_tracks limit ms i n t (rd_keys r (counter_key s key))"
  shows "counter_tracks limit ms i
      (n + granted_in ms i (if granted (fst (RedisSlidingWindowCounter_Allow s r t key)) then [t] else [])) t
      (rd_keys (snd (RedisSlidingWindowCounter_Allow s r t key)) (counter_key s key))"
proof -
  define a where "a = RedisSlidingWindowCounter_Allow s r t key"
  define k where "k = counter_key s key"
  note okD = rsc_okD [OF ok]
  obtain c p h where C: "0 \<le> c" "c \<le> limit" "0 \<le> p" "p \<le> limit" "counts_at ms r t k = (of_int c, of_int p)"
    and H: "counter_hash limit h (grid ms t) (if fits limit ms t c p then c + 1 else c) p"
    and K: "rd_keys (snd a) = (if rd_net r (rd_calls r) = Refused then rd_keys r
        else (rd_keys r)(k \<mapsto> \<lparr>re_value = RHash h, re_when = millis_of t + (lua_ceil (fmul (of_int ms) 2) + 1000)\<rparr>))"
    and F: "fst a = (if rd_net r (rd_calls r) = Runs then decode (counter_reply limit ms t c p) limit
         else Inl (ScriptError ''rate limiter script''))"
    using counter_cases [OF ok inv t, of key] unfolding a_def [symmetric] k_def [symmetric] ms [symmetric] by blast
  have g: "granted (fst a) \<Longrightarrow> fits limit ms t c p \<and> rd_net r (rd_calls r) = Runs"
    using F counter_reply_decodes [OF t okD(4) C(1-3) okD(1,2)] ms
    by (auto simp: granted_def split: sum.splits if_splits)
  define n' where "n' = n + granted_in ms i (if granted (fst a) then [t] else [])"
  have "counter_tracks limit ms i n' t (rd_keys (snd a) k)"
  proof (cases "rd_net r (rd_calls r) = Refused \<or> grid ms t \<noteq> i")
    case True
    then have "n' = n" using g by (auto simp: n'_def granted_in_simps)
    with True show ?thesis using tr K by (auto simp: counter_tracks_def k_def)
  next
    case False
    then have i: "grid ms t = i" by simp
    have "int n \<le> c"
    proof (cases "n = 0")
      case False
      then have "counts_entry limit ms (grid ms t) n (rd_keys r k)" using tr i by (simp add: counter_tracks_def k_def)
      from counts_entry_seen [OF this t _ C(5)] show ?thesis using okD(4) ms by simp
    qed (use C(1) in simp)
    then have n': "int n' \<le> (if fits limit ms t c p then c + 1 else c)" using g i by (auto simp: n'_def granted_in_simps)
    then have "counts_entry limit ms i n' (rd_keys (snd a) k)"
      unfolding counts_entry_def using H t False K i
      by (intro exI [of _ "\<lparr>re_value = RHash h, re_when = millis_of t + (lua_ceil (fmul (of_int ms) 2) + 1000)\<rparr>"]
          exI [of _ h] exI [of _ "if fits limit ms t c p then c + 1 else c"] exI [of _ p] exI [of _ t]) simp
    moreover have "int n' \<le> limit" using n' H unfolding counter_hash_def by linarith
    ultimately show ?thesis using i by (simp add: counter_tracks_def)
  qed
  then show ?thesis by (simp add: n'_def a_def k_def)
qed

lemma counter_run:
  assumes "rsc_ok limit window s" and "counters_ok s limit r" and "ms = counter_ms s"
    and "counter_tracks limit ms i n T (rd_keys r (counter_key s key))" and "log_us (micros T)"
    and "sorted (map fst reqs)" and "\<forall>(t, k) \<in> set reqs. log_us (micros t) \<and> T \<le> t"
  shows "int (n + granted_in ms i (granted_times (RedisSlidingWindowCounter_Allow s) key r reqs)) \<le> limit"
  using assms(2,4-)
proof (induction reqs arbitrary: r n T)
  case Nil
  then show ?case by (simp add: granted_times_simps granted_in_simps counter_tracks_def)
next
  case (Cons req reqs)
  obtain t k where req: "req = (t, k)" by (cases req)
  have t: "log_us (micros t)" "T \<le> t" and srt: "sorted (map fst reqs)"
    and rest: "\<forall>(t', k) \<in> set reqs. log_us (micros t') \<and> t \<le> t'"
    using Cons.prems(4,5) req by auto
  have ms: "ms_ok ms" using rsc_okD(4) [OF assms(1)] assms(3) by simp
  define a where "a = RedisSlidingWindowCounter_Allow s r t k"
  let ?new = "if k = key \<and> granted (fst a) then [t] else []"
  note tr = counter_tracks_later [OF Cons.prems(2) grid_mono [OF Cons.prems(3) t ms]]
  have "counter_tracks limit ms i (n + granted_in ms i ?new) t (rd_keys (snd a) (counter_key s key))"
  proof (cases "k = key")
    case True
    then show ?thesis using counter_step [OF assms(1) Cons.prems(1) t(1) assms(3) tr] by (simp add: a_def)
  next
    case False
    then have "rd_keys (snd a) (counter_key s key) = rd_keys r (counter_key s key)"
      unfolding a_def by (intro rsc.allow_frame) simp
    then show ?thesis using tr False by (simp add: granted_in_simps)
  qed
  from Cons.IH [OF counter_Allow_inv [OF assms(1) Cons.prems(1) t(1), of k, folded a_def] this t(1) srt rest]
  show ?case by (simp add: req granted_times_simps a_def [symmetric] granted_in_simps)
qed

text \<open>
  C16.  The shared counter never lets more than the limit into a window of the grid.  Whatever requests arrive at
  any number of processes, in the order of the server's clock, and whichever evaluations are refused or lose
  their reply, at most \<open>limit\<close> requests of one key are admitted between two neighbouring points of the grid.
\<close>

theorem shared_counter_ceiling:
  assumes "rsc_ok limit window s" and "counters_ok s limit r" and "sorted (map fst reqs)"
    and "\<forall>(t, k) \<in> set reqs. log_us (micros t)"
  shows "int (granted_in (counter_ms s) i (granted_times (RedisSlidingWindowCounter_Allow s) key r reqs)) \<le> limit"
proof (cases reqs)
  case Nil
  then show ?thesis using rsc_okD(1) [OF assms(1)] by (simp add: granted_times_simps granted_in_simps)
next
  case (Cons req rest)
  have "counter_tracks limit (counter_ms s) i 0 (fst req) (rd_keys r (counter_key s key))"
    using rsc_okD(1) [OF assms(1)] by (simp add: counter_tracks_def)
  from counter_run [OF assms(1,2) refl this _ assms(3)] assms(3,4) Cons show ?thesis by fastforce
qed

end
