(* ===== verification/RedisLogDemo.thy ===== *)
theory RedisLogDemo
  imports RedisDemo RedisCeiling RedisCounter
begin

text \<open>
  The shared window limiters on concrete configurations: their ceilings at work, and two ways past that of
  the log.
\<close>

definition new_fleet :: "RedisSlidingWindowLog \<Rightarrow> log_fleet" where
  "new_fleet s = \<lparr>lf_redis = empty_redis, lf_procs = (\<lambda>_. s)\<rparr>"

lemma new_fleet_ok:
  assumes "NewRedisSlidingWindowLog True prefix limit window = Inr s" and "limit \<le> 10 ^ 14" "window \<le> 2 ^ 61"
  shows "fleet_config prefix limit window (new_fleet s)" "fleet_start (new_fleet s)"
    "rd_net (lf_redis (new_fleet s)) = (\<lambda>_. Runs)"
  using assms by (auto simp: NewRedisSlidingWindowLog_def check_config_def new_fleet_def fleet_config_def
      fleet_start_def empty_redis_def split: if_splits)

lemma day_log: "log_us (micros day)" by (simp add: log_us_def micros_def)


text \<open>Five requests of one instant against a counter of three per minute.\<close>

theorem shared_counter_ceiling_witness:
  "\<exists>s. NewRedisSlidingWindowCounter True ''gateway'' 3 (60 * Second) = Inr s
     \<and> int (granted_in (counter_ms s) (grid (counter_ms s) day)
           (granted_times (RedisSlidingWindowCounter_Allow s) ''u'' empty_redis (replicate 5 (day, ''u'')))) \<le> 3"
proof -
  obtain s where s: "NewRedisSlidingWindowCounter True ''gateway'' 3 (60 * Second) = Inr s" "rsc_ok 3 (60 * Second) s"
    by (simp add: NewRedisSlidingWindowCounter_def check_config_def rsc_ok_def)
  have "int (granted_in (counter_ms s) (grid (counter_ms s) day)
      (granted_times (RedisSlidingWindowCounter_Allow s) ''u'' empty_redis (replicate 5 (day, ''u'')))) \<le> 3"
  proof (rule shared_counter_ceiling [OF s(2)])
    show "counters_ok s 3 empty_redis" by (simp add: counters_ok_def empty_redis_def)
    show "\<forall>(t, k) \<in> set (replicate 5 (day, ''u'')). log_us (micros t)" using day_log by simp
  qed simp
  with s(1) show ?thesis by blast
qed

section \<open>Past the ceiling\<close>

lemma admitted_all:
  assumes step: "\<And>s. J s \<Longrightarrow> granted (fst (allow s t key)) \<and> J (snd (allow s t key))" and "J s"
  shows "admitted allow key s (replicate n (t, key)) = n"
  using assms(2)
proof (induction n arbitrary: s)
  case (Suc n)
  from step [OF Suc.prems] Suc.IH show ?case by (simp add: admitted_Cons)
qed simp

text \<open>An evaluation that runs grants exactly when there is room.\<close>

lemma fleet_grants:
  assumes cfg: "fleet_config prefix limit window f" and ok: "zsets_ok prefix (lf_redis f)" and t: "log_us (micros now)"
    and run: "rd_net (lf_redis f) (rd_calls (lf_redis f)) = Runs" and room: "fleet_room prefix limit window f now key"
  shows "granted (fst (fleet_Allow who wall f now key))"
proof -
  obtain res where "fst (fleet_Allow who wall f now key) = Inr res"
    using fleet_fields(5) [OF cfg ok refl, of who wall now key] run
    by (auto simp: Let_def log_reply_def decode_tostring)
  then show ?thesis using fleet_Allow_wf [OF cfg ok t] room by (fastforce simp: granted_def fleet_room_def)
qed

text \<open>The sorted set of \<open>key\<close> holds one entry at most, and that entry satisfies \<open>P\<close>.\<close>

definition at_most_one :: "(string \<times> rat \<Rightarrow> bool) \<Rightarrow> redis_entry option \<Rightarrow> bool" where
  "at_most_one P o0 \<longleftrightarrow>
     (case o0 of None \<Rightarrow> True | Some e \<Rightarrow> \<exists>zs. re_value e = RZSet zs \<and> length zs \<le> 1 \<and> (\<forall>z \<in> set zs. P z))"

definition one_left :: "(string \<times> rat \<Rightarrow> bool) \<Rightarrow> string \<Rightarrow> int \<Rightarrow> duration \<Rightarrow> string \<Rightarrow> log_fleet \<Rightarrow> bool" where
  "one_left P prefix limit window key f \<longleftrightarrow>
     fleet_config prefix limit window f \<and> zsets_ok prefix (lf_redis f) \<and> rd_net (lf_redis f) = (\<lambda>_. Runs)
     \<and> at_most_one P (rd_keys (lf_redis f) (prefix_key prefix key))"

lemma one_left_start:
  assumes "NewRedisSlidingWindowLog True prefix limit window = Inr s" and "limit \<le> 10 ^ 14" "window \<le> 2 ^ 61"
  shows "one_left P prefix limit window key (new_fleet s)"
  using new_fleet_ok [OF assms] by (simp add: one_left_def at_most_one_def fleet_start_def zsets_ok_def)

lemma at_most_one_seen:
  "at_most_one P (rd_keys r k) \<Longrightarrow> length (zset_at r now k) \<le> 1 \<and> (\<forall>z \<in> set (zset_at r now k). P z)"
  by (auto simp: at_most_one_def zset_at_def redis_get_def split: option.splits redis_value.splits)

lemma one_left_step:
  assumes J: "one_left P prefix limit window key f" and t: "log_us (micros now)"
    and room: "fleet_room prefix limit window f now key"
    and one: "length (log_after limit (Milliseconds window) (next_member who wall f) (lf_redis f) now (prefix_key prefix key)) \<le> 1"
    and P: "\<forall>z \<in> set (log_after limit (Milliseconds window) (next_member who wall f) (lf_redis f) now (prefix_key prefix key)). P z"
  shows "granted (fst (fleet_Allow who wall f now key)) \<and> one_left P prefix limit window key (snd (fleet_Allow who wall f now key))"
proof -
  have cfg: "fleet_config prefix limit window f" "zsets_ok prefix (lf_redis f)" and net: "rd_net (lf_redis f) = (\<lambda>_. Runs)"
    using J by (simp_all add: one_left_def)
  have "at_most_one P (Some (fleet_entry who wall prefix limit window f now key))"
    using one P by (simp add: at_most_one_def fleet_entry_def log_entry_def Let_def)
  then show ?thesis
    using fleet_fields(2,4) [OF cfg refl, of who wall now key] fleet_grants [OF cfg t _ room] fleet_Allow_inv [OF cfg t] net
    by (simp add: one_left_def)
qed

text \<open>
  A window of less than a millisecond is none.  \<open>window.Milliseconds()\<close> is then 0, so that the script
  prunes every entry, the one of this very instant included: with a limit of one request per half a
  millisecond, any number of requests of one instant is admitted.
\<close>

theorem short_window_admits_all:
  "\<exists>s. NewRedisSlidingWindowLog True ''gateway'' 1 (Millisecond div 2) = Inr s
    \<and> (\<forall>n. admitted (fleet_Allow who wall) key (new_fleet s) (replicate n (day, key)) = n)"
proof -
  obtain s where s: "NewRedisSlidingWindowLog True ''gateway'' 1 (Millisecond div 2) = Inr s"
    by (simp add: NewRedisSlidingWindowLog_def check_config_def)
  let ?J = "one_left (\<lambda>z. snd z = lua_millis day) ''gateway'' 1 (Millisecond div 2) key"
  have ms: "Milliseconds (Millisecond div 2) = 0" by (simp add: Milliseconds_def go_div_def)
  have sub: "fsub (lua_millis day) 0 = lua_millis day" by (simp add: lua_millis_def score_def fsub_def fadd_def is_f64_f64 [unfolded is_f64_def])
  have "granted (fst (fleet_Allow who wall f day key)) \<and> ?J (snd (fleet_Allow who wall f day key))" if J: "?J f" for f
  proof (rule one_left_step [OF J day_log])
    have "\<forall>z \<in> set (zset_at (lf_redis f) day (prefix_key ''gateway'' key)). snd z = lua_millis day"
      using J at_most_one_seen unfolding one_left_def by blast
    then have k: "kept 0 (lf_redis f) day (prefix_key ''gateway'' key) = []"
      using sub by (auto simp: kept_def filter_empty_conv)
    then show "fleet_room ''gateway'' 1 (Millisecond div 2) f day key" by (simp only: fleet_room_def ms) simp
    show "length (log_after 1 (Milliseconds (Millisecond div 2)) (next_member who wall f) (lf_redis f) day
        (prefix_key ''gateway'' key)) \<le> 1"
      "\<forall>z \<in> set (log_after 1 (Milliseconds (Millisecond div 2)) (next_member who wall f) (lf_redis f) day
        (prefix_key ''gateway'' key)). snd z = lua_millis day"
      unfolding ms log_after_def k by (simp_all add: zadd_def)
  qed
  from admitted_all [where J = ?J and allow = "fleet_Allow who wall", OF this one_left_start [OF s]] s
  show ?thesis by auto
qed

text \<open>
  A caller's clock does affect the limit.  Processes that make their first calls at the same reading of
  their own clocks use one member of the sorted set, which then counts them as one request: with a limit of
  two per minute, one request from each of any number of processes is admitted within the minute.
\<close>

theorem equal_clocks_share_a_member:
  "\<exists>s. NewRedisSlidingWindowLog True ''gateway'' 2 (60 * Second) = Inr s
    \<and> (\<forall>n. admitted (fleet_Allow (\<lambda>i. i) (\<lambda>_. wall)) key (new_fleet s) (replicate n (day, key)) = n)"
proof -
  obtain s where s: "NewRedisSlidingWindowLog True ''gateway'' 2 (60 * Second) = Inr s" and seq: "rsl_seq s = 0"
    by (simp add: NewRedisSlidingWindowLog_def check_config_def)
  define m where "m = member_id wall 1"
  let ?A = "fleet_Allow (\<lambda>i. i) (\<lambda>_. wall)"
  let ?P = "\<lambda>z :: string \<times> rat. fst z = m"
  let ?J = "\<lambda>f. one_left ?P ''gateway'' 2 (60 * Second) key f \<and> (\<forall>p \<ge> rd_calls (lf_redis f). rsl_seq (lf_procs f p) = 0)"
  have "granted (fst (?A f day key)) \<and> ?J (snd (?A f day key))" if J: "?J f" for f
  proof -
    have one: "one_left ?P ''gateway'' 2 (60 * Second) key f" using J by blast
    then have cfg: "fleet_config ''gateway'' 2 (60 * Second) f" "zsets_ok ''gateway'' (lf_redis f)"
      by (simp_all add: one_left_def)
    have mem: "next_member (\<lambda>i. i) (\<lambda>_. wall) f = m" using J by (simp add: next_member_def m_def Let_def)
    let ?k = "kept (Milliseconds (60 * Second)) (lf_redis f) day (prefix_key ''gateway'' key)"
    have seen: "length (zset_at (lf_redis f) day (prefix_key ''gateway'' key)) \<le> 1"
      "\<forall>z \<in> set (zset_at (lf_redis f) day (prefix_key ''gateway'' key)). fst z = m"
      using one at_most_one_seen unfolding one_left_def by blast+
    have k: "length ?k \<le> 1" "\<forall>z \<in> set ?k. fst z = m"
      using seen by (auto simp: kept_def intro: order_trans [OF length_filter_le])
    have "filter (\<lambda>(m', _). m' \<noteq> m) ?k = []" using k(2) by (auto simp: filter_empty_conv)
    then have after: "log_after 2 (Milliseconds (60 * Second)) m (lf_redis f) day (prefix_key ''gateway'' key) = [(m, lua_millis day)]"
      using k(1) by (simp add: log_after_def zadd_def)
    have "granted (fst (?A f day key)) \<and> one_left ?P ''gateway'' 2 (60 * Second) key (snd (?A f day key))"
    proof (rule one_left_step [OF one day_log])
      show "fleet_room ''gateway'' 2 (60 * Second) f day key" using k(1) by (simp add: fleet_room_def)
    qed (simp_all only: mem after, simp_all)
    then show ?thesis using J fleet_fields(1,3) [OF cfg refl, of "\<lambda>i. i" "\<lambda>_. wall" day key] by (simp add: Let_def)
  qed
  moreover have "?J (new_fleet s)" using one_left_start [OF s] seq by (simp add: new_fleet_def)
  ultimately show ?thesis using s admitted_all [where J = ?J and allow = ?A] by auto
qed

end
