(* ===== verification/Boot.thy ===== *)
theory Boot
  imports Limiter Httpx
begin

text \<open>
  What the start-up code of every program shares: a trace of the resources it acquires and releases, Go's
  \<open>defer\<close>, and the configuration read from the environment (\<open>env\<close>, \<open>envInt\<close>, \<open>envDuration\<close> of the
  \<open>main.go\<close> files).
\<close>

section \<open>Traces\<close>

record TopicConfig =
  Topic :: string
  NumPartitions :: int
  ReplicationFactor :: int

record http_server =
  sv_Addr :: string
  sv_ReadHeaderTimeout :: duration
  sv_ReadTimeout :: duration
  sv_WriteTimeout :: duration
  sv_IdleTimeout :: duration

datatype resource = Pool | Migrator | Broker string | Writer | Consumers | RedisClient

datatype 'api event =
    Created string "TopicConfig list" | Pinged | Migrated | Polled nat
  | Consuming string string | Listening http_server 'api | ShutDown

datatype 'api act = Acquired resource | Released resource | Did "'api event"

text \<open>A step: an error or a value, and what it did, in the order of time.\<close>

type_synonym ('e, 'a, 'api) boot = "('e, 'a) result \<times> 'api act list"

definition and_then :: "('e, 'a, 'api) boot \<Rightarrow> ('a \<Rightarrow> ('e, 'b, 'api) boot) \<Rightarrow> ('e, 'b, 'api) boot" where
  "and_then m f = (case m of (Inl e, as) \<Rightarrow> (Inl e, as) | (Inr x, as) \<Rightarrow> (fst (f x), as @ snd (f x)))"

definition or_error :: "('e \<Rightarrow> 'f) \<Rightarrow> ('e, 'a, 'api) boot \<Rightarrow> ('f, 'a, 'api) boot" where
  "or_error c m = (case m of (Inl e, as) \<Rightarrow> (Inl (c e), as) | (Inr x, as) \<Rightarrow> (Inr x, as))"

definition did :: "'api event \<Rightarrow> ('e, unit, 'api) boot" where "did ev = (Inr (), [Did ev])"

definition check :: "'e option \<Rightarrow> ('e, unit, 'api) boot" where
  "check err = (case err of Some e \<Rightarrow> (Inl e, []) | None \<Rightarrow> (Inr (), []))"

definition given :: "('e, 'a) result \<Rightarrow> ('e, 'a, 'api) boot" where "given r = (r, [])"

text \<open>\<open>defer\<close>: a resource that is held is released however the rest ends; \<open>holding_resource\<close> acquires it first.\<close>

definition deferring :: "resource \<Rightarrow> ('e, 'a, 'api) boot \<Rightarrow> ('e, 'a, 'api) boot" where
  "deferring r m = (fst m, snd m @ [Released r])"

definition holding_resource :: "resource \<Rightarrow> ('e, 'a, 'api) boot \<Rightarrow> ('e, 'a, 'api) boot" where
  "holding_resource r m = (fst m, Acquired r # snd m @ [Released r])"

lemmas boot_defs = and_then_def or_error_def did_def check_def given_def deferring_def holding_resource_def

section \<open>Resources\<close>

text \<open>The resources held after a trace, the latest first; \<open>None\<close> when one is released out of turn.\<close>

fun held :: "'api act list \<Rightarrow> resource list \<Rightarrow> resource list option" where
  "held [] st = Some st"
| "held (Acquired r # as) st = held as (r # st)"
| "held (Released r # as) st = (case st of [] \<Rightarrow> None | x # st' \<Rightarrow> if x = r then held as st' else None)"
| "held (Did _ # as) st = held as st"

text \<open>A trace that releases what it acquires, in reverse order.\<close>

definition clean :: "'api act list \<Rightarrow> bool" where
  "clean as \<longleftrightarrow> (\<forall>st. held as st = Some st)"

definition leaves_held :: "resource \<Rightarrow> 'api act list \<Rightarrow> bool" where
  "leaves_held r as \<longleftrightarrow> (\<forall>st. held as st = Some (r # st))"

lemma held_append: "held (as @ bs) st = (case held as st of None \<Rightarrow> None | Some st' \<Rightarrow> held bs st')"
  by (induction as st rule: held.induct) (auto split: list.splits)

lemma clean_basic [simp, intro]: "clean []" "clean [Did ev]"
  by (simp_all add: clean_def)

lemma clean_append [intro]: "clean as \<Longrightarrow> clean bs \<Longrightarrow> clean (as @ bs)"
  by (simp add: clean_def held_append)

lemma clean_leaves: "leaves_held r as \<Longrightarrow> clean bs \<Longrightarrow> clean (as @ bs @ [Released r])"
  by (simp add: clean_def leaves_held_def held_append)

lemma clean_and_then [intro]:
  "clean (snd m) \<Longrightarrow> (\<And>x. fst m = Inr x \<Longrightarrow> clean (snd (f x))) \<Longrightarrow> clean (snd (and_then m f))"
  by (auto simp: and_then_def split: prod.splits sum.splits)

lemma clean_or_error [simp, intro]: "clean (snd m) \<Longrightarrow> clean (snd (or_error c m))"
  by (auto simp: or_error_def split: prod.splits sum.splits)

lemma clean_steps [simp, intro]: "clean (snd (did ev))" "clean (snd (check e))" "clean (snd (given r))"
  by (auto simp: did_def check_def given_def split: option.splits)

lemma clean_holding [simp, intro]: "clean (snd m) \<Longrightarrow> clean (snd (holding_resource r m))"
  by (simp add: clean_def holding_resource_def held_append)

lemma clean_deferring:
  assumes "case m of (Inl _, as) \<Rightarrow> clean as | (Inr _, as) \<Rightarrow> leaves_held r as" and "\<And>x. fst m = Inr x \<Longrightarrow> clean (snd (f x))"
  shows "clean (snd (and_then m (\<lambda>x. deferring r (f x))))"
  using assms by (auto simp: and_then_def deferring_def intro: clean_leaves split: prod.splits sum.splits)

section \<open>Configuration\<close>

type_synonym environ = "string \<Rightarrow> string"

definition getenv_or :: "environ \<Rightarrow> string \<Rightarrow> string \<Rightarrow> string" where
  "getenv_or getenv key fallback = (if getenv key \<noteq> '''' then getenv key else fallback)"

datatype config_error = MustBeSet string | TooShort string | NotInteger string string | NotDuration string string

definition envInt :: "environ \<Rightarrow> string \<Rightarrow> int \<Rightarrow> (config_error, int) result" where
  "envInt getenv key fallback =
     (let v = getenv key in
      if v = '''' then Inr fallback
      else case Atoi v of None \<Rightarrow> Inl (NotInteger key v) | Some n \<Rightarrow> Inr n)"

text \<open>\<open>time.ParseDuration\<close> is a parameter.\<close>

definition envDuration ::
  "(string \<Rightarrow> duration option) \<Rightarrow> environ \<Rightarrow> string \<Rightarrow> duration \<Rightarrow> (config_error, duration) result" where
  "envDuration ParseDuration getenv key fallback =
     (let v = getenv key in
      if v = '''' then Inr fallback
      else case ParseDuration v of None \<Rightarrow> Inl (NotDuration key v) | Some d \<Rightarrow> Inr d)"

text \<open>\<open>strings.Split\<close> at one character: there is always a first piece.\<close>

fun Split :: "char \<Rightarrow> string \<Rightarrow> string list" where
  "Split sep [] = [[]]"
| "Split sep (c # cs) =
     (let rest = Split sep cs in if c = sep then [] # rest else (c # hd rest) # tl rest)"

lemma Split_nonempty: "Split sep s \<noteq> []"
  by (induction s) (auto simp: Let_def)

end
