(* ===== verification/Topics.thy ===== *)
theory Topics
  imports Boot Events
begin

text \<open>
  Creating the saga's topics and waiting for them (\<open>pkg/events/topics.go\<close>).  The Kafka client is a
  parameter: what its calls answer, and how long they take.
\<close>

section \<open>Creating topics\<close>

text \<open>What the cluster answers; a broker is named by its address, a controller by its host and port joined.\<close>

record cluster =
  cl_Dial :: "string \<Rightarrow> (string, unit) result"
  cl_Controller :: "string \<Rightarrow> (string, string) result"
  cl_CreateTopics :: "string \<Rightarrow> TopicConfig list \<Rightarrow> (string, unit) result"

datatype poll_error = ClientError string | OnlyVisible nat nat

datatype topics_error =
    NoBrokers | DialFailed string | NoController string | CreateFailed string
  | CtxErr string | NotReady duration "poll_error option" | IndexPanic

definition topic_configs :: "string list \<Rightarrow> int \<Rightarrow> int \<Rightarrow> TopicConfig list" where
  "topic_configs topics partitions replication =
     map (\<lambda>t. \<lparr>Topic = t, NumPartitions = partitions, ReplicationFactor = replication\<rparr>) topics"

definition EnsureTopics :: "cluster \<Rightarrow> string list \<Rightarrow> string list \<Rightarrow> int \<Rightarrow> int \<Rightarrow> (topics_error, unit, 'api) boot" where
  "EnsureTopics cl brokers topics partitions replication =
     (case brokers of
        [] \<Rightarrow> (Inl NoBrokers, [])
      | broker # _ \<Rightarrow>
          (case cl_Dial cl broker of
             Inl e \<Rightarrow> (Inl (DialFailed e), [])
           | Inr _ \<Rightarrow>
               holding_resource (Broker broker)
                 (case cl_Controller cl broker of
                    Inl e \<Rightarrow> (Inl (NoController e), [])
                  | Inr controller \<Rightarrow>
                      (case cl_Dial cl controller of
                         Inl e \<Rightarrow> (Inl (DialFailed e), [])
                       | Inr _ \<Rightarrow>
                           holding_resource (Broker controller)
                             (let configs = topic_configs topics partitions replication in
                              case cl_CreateTopics cl controller configs of
                                Inl e \<Rightarrow> (Inl (CreateFailed e), [])
                              | Inr _ \<Rightarrow> did (Created controller configs))))))"

definition SagaTopics :: "string list" where
  "SagaTopics = [TopicOrderCreated, TopicPaymentSucceeded, TopicPaymentFailed]"

definition DefaultPartitions :: int where "DefaultPartitions = 3"

text \<open>Every connection is closed, the controller's first.\<close>

lemma EnsureTopics_clean: "clean (snd (EnsureTopics cl brokers topics partitions replication))"
  by (auto simp: EnsureTopics_def Let_def split: list.splits sum.splits)

section \<open>Waiting for topics\<close>

text \<open>
  One turn of the loop as it will go: what the context says, what dialling and reading the partitions (a
  topic each) answer, how long that takes and how much longer than asked the sleep lasts.
\<close>

record poll =
  po_ctx :: "string option"
  po_dial :: "(string, unit) result"
  po_read :: "(string, string list) result"
  po_took :: nat
  po_late :: nat

record waiting =
  w_now :: time
  w_polls :: nat
  w_open :: int
  w_lastErr :: "poll_error option"

definition found_topics :: "string list \<Rightarrow> string list \<Rightarrow> nat" where
  "found_topics topics partitions = length (remdups (filter (\<lambda>t. t \<in> set topics) partitions))"

definition wanted_topics :: "string list \<Rightarrow> nat" where
  "wanted_topics topics = length (remdups topics)"

datatype poll_verdict = Ready | Again poll_error | Stop string

text \<open>A turn's verdict, and the connections it leaves open: none.\<close>

definition poll_once :: "string list \<Rightarrow> poll \<Rightarrow> int \<Rightarrow> poll_verdict \<times> int" where
  "poll_once topics p conns =
     (case po_ctx p of
        Some e \<Rightarrow> (Stop e, conns)
      | None \<Rightarrow>
          (case po_dial p of
             Inl e \<Rightarrow> (Again (ClientError e), conns)
           | Inr _ \<Rightarrow>
               (let conns = conns + 1; answer = po_read p; conns = conns - 1 in
                case answer of
                  Inl e \<Rightarrow> (Again (ClientError e), conns)
                | Inr partitions \<Rightarrow>
                    (if found_topics topics partitions = wanted_topics topics then (Ready, conns)
                     else (Again (OnlyVisible (found_topics topics partitions) (wanted_topics topics)), conns)))))"

definition poll_pause :: duration where "poll_pause = 200 * Millisecond"

function wait_loop :: "string list \<Rightarrow> string list \<Rightarrow> duration \<Rightarrow> time \<Rightarrow> (nat \<Rightarrow> poll) \<Rightarrow> waiting
    \<Rightarrow> (topics_error, unit) result \<times> waiting" where
  "wait_loop brokers topics timeout deadline polls w =
     (if \<not> w_now w < deadline then (Inl (NotReady timeout (w_lastErr w)), w)
      else
        let p = polls (w_polls w);
            (verdict, conns) = poll_once topics p (w_open w);
            w' = w\<lparr>w_polls := w_polls w + 1, w_open := conns\<rparr>
        in if po_ctx p = None \<and> brokers = [] then (Inl IndexPanic, w)
           else case verdict of
             Stop e \<Rightarrow> (Inl (CtxErr e), w')
           | Ready \<Rightarrow> (Inr (), w'\<lparr>w_now := w_now w + int (po_took p)\<rparr>)
           | Again e \<Rightarrow>
               wait_loop brokers topics timeout deadline polls
                 (w'\<lparr>w_now := w_now w + int (po_took p) + poll_pause + int (po_late p), w_lastErr := Some e\<rparr>))"
  by pat_completeness auto

termination
  by (relation "measure (\<lambda>(_, _, _, deadline, _, w). nat (deadline - w_now w))") (auto simp: poll_pause_def)

declare wait_loop.simps [simp del]

definition WaitForTopics :: "string list \<Rightarrow> string list \<Rightarrow> duration \<Rightarrow> (nat \<Rightarrow> poll) \<Rightarrow> time
    \<Rightarrow> (topics_error, unit) result \<times> waiting" where
  "WaitForTopics brokers topics timeout polls start =
     wait_loop brokers topics timeout (time_add start timeout) polls
       \<lparr>w_now = start, w_polls = 0, w_open = 0, w_lastErr = None\<rparr>"

section \<open>What waiting promises\<close>

lemma found_all: "found_topics topics partitions = wanted_topics topics \<longleftrightarrow> set topics \<subseteq> set partitions"
proof -
  have f: "found_topics topics partitions = card (set topics \<inter> set partitions)"
    by (simp add: found_topics_def length_remdups_card_conv Int_def conj_commute)
  have "card (set topics \<inter> set partitions) = card (set topics) \<longleftrightarrow> set topics \<inter> set partitions = set topics"
    by (metis List.finite_set card_subset_eq inf_le1)
  then show ?thesis by (auto simp: f wanted_topics_def length_remdups_card_conv)
qed

definition sees_all :: "string list \<Rightarrow> poll \<Rightarrow> bool" where
  "sees_all topics p \<longleftrightarrow>
     po_ctx p = None \<and> (\<exists>u. po_dial p = Inr u) \<and> (\<exists>ps. po_read p = Inr ps \<and> set topics \<subseteq> set ps)"

definition missing :: "string list \<Rightarrow> poll \<Rightarrow> poll_error" where
  "missing topics p =
     (case (po_dial p, po_read p) of
        (Inl e, _) \<Rightarrow> ClientError e
      | (_, Inl e) \<Rightarrow> ClientError e
      | (_, Inr ps) \<Rightarrow> OnlyVisible (found_topics topics ps) (wanted_topics topics))"

lemma poll_once_cases:
  "poll_once topics p n =
     ((case po_ctx p of Some e \<Rightarrow> Stop e
       | None \<Rightarrow> if sees_all topics p then Ready else Again (missing topics p)), n)"
  by (auto simp: poll_once_def sees_all_def missing_def found_all split: option.splits sum.splits)

text \<open>Every turn but the last found the context alive and some topic missing, and waited its pause.\<close>

definition pauses :: "(nat \<Rightarrow> poll) \<Rightarrow> nat \<Rightarrow> nat \<Rightarrow> int" where
  "pauses polls a b = (\<Sum>i = a..<b. int (po_took (polls i)) + poll_pause + int (po_late (polls i)))"

lemma pauses_Suc: "a \<le> b \<Longrightarrow> pauses polls a (Suc b) = pauses polls a b + int (po_took (polls b)) + poll_pause + int (po_late (polls b))"
  by (simp add: pauses_def)

lemma pauses_step: "a < b \<Longrightarrow> pauses polls a b = int (po_took (polls a)) + poll_pause + int (po_late (polls a)) + pauses polls (Suc a) b"
  by (simp add: pauses_def sum.atLeast_Suc_lessThan)

definition idle :: "string list \<Rightarrow> (nat \<Rightarrow> poll) \<Rightarrow> nat \<Rightarrow> nat \<Rightarrow> bool" where
  "idle topics polls a b \<longleftrightarrow> (\<forall>i \<in> {a..<b}. po_ctx (polls i) = None \<and> \<not> sees_all topics (polls i))"

lemma idle_step: "po_ctx (polls a) = None \<Longrightarrow> \<not> sees_all topics (polls a) \<Longrightarrow> idle topics polls (Suc a) b \<Longrightarrow> idle topics polls a b"
  unfolding idle_def by (metis Suc_leI atLeastLessThan_iff le_neq_implies_less)

text \<open>How a wait that is at turn \<open>n\<close> at the instant \<open>now\<close> can end after \<open>m\<close> turns, at \<open>now'\<close>.\<close>

definition wait_verdict :: "string list \<Rightarrow> time \<Rightarrow> (nat \<Rightarrow> poll) \<Rightarrow> nat \<Rightarrow> time \<Rightarrow> (topics_error, unit) result \<Rightarrow> nat \<Rightarrow> time \<Rightarrow> bool"
  where
  "wait_verdict topics deadline polls n now res m now' \<longleftrightarrow>
     (case res of
        Inr _ \<Rightarrow> n < m \<and> sees_all topics (polls (m - 1)) \<and> idle topics polls n (m - 1)
      | Inl (CtxErr e) \<Rightarrow> n < m \<and> po_ctx (polls (m - 1)) = Some e \<and> idle topics polls n (m - 1)
      | Inl (NotReady _ _) \<Rightarrow> now' = now + pauses polls n m \<and> deadline \<le> now' \<and> idle topics polls n m
      | _ \<Rightarrow> False)"

definition wait_end :: "string list \<Rightarrow> time \<Rightarrow> (nat \<Rightarrow> poll) \<Rightarrow> nat \<Rightarrow> time \<Rightarrow> nat \<Rightarrow> bool" where
  "wait_end topics deadline polls n now m \<longleftrightarrow> n \<le> m \<and> (n < m \<longrightarrow> now + pauses polls n (m - 1) < deadline)"

lemma wait_verdict_step:
  assumes "po_ctx (polls n) = None" "\<not> sees_all topics (polls n)" and "n < m"
    and now1: "now1 = now + int (po_took (polls n)) + poll_pause + int (po_late (polls n))"
    and v: "wait_verdict topics deadline polls (Suc n) now1 res m now'"
  shows "wait_verdict topics deadline polls n now res m now'"
proof -
  have p: "now1 + pauses polls (Suc n) m = now + pauses polls n m"
    using pauses_step [OF assms(3), of polls] now1 by simp
  show ?thesis
    using v idle_step [of polls n topics, OF assms(1,2)] assms(3) p
    by (cases res; cases "projl res") (auto simp: wait_verdict_def)
qed

lemma wait_end_step:
  assumes "now < deadline" and now1: "now1 = now + int (po_took (polls n)) + poll_pause + int (po_late (polls n))"
    and "wait_end topics deadline polls (Suc n) now1 m"
  shows "wait_end topics deadline polls n now m"
  using assms pauses_step [of n "m - 1" polls]
  by (cases "Suc n = m") (auto simp: wait_end_def pauses_def)

lemma wait_loop_end:
  assumes "brokers \<noteq> []" and "wait_loop brokers topics timeout deadline polls w = (res, w')"
  shows "w_open w' = w_open w \<and> wait_end topics deadline polls (w_polls w) (w_now w) (w_polls w')
    \<and> wait_verdict topics deadline polls (w_polls w) (w_now w) res (w_polls w') (w_now w')"
  using assms
proof (induction brokers topics timeout deadline polls w rule: wait_loop.induct)
  case (1 brokers topics timeout deadline polls w)
  define p where "p = polls (w_polls w)"
  show ?case
  proof (cases "w_now w < deadline \<and> po_ctx p = None \<and> \<not> sees_all topics p")
    case False
    then show ?thesis using "1.prems"
      by (subst (asm) wait_loop.simps)
        (auto simp: poll_once_cases p_def [symmetric] wait_end_def wait_verdict_def idle_def pauses_def Let_def
          split: if_splits option.splits)
  next
    case True
    obtain e where v: "poll_once topics p (w_open w) = (Again e, w_open w)" using True by (auto simp: poll_once_cases)
    define w1 where "w1 = w\<lparr>w_polls := w_polls w + 1, w_open := w_open w,
        w_now := w_now w + int (po_took p) + poll_pause + int (po_late p), w_lastErr := Some e\<rparr>"
    have f: "w_polls w1 = Suc (w_polls w)" "w_open w1 = w_open w"
      "w_now w1 = w_now w + int (po_took p) + poll_pause + int (po_late p)" by (simp_all add: w1_def)
    have "wait_loop brokers topics timeout deadline polls w1 = (res, w')"
      using "1.prems" True v by (subst (asm) wait_loop.simps) (simp add: p_def [symmetric] w1_def Let_def)
    then have IH: "w_open w' = w_open w \<and> wait_end topics deadline polls (Suc (w_polls w)) (w_now w1) (w_polls w')
        \<and> wait_verdict topics deadline polls (Suc (w_polls w)) (w_now w1) res (w_polls w') (w_now w')"
      using "1.IH" [of p _ "Again e" "w_open w" "w\<lparr>w_polls := w_polls w + 1, w_open := w_open w\<rparr>" e] "1.prems"(1) True v
      unfolding f [symmetric] by (simp add: p_def w1_def)
    moreover have "w_polls w < w_polls w'" using IH by (simp add: wait_end_def)
    ultimately show ?thesis
      using True wait_end_step [where n = "w_polls w" and polls = polls, OF _ f(3) [unfolded p_def]]
        wait_verdict_step [where n = "w_polls w" and polls = polls, OF _ _ _ f(3) [unfolded p_def]]
      by (simp add: p_def)
  qed
qed

lemma pauses_ge: "a \<le> b \<Longrightarrow> int (b - a) * poll_pause \<le> pauses polls a b"
proof -
  have "(\<Sum>i = a..<b. poll_pause) \<le> pauses polls a b" unfolding pauses_def by (intro sum_mono) simp
  then show "a \<le> b \<Longrightarrow> int (b - a) * poll_pause \<le> pauses polls a b" by simp
qed

lemma pauses_le:
  assumes "\<forall>i < b. int (po_took (polls i)) + int (po_late (polls i)) \<le> D"
  shows "pauses polls 0 b \<le> int b * (poll_pause + D)"
proof -
  have "pauses polls 0 b \<le> (\<Sum>i = 0..<b. poll_pause + D)"
    unfolding pauses_def using assms by (intro sum_mono) (simp add: algebra_simps)
  then show ?thesis by simp
qed

lemma WaitForTopics_end:
  assumes "brokers \<noteq> []" and "WaitForTopics brokers topics timeout polls start = (res, w)"
  shows "w_open w = 0" and "0 < w_polls w \<Longrightarrow> int (w_polls w - 1) * poll_pause < timeout"
    and "wait_verdict topics (start + timeout) polls 0 start res (w_polls w) (w_now w)"
proof -
  have e: "w_open w = 0 \<and> wait_end topics (start + timeout) polls 0 start (w_polls w)
      \<and> wait_verdict topics (start + timeout) polls 0 start res (w_polls w) (w_now w)"
    using wait_loop_end [OF assms(1)] assms(2) by (force simp: WaitForTopics_def time_add_def)
  then show "w_open w = 0" "wait_verdict topics (start + timeout) polls 0 start res (w_polls w) (w_now w)" by simp_all
  show "0 < w_polls w \<Longrightarrow> int (w_polls w - 1) * poll_pause < timeout"
    using e pauses_ge [of 0 "w_polls w - 1" polls] by (simp add: wait_end_def)
qed

text \<open>
  C33.  Waiting for topics ends.  With a timeout of \<open>n\<close> pauses of 200 ms it makes at most \<open>n\<close> attempts, however
  long they take, and closes every connection it opened; it answers without error exactly when the last
  attempt saw every topic.
\<close>

theorem waiting_ends:
  assumes "brokers \<noteq> []" and "timeout \<le> int n * poll_pause"
    and "WaitForTopics brokers topics timeout polls start = (res, w)"
  shows "w_polls w \<le> n \<and> w_open w = 0
    \<and> (is_ok res \<longleftrightarrow> 0 < w_polls w \<and> sees_all topics (polls (w_polls w - 1)))"
proof -
  note W = WaitForTopics_end [OF assms(1,3)]
  have "w_polls w \<le> n"
  proof (rule ccontr)
    assume "\<not> w_polls w \<le> n"
    then have "int n * poll_pause \<le> int (w_polls w - 1) * poll_pause"
      by (intro mult_right_mono) (simp_all add: poll_pause_def)
    then show False using W(2) assms(2) \<open>\<not> w_polls w \<le> n\<close> by simp
  qed
  moreover have "is_ok res \<longleftrightarrow> 0 < w_polls w \<and> sees_all topics (polls (w_polls w - 1))"
    using W(3) by (auto simp: wait_verdict_def idle_def sees_all_def split: sum.splits topics_error.splits)
  ultimately show ?thesis using W(1) by blast
qed

text \<open>
  Topics that become visible in time are found.  If the context stays alive and attempt \<open>k\<close> sees every
  topic, with \<open>k\<close> attempts and pauses fitting into the timeout, waiting answers without error by attempt \<open>k\<close>.
\<close>

theorem visible_topics_are_found:
  assumes "brokers \<noteq> []" and "\<forall>i \<le> k. po_ctx (polls i) = None" and "sees_all topics (polls k)"
    and "\<forall>i < k. int (po_took (polls i)) + int (po_late (polls i)) \<le> D" and "int k * (poll_pause + D) < timeout"
    and "WaitForTopics brokers topics timeout polls start = (res, w)"
  shows "is_ok res \<and> w_polls w \<le> k + 1"
proof -
  note W = WaitForTopics_end(3) [OF assms(1,6)]
  have at_k: "pauses polls 0 k < timeout" using pauses_le [OF assms(4)] assms(5) by (rule order.strict_trans1)
  have seen: "m \<le> k" if "idle topics polls 0 m" for m
    using that assms(3) unfolding idle_def by (meson atLeastLessThan_iff le0 not_le)
  show ?thesis
  proof (cases res)
    case (Inr u)
    then show ?thesis using W seen [of "w_polls w - 1"] by (auto simp: wait_verdict_def)
  next
    case (Inl e)
    show ?thesis
    proof (cases e)
      case (CtxErr c)
      then show ?thesis using W Inl seen [of "w_polls w - 1"] assms(2) by (auto simp: wait_verdict_def)
    next
      case (NotReady d l)
      then have all: "idle topics polls 0 (w_polls w)" and late: "timeout \<le> pauses polls 0 (w_polls w)"
        using W Inl by (auto simp: wait_verdict_def)
      have "pauses polls 0 (w_polls w) \<le> pauses polls 0 k"
        unfolding pauses_def using seen [OF all] by (intro sum_mono2) (auto simp: poll_pause_def)
      then show ?thesis using late at_k by simp
    qed (use W Inl in \<open>auto simp: wait_verdict_def\<close>)
  qed
qed

text \<open>A broker that answers from its third connection on.\<close>

definition slow_cluster :: "nat \<Rightarrow> poll" where
  "slow_cluster i = \<lparr>po_ctx = None, po_dial = (if i = 0 then Inl ''refused'' else Inr ()),
     po_read = Inr (if i = 1 then [''order.created''] else [''order.created'', ''payment.failed'', ''order.created'']),
     po_took = 1000000, po_late = 0\<rparr>"

definition slow_topics :: "string list" where "slow_topics = [''payment.failed'', ''order.created'']"

lemma slow_sees: "sees_all slow_topics (slow_cluster i) \<longleftrightarrow> 2 \<le> i"
  by (auto simp: sees_all_def slow_cluster_def slow_topics_def)

theorem waiting_ends_witness:
  "w_polls (snd (WaitForTopics [''k''] slow_topics (2 * poll_pause) slow_cluster 5)) \<le> 2
   \<and> w_open (snd (WaitForTopics [''k''] slow_topics (2 * poll_pause) slow_cluster 5)) = 0"
  using waiting_ends [where brokers = "[''k'']" and n = 2 and timeout = "2 * poll_pause" and topics = slow_topics
      and polls = slow_cluster and start = 5, OF _ _ prod.collapse [symmetric]]
  by simp

theorem visible_topics_are_found_witness:
  "is_ok (fst (WaitForTopics [''k''] slow_topics (30 * Second) slow_cluster 5))
   \<and> w_polls (snd (WaitForTopics [''k''] slow_topics (30 * Second) slow_cluster 5)) \<le> 3"
proof -
  have "is_ok (fst (WaitForTopics [''k''] slow_topics (30 * Second) slow_cluster 5))
      \<and> w_polls (snd (WaitForTopics [''k''] slow_topics (30 * Second) slow_cluster 5)) \<le> 2 + 1"
    by (rule visible_topics_are_found [where D = 1000000 and polls = slow_cluster, OF _ _ _ _ _ prod.collapse [symmetric]])
      (simp_all add: slow_sees, simp_all add: slow_cluster_def poll_pause_def)
  then show ?thesis by simp
qed

end
