(* ===== verification/Dbx.thy ===== *)
theory Dbx
  imports Boot
begin

text \<open>
  Connecting to a database and applying its migrations (\<open>pkg/dbx/dbx.go\<close>).  The pool library and the
  migration library are parameters: what each of their calls answers.
\<close>

section \<open>Connecting\<close>

record pool_config =
  pc_target :: string
  pc_MaxConns :: int
  pc_MinConns :: int
  pc_MaxConnLifetime :: duration
  pc_MaxConnIdleTime :: duration
  pc_HealthCheckPeriod :: duration

text \<open>
  \<open>db_Ping n\<close> and \<open>db_Done n\<close> are the answer to the \<open>n\<close>-th ping, and the context's error when the wait after
  it is cut short.
\<close>

record database =
  db_ParseConfig :: "string \<Rightarrow> (string, pool_config) result"
  db_New :: "pool_config \<Rightarrow> string option"
  db_Ping :: "nat \<Rightarrow> string option"
  db_Done :: "nat \<Rightarrow> string option"
  db_Source :: "string \<Rightarrow> string option"
  db_Migrator :: "string \<Rightarrow> string option"
  db_Up :: "string option"

datatype db_error =
    BadDSN string | NoPool string | Cancelled string | Unreachable string
  | NoMigrations string string | NoMigrator string | NotApplied string

definition pool_limits :: "pool_config \<Rightarrow> pool_config" where
  "pool_limits cfg = cfg\<lparr>pc_MaxConns := 20, pc_MinConns := 2, pc_MaxConnLifetime := 3600 * Second,
     pc_MaxConnIdleTime := 1800 * Second, pc_HealthCheckPeriod := 60 * Second\<rparr>"

text \<open>The attempts from the \<open>n\<close>-th on.\<close>

function ping_loop :: "database \<Rightarrow> nat \<Rightarrow> string \<Rightarrow> (db_error, unit, 'api) boot" where
  "ping_loop db n lastErr =
     (if n < 10 then
        case db_Ping db n of
          None \<Rightarrow> (Inr (), [Did Pinged])
        | Some e \<Rightarrow>
            (case db_Done db n of
               Some c \<Rightarrow> (Inl (Cancelled c), [Did Pinged, Released Pool])
             | None \<Rightarrow> and_then (did Pinged) (\<lambda>_. ping_loop db (n + 1) e))
      else (Inl (Unreachable lastErr), [Released Pool]))"
  by pat_completeness auto

termination
  by (relation "measure (\<lambda>(_, n, _). 10 - n)") auto

declare ping_loop.simps [simp del]

definition Connect :: "database \<Rightarrow> string \<Rightarrow> (db_error, pool_config, 'api) boot" where
  "Connect db dsn =
     (case db_ParseConfig db dsn of
        Inl e \<Rightarrow> (Inl (BadDSN e), [])
      | Inr parsed \<Rightarrow>
          (let cfg = pool_limits parsed in
           case db_New db cfg of
             Some e \<Rightarrow> (Inl (NoPool e), [])
           | None \<Rightarrow>
               (case ping_loop db 0 '''' of
                  (Inl e, as) \<Rightarrow> (Inl e, Acquired Pool # as)
                | (Inr _, as) \<Rightarrow> (Inr cfg, Acquired Pool # as))))"

section \<open>Migrations\<close>

fun strip_prefix :: "string list \<Rightarrow> string \<Rightarrow> string" where
  "strip_prefix [] dsn = dsn"
| "strip_prefix (p # ps) dsn =
     (if length p \<le> length dsn \<and> take (length p) dsn = p then drop (length p) dsn else strip_prefix ps dsn)"

definition trimScheme :: "string \<Rightarrow> string" where
  "trimScheme dsn = strip_prefix [''postgres://'', ''postgresql://'', ''pgx5://'', ''pgx://''] dsn"

definition ErrNoChange :: string where "ErrNoChange = ''no change''"

definition Migrate :: "database \<Rightarrow> string \<Rightarrow> string \<Rightarrow> (db_error, unit, 'api) boot" where
  "Migrate db dsn dir =
     (case db_Source db dir of
        Some e \<Rightarrow> (Inl (NoMigrations dir e), [])
      | None \<Rightarrow>
          (case db_Migrator db (''pgx5://'' @ trimScheme dsn) of
             Some e \<Rightarrow> (Inl (NoMigrator e), [])
           | None \<Rightarrow>
               holding_resource Migrator
                 (case db_Up db of
                    None \<Rightarrow> did Migrated
                  | Some e \<Rightarrow> if e = ErrNoChange then did Migrated else (Inl (NotApplied e), []))))"

section \<open>What they promise\<close>

text \<open>A loop that is at attempt \<open>n\<close> makes \<open>m\<close> pings; whether it gets through is a matter of the first answer.\<close>

definition first_answer :: "database \<Rightarrow> nat \<Rightarrow> nat \<Rightarrow> bool" where
  "first_answer db n k \<longleftrightarrow> n \<le> k \<and> k < 10 \<and> db_Ping db k = None \<and> (\<forall>j \<in> {n..<k}. db_Ping db j \<noteq> None \<and> db_Done db j = None)"

definition pings :: "'api act list \<Rightarrow> nat" where
  "pings as = length (filter (\<lambda>a. a = Did Pinged) as)"

lemma pings_append [simp]: "pings (as @ bs) = pings as + pings bs"
  by (simp add: pings_def)

lemma first_answer_here: "n < 10 \<Longrightarrow> db_Ping db n = None \<Longrightarrow> first_answer db n n"
  by (simp add: first_answer_def)

lemma first_answer_later:
  assumes "db_Ping db n \<noteq> None"
  shows "first_answer db n k \<longleftrightarrow> db_Done db n = None \<and> first_answer db (Suc n) k"
proof (cases "n < k")
  case True
  then have "{n..<k} = insert n {Suc n..<k}" by auto
  with True assms show ?thesis by (auto simp: first_answer_def)
qed (use assms in \<open>auto simp: first_answer_def le_less\<close>)

definition ping_ok :: "database \<Rightarrow> nat \<Rightarrow> (db_error, unit, 'api) boot \<Rightarrow> bool" where
  "ping_ok db n m \<longleftrightarrow>
     (is_ok (fst m) \<longleftrightarrow> (\<exists>k. first_answer db n k)) \<and> pings (snd m) \<le> 10 - n
     \<and> (\<forall>st. held (snd m) (Pool # st) = Some (if is_ok (fst m) then Pool # st else st))"

lemma ping_loop_ok: "n \<le> 10 \<Longrightarrow> ping_ok db n (ping_loop db n e)"
proof (induction db n e rule: ping_loop.induct)
  case (1 db n e)
  note unf = ping_loop.simps [of db n e]
  show ?case
  proof (cases "n < 10")
    case False
    then show ?thesis by (simp add: unf ping_ok_def first_answer_def pings_def)
  next
    case True
    consider "db_Ping db n = None" | x c where "db_Ping db n = Some x" "db_Done db n = Some c"
      | x where "db_Ping db n = Some x" "db_Done db n = None" by (cases "db_Ping db n"; cases "db_Done db n") auto
    then show ?thesis
    proof cases
      case 1
      then show ?thesis using True first_answer_here [OF True] by (auto simp: unf ping_ok_def pings_def)
    next
      case (2 x c)
      then show ?thesis using True by (simp add: unf ping_ok_def first_answer_later pings_def)
    next
      case (3 x)
      define m where "m = (ping_loop db (n + 1) x :: (db_error, unit, 'a) boot)"
      have "ping_ok db (n + 1) m" using "1.IH" [OF True 3] True by (simp add: m_def)
      moreover have "ping_loop db n e = (fst m, Did Pinged # snd m)"
        using 3 True by (simp add: unf and_then_def did_def m_def)
      moreover have "first_answer db n = first_answer db (n + 1)"
        using first_answer_later [of db n] 3 by (intro ext) simp
      moreover have "pings (Did Pinged # as) = Suc (pings as)" for as :: "'a act list" by (simp add: pings_def)
      ultimately show ?thesis using True unfolding ping_ok_def by (simp, linarith)
    qed
  qed
qed

lemma Connect_cases:
  fixes m :: "(db_error, unit, 'api) boot"
  assumes "m = ping_loop db 0 ''''"
  shows "Connect db dsn =
    (case db_ParseConfig db dsn of Inl e \<Rightarrow> (Inl (BadDSN e), [])
     | Inr parsed \<Rightarrow> (case db_New db (pool_limits parsed) of Some e \<Rightarrow> (Inl (NoPool e), [])
        | None \<Rightarrow> ((case fst m of Inl e \<Rightarrow> Inl e | Inr _ \<Rightarrow> Inr (pool_limits parsed)), Acquired Pool # snd m)))"
proof -
  obtain r as where m: "m = (r, as)" by (cases m)
  show ?thesis
    unfolding Connect_def assms [symmetric] m Let_def by (cases r) (simp_all cong: option.case_cong sum.case_cong)
qed

lemma Connect_clean:
  "case (Connect db dsn :: (db_error, pool_config, 'api) boot) of (Inl _, as) \<Rightarrow> clean as | (Inr _, as) \<Rightarrow> leaves_held Pool as"
proof -
  define m where "m = (ping_loop db 0 '''' :: (db_error, unit, 'api) boot)"
  have "ping_ok db 0 m" unfolding m_def by (rule ping_loop_ok) simp
  then show ?thesis unfolding Connect_cases [OF m_def]
    by (auto simp: ping_ok_def clean_def leaves_held_def split: option.splits sum.splits)
qed

text \<open>The URL that goes to the migration library is the given one with its scheme replaced.\<close>

lemma trimScheme_strips:
  "p \<in> {''postgres://'', ''postgresql://'', ''pgx5://'', ''pgx://''} \<Longrightarrow> trimScheme (p @ s) = s"
  by (auto simp: trimScheme_def)

lemma Migrate_clean: "clean (snd (Migrate db dsn dir))"
  by (auto simp: Migrate_def split: option.splits)

text \<open>
  C34.  Connecting ends and never leaks a pool.  It pings at most ten times; it succeeds exactly when one of the
  ten pings is answered before a wait is cut short, and then holds the one pool it opened, with 2 to 20
  connections; on every error no pool is left open.
\<close>

theorem Connect_holds_one_pool:
  "(case (Connect db dsn :: (db_error, pool_config, 'api) boot) of
      (Inr cfg, as) \<Rightarrow> held as st = Some (Pool # st) \<and> pc_MaxConns cfg = 20 \<and> pc_MinConns cfg = 2 \<and> pings as \<le> 10
    | (Inl _, as) \<Rightarrow> held as st = Some st \<and> pings as \<le> 10)
   \<and> (is_ok (fst (Connect db dsn :: (db_error, pool_config, 'api) boot)) \<longleftrightarrow>
        (\<exists>parsed. db_ParseConfig db dsn = Inr parsed \<and> db_New db (pool_limits parsed) = None) \<and> (\<exists>k. first_answer db 0 k))"
proof -
  define m where "m = (ping_loop db 0 '''' :: (db_error, unit, 'api) boot)"
  have "ping_ok db 0 m" unfolding m_def by (rule ping_loop_ok) simp
  moreover have "pings (Acquired r # as) = pings as" for r and as :: "'api act list" by (simp add: pings_def)
  ultimately show ?thesis unfolding Connect_cases [OF m_def]
    by (auto simp: ping_ok_def pool_limits_def pings_def split: option.splits sum.splits)
qed

end
