(* ===== verification/StartupProps.thy ===== *)
theory StartupProps
  imports Startup
begin

text \<open>
  What is true when a program begins to serve: assertions on the resources it holds and on what it has done by
  then, with a rule for each step of \<open>Startup\<close>.
\<close>

section \<open>Assertions\<close>

text \<open>Progress: the resources held, the latest first, and what was done.\<close>

type_synonym 'api progress = "resource list \<times> 'api event set"

fun step_on :: "'api act \<Rightarrow> 'api progress \<Rightarrow> 'api progress" where
  "step_on (Acquired r) (st, evs) = (r # st, evs)"
| "step_on (Released r) (st, evs) = (remove1 r st, evs)"
| "step_on (Did ev) (st, evs) = (st, insert ev evs)"

fun after :: "'api act list \<Rightarrow> 'api progress \<Rightarrow> 'api progress" where
  "after [] s = s"
| "after (a # as) s = after as (step_on a s)"

text \<open>Whenever a trace begins to serve, \<open>Q\<close> holds of the server, what serves and the progress made by then.\<close>

fun serves :: "(http_server \<Rightarrow> 'api \<Rightarrow> 'api progress \<Rightarrow> bool) \<Rightarrow> 'api act list \<Rightarrow> 'api progress \<Rightarrow> bool" where
  "serves Q [] s = True"
| "serves Q (Did (Listening addr api) # as) s = (Q addr api s \<and> serves Q as (step_on (Did (Listening addr api)) s))"
| "serves Q (a # as) s = serves Q as (step_on a s)"

lemma after_append: "after (as @ bs) s = after bs (after as s)"
  by (induction as arbitrary: s) simp_all

lemma serves_append: "serves Q (as @ bs) s \<longleftrightarrow> serves Q as s \<and> serves Q bs (after as s)"
  by (induction Q as s rule: serves.induct) simp_all

definition ensures :: "('api progress \<Rightarrow> bool) \<Rightarrow> ('e, 'a, 'api) boot \<Rightarrow> ('a \<Rightarrow> 'api progress \<Rightarrow> bool)
    \<Rightarrow> (http_server \<Rightarrow> 'api \<Rightarrow> 'api progress \<Rightarrow> bool) \<Rightarrow> bool" where
  "ensures P m R Q \<longleftrightarrow>
     (\<forall>s. P s \<longrightarrow> serves Q (snd m) s \<and> (\<forall>x. fst m = Inr x \<longrightarrow> R x (after (snd m) s)))"

abbreviation holding_all :: "resource list \<Rightarrow> 'api event set \<Rightarrow> 'api progress \<Rightarrow> bool" where
  "holding_all st evs s \<equiv> fst s = st \<and> evs \<subseteq> snd s"

lemma and_then_cases:
  "and_then m f = (case fst m of Inl e \<Rightarrow> (Inl e, snd m) | Inr x \<Rightarrow> (fst (f x), snd m @ snd (f x)))"
  by (cases m; cases "fst m") (simp_all add: and_then_def)

lemma or_error_cases: "or_error c m = (case fst m of Inl e \<Rightarrow> (Inl (c e), snd m) | Inr x \<Rightarrow> (Inr x, snd m))"
  by (cases m; cases "fst m") (simp_all add: or_error_def)

lemma ensures_and_then:
  "ensures P m R Q \<Longrightarrow> (\<And>x. ensures (R x) (f x) S Q) \<Longrightarrow> ensures P (and_then m f) S Q"
  by (cases "fst m") (simp_all add: ensures_def and_then_cases serves_append after_append del: split_paired_All)

lemma ensures_or_error: "ensures P m R Q \<Longrightarrow> ensures P (or_error c m) R Q"
  by (cases "fst m") (simp_all add: ensures_def or_error_cases del: split_paired_All)

lemma ensures_pre: "ensures P m R Q \<Longrightarrow> (\<And>s. P' s \<Longrightarrow> P s) \<Longrightarrow> ensures P' m R Q"
  unfolding ensures_def by blast

lemma ensures_ex: "(\<And>x. ensures (P x) m R Q) \<Longrightarrow> ensures (\<lambda>s. \<exists>x. P x s) m R Q"
  unfolding ensures_def by blast

lemma ensures_conj: "(b \<Longrightarrow> ensures P m R Q) \<Longrightarrow> ensures (\<lambda>s. b \<and> P s) m R Q"
  unfolding ensures_def by blast

lemma ensures_did:
  "(\<And>addr api. ev \<noteq> Listening addr api) \<Longrightarrow>
    ensures (holding_all st evs) (did ev) (\<lambda>_. holding_all st (insert ev evs)) Q"
  by (cases ev) (auto simp: ensures_def did_def)

lemma ensures_given: "ensures P (given r) (\<lambda>x s. r = Inr x \<and> P s) Q"
  by (simp add: ensures_def given_def del: split_paired_All)

lemma ensures_check: "ensures P (check e) (\<lambda>_ s. e = None \<and> P s) Q"
  by (simp add: ensures_def check_def del: split_paired_All split: option.splits)

lemma ensures_deferring: "ensures P m R Q \<Longrightarrow> ensures P (deferring r m) (\<lambda>_ _. True) Q"
  by (simp add: ensures_def deferring_def serves_append del: split_paired_All)

lemma ensures_holding:
  assumes "ensures (holding_all (r # st) evs) m R Q"
  shows "ensures (holding_all st evs) (holding_resource r m) (\<lambda>_ _. True) Q"
proof -
  have "serves Q (snd m) (step_on (Acquired r) s)" if "holding_all st evs s" for s
    using assms [unfolded ensures_def, rule_format, of "step_on (Acquired r) s"] that by (cases s) simp
  then show ?thesis by (simp add: ensures_def holding_resource_def serves_append del: split_paired_All)
qed

lemma ensures_listen:
  "(\<And>s. P s \<Longrightarrow> Q (http_server_at addr) api s) \<Longrightarrow> ensures P (ListenAndServe pr addr api) (\<lambda>_ _. True) Q"
  by (simp add: ensures_def ListenAndServe_def and_then_def did_def del: split_paired_All split: option.splits)

section \<open>The steps of a start\<close>

text \<open>Pings leave nothing behind but the fact that they were made.\<close>

lemma ping_loop_steps:
  "serves Q (snd (ping_loop db n e)) s \<and> snd s \<subseteq> snd (after (snd (ping_loop db n e)) s)
    \<and> (is_ok (fst (ping_loop db n e :: (db_error, unit, 'api) boot)) \<longrightarrow> fst (after (snd (ping_loop db n e)) s) = fst (s :: 'api progress))"
proof (induction db n e arbitrary: s rule: ping_loop.induct)
  case (1 db n e)
  note unf = ping_loop.simps [of db n e]
  obtain st evs where s: "s = (st, evs)" by (cases s)
  show ?case
  proof (cases "n < 10 \<and> db_Ping db n \<noteq> None \<and> db_Done db n = None")
    case False
    then show ?thesis unfolding unf s by (auto split: option.splits)
  next
    case True
    then obtain x where x: "n < 10" "db_Ping db n = Some x" "db_Done db n = None" by blast
    define m where "m = (ping_loop db (n + 1) x :: (db_error, unit, 'api) boot)"
    have "(ping_loop db n e :: (db_error, unit, 'api) boot) = (fst m, Did Pinged # snd m)"
      using x unfolding unf by (simp add: and_then_def did_def m_def)
    with "1.IH" [OF x, of "(st, insert Pinged evs)", folded m_def] show ?thesis by (simp only: s) auto
  qed
qed

lemma ensures_Connect:
  "ensures (holding_all st evs) (or_error Db (Connect db dsn)) (\<lambda>_. holding_all (Pool # st) evs) Q"
proof (rule ensures_or_error)
  define m where "m = (ping_loop db 0 '''' :: (db_error, unit, 'a) boot)"
  have P: "serves Q (snd m) s \<and> snd s \<subseteq> snd (after (snd m) s) \<and> (is_ok (fst m) \<longrightarrow> fst (after (snd m) s) = fst s)"
    for s :: "'a progress" unfolding m_def by (rule ping_loop_steps)
  show "ensures (holding_all st evs) (Connect db dsn) (\<lambda>_. holding_all (Pool # st) evs) Q"
    unfolding ensures_def
  proof (intro allI impI, elim conjE)
    fix s :: "'a progress" assume s: "fst s = st" "evs \<subseteq> snd s"
    show "serves Q (snd (Connect db dsn)) s
        \<and> (\<forall>x. fst (Connect db dsn :: (db_error, pool_config, 'a) boot) = Inr x \<longrightarrow> holding_all (Pool # st) evs (after (snd (Connect db dsn)) s))"
      using P [of "(Pool # st, snd s)"] s unfolding Connect_cases [OF m_def]
      by (cases s) (auto split: sum.splits option.splits)
  qed
qed

lemma ensures_Migrate:
  "ensures (holding_all st evs) (or_error Db (Migrate db dsn dir)) (\<lambda>_. holding_all st (insert Migrated evs)) Q"
  by (rule ensures_or_error)
    (auto simp: ensures_def Migrate_def holding_resource_def did_def split: option.splits)

lemma ensures_EnsureTopics:
  "ensures (holding_all st evs) (or_error CreatingTopics (EnsureTopics cl brokers topics n k))
    (\<lambda>_ s. \<exists>c. holding_all st (insert (Created c (topic_configs topics n k)) evs) s) Q"
  by (rule ensures_or_error)
    (auto simp: ensures_def EnsureTopics_def holding_resource_def did_def Let_def split: list.splits sum.splits)

lemma ensures_wait:
  assumes "brokers \<noteq> []"
  shows "ensures (holding_all st evs)
    (or_error WaitingForTopics
      (let (res, w) = WaitForTopics brokers topics timeout polls start in (res, [Did (Polled (w_polls w))])))
    (\<lambda>_ s. \<exists>n. 0 < n \<and> sees_all topics (polls (n - 1)) \<and> holding_all st (insert (Polled n) evs) s) Q"
proof -
  obtain res w where w: "WaitForTopics brokers topics timeout polls start = (res, w)" by fastforce
  have "res = Inr x \<Longrightarrow> 0 < w_polls w \<and> sees_all topics (polls (w_polls w - 1))" for x
    using WaitForTopics_end(3) [OF assms w] by (simp add: wait_verdict_def)
  then show ?thesis unfolding w by (intro ensures_or_error) (auto simp: ensures_def)
qed

lemma ensures_with_database:
  assumes "ensures (holding_all [Pool] {Migrated}) rest (\<lambda>_ _. True) Q"
  shows "ensures (holding_all [] {}) (with_database pr dsn rest) (\<lambda>_ _. True) Q"
  unfolding with_database_def
  by (rule ensures_and_then [OF ensures_Connect ensures_deferring [OF ensures_and_then [OF ensures_Migrate]]])
    (rule assms)

text \<open>What a service of the saga has when it begins to serve.\<close>

definition topics_ready :: "process \<Rightarrow> 'api event set \<Rightarrow> bool" where
  "topics_ready pr evs \<longleftrightarrow>
     (\<exists>c. Created c (topic_configs SagaTopics DefaultPartitions 1) \<in> evs)
     \<and> (\<exists>n. 0 < n \<and> Polled n \<in> evs \<and> sees_all SagaTopics (pr_polls pr (n - 1)))"

lemma ensures_with_topics:
  assumes "brokers \<noteq> []" and "ensures (\<lambda>s. holding_all st evs s \<and> topics_ready pr (snd s)) rest (\<lambda>_ _. True) Q"
  shows "ensures (holding_all st evs) (with_topics pr brokers rest) (\<lambda>_ _. True) Q"
  unfolding with_topics_def
  by (rule ensures_and_then [OF ensures_EnsureTopics], rule ensures_ex,
      rule ensures_and_then [OF ensures_wait [OF assms(1)]], intro ensures_ex ensures_conj,
      rule ensures_pre [OF assms(2)])
    (auto simp: topics_ready_def)

section \<open>When a program begins to serve\<close>

lemma ensures_saga_service:
  assumes "brokers \<noteq> []"
    and "ensures (\<lambda>s. holding_all [Consumers, Writer, Pool] evs s \<and> topics_ready pr (snd s)) rest (\<lambda>_ _. True) Q"
  shows "ensures (holding_all [Pool] evs) (with_topics pr brokers (holding_resource Writer (holding_resource Consumers rest))) (\<lambda>_ _. True) Q"
proof (rule ensures_with_topics [OF assms(1)])
  have step: "ensures (\<lambda>s. holding_all st evs s \<and> topics_ready pr (snd s)) (holding_resource r m) (\<lambda>_ _. True) Q"
    if "ensures (\<lambda>s. holding_all (r # st) evs s \<and> topics_ready pr (snd s)) m (\<lambda>_ _. True) Q" for st r m
  proof -
    have "serves Q (snd m) (step_on (Acquired r) s)" if s: "holding_all st evs s \<and> topics_ready pr (snd s)" for s
      using \<open>ensures (\<lambda>s. holding_all (r # st) evs s \<and> topics_ready pr (snd s)) m (\<lambda>_ _. True) Q\<close>
        [unfolded ensures_def, rule_format, of "step_on (Acquired r) s"] s by (cases s) simp
    then show ?thesis by (simp add: ensures_def holding_resource_def serves_append del: split_paired_All)
  qed
  show "ensures (\<lambda>s. holding_all [Pool] evs s \<and> topics_ready pr (snd s)) (holding_resource Writer (holding_resource Consumers rest)) (\<lambda>_ _. True) Q"
    by (intro step assms(2))
qed

lemma topics_ready_more: "topics_ready pr evs \<Longrightarrow> topics_ready pr (insert ev evs)"
  by (auto simp: topics_ready_def)

lemma ensures_consuming:
  "ensures (\<lambda>s. holding_all st evs s \<and> topics_ready pr (snd s)) (did (Consuming t g))
    (\<lambda>_ s. holding_all st (insert (Consuming t g) evs) s \<and> topics_ready pr (snd s)) Q"
  by (auto simp: ensures_def did_def topics_ready_more)

text \<open>
  C14.  The services of the saga serve only when they can take part in it.  When the orders service or the
  payment service begins to serve, its database is open and migrated, the saga's three topics have been
  created with three partitions and were all visible to the last poll, its publisher is open and its
  consumers run in the service's own group.
\<close>

theorem saga_services_serve_ready:
  "serves (\<lambda>srv catalog (st, evs).
      st = [Consumers, Writer, Pool] \<and> Migrated \<in> evs \<and> topics_ready pr evs
      \<and> Consuming TopicPaymentSucceeded ''orders-service'' \<in> evs \<and> Consuming TopicPaymentFailed ''orders-service'' \<in> evs)
     (snd (orders_run pr)) ([], {})
   \<and> serves (\<lambda>srv failAmount (st, evs).
      st = [Consumers, Writer, Pool] \<and> Migrated \<in> evs \<and> topics_ready pr evs
      \<and> Consuming TopicOrderCreated ''payment-service'' \<in> evs)
     (snd (payment_run pr)) ([], {})"
    (is "serves ?O _ _ \<and> serves ?P _ _")
proof
  have "ensures (holding_all [] {}) (orders_run pr) (\<lambda>_ _. True) ?O"
    unfolding orders_run_def Let_def
    by (rule ensures_with_database, rule ensures_saga_service [OF Split_nonempty],
        rule ensures_and_then [OF ensures_consuming], rule ensures_and_then [OF ensures_consuming], rule ensures_listen) auto
  then show "serves ?O (snd (orders_run pr)) ([], {})" by (simp add: ensures_def)
  have "ensures (holding_all [] {}) (payment_run pr) (\<lambda>_ _. True) ?P"
    unfolding payment_run_def Let_def
    by (rule ensures_and_then [OF ensures_Connect], rule ensures_deferring, rule ensures_and_then [OF ensures_Migrate],
        rule ensures_and_then [OF ensures_or_error [OF ensures_given]], rule ensures_conj,
        rule ensures_saga_service [OF Split_nonempty], rule ensures_and_then [OF ensures_consuming], rule ensures_listen) auto
  then show "serves ?P (snd (payment_run pr)) ([], {})" by (simp add: ensures_def)
qed

lemma New_Router_secret: "New_Router L cfg = Inr h \<Longrightarrow> 32 \<le> length (jwt_Secret (cfg_JWT cfg))"
  by (auto simp: New_Router_def JWTConfig_Validate_def split: option.splits if_splits)

lemma NewRedisTokenBucket_capacity:
  "NewRedisTokenBucket c p cap interval = Inr tb \<Longrightarrow> 0 < cap \<and> rtb_capacity tb = cap \<and> rtb_prefix tb = p"
  by (auto simp: NewRedisTokenBucket_def check_config_def split: if_splits option.splits)

text \<open>
  C13.  Neither the gateway nor the auth service ever serves with a weak signing key, and the gateway never
  without a limit: when the gateway begins to serve, the key has at least 32 bytes, its limiter is the Redis
  token bucket with the configured, positive capacity, Redis has answered, and what serves is the router of
  exactly this configuration, failing closed; the auth service signs with the key of the same name.
\<close>

theorem keys_and_limits_in_force:
  "serves (\<lambda>srv (tb, handler) (st, evs).
      st = [RedisClient] \<and> pr_redis pr = None \<and> 32 \<le> length (pr_getenv pr JWT_SECRET)
      \<and> 0 < rtb_capacity tb \<and> envInt (pr_getenv pr) ''RATE_LIMIT'' 100 = Inr (rtb_capacity tb)
      \<and> New_Router L (gateway_config (pr_getenv pr) tb (pr_getenv pr JWT_SECRET)) = Inr handler)
     (snd (gateway_run ParseDuration L pr)) ([], {})
   \<and> serves (\<lambda>srv api (st, evs).
      st = [Pool] \<and> Migrated \<in> evs \<and> au_jwtSecret api = pr_getenv pr JWT_SECRET \<and> 32 \<le> length (au_jwtSecret api))
     (snd (auth_run ParseDuration dummyHash pr)) ([], {})"
    (is "serves ?G _ _ \<and> serves ?A _ _")
proof
  show "serves ?G (snd (gateway_run ParseDuration L pr)) ([], {})"
  proof (cases "pr_getenv pr JWT_SECRET = ''''")
    case False
    have "ensures (holding_all [] {}) (gateway_run ParseDuration L pr) (\<lambda>_ _. True) ?G"
      unfolding gateway_run_def Let_def if_not_P [OF False]
      by (rule ensures_and_then [OF ensures_or_error [OF ensures_given]], rule ensures_conj,
          rule ensures_and_then [OF ensures_or_error [OF ensures_given]], rule ensures_conj, rule ensures_holding,
          rule ensures_and_then [OF ensures_or_error [OF ensures_check]], rule ensures_conj,
          rule ensures_and_then [OF ensures_or_error [OF ensures_given]], rule ensures_conj,
          rule ensures_and_then [OF ensures_or_error [OF ensures_given]], rule ensures_conj, rule ensures_listen)
        (auto dest!: New_Router_secret NewRedisTokenBucket_capacity simp: gateway_config_def)
    then show ?thesis by (simp add: ensures_def)
  qed (simp add: gateway_run_def)
  show "serves ?A (snd (auth_run ParseDuration dummyHash pr)) ([], {})"
  proof (cases "length (pr_getenv pr JWT_SECRET) < 32")
    case False
    then have ne: "pr_getenv pr JWT_SECRET \<noteq> ''''" by auto
    have "ensures (holding_all [] {}) (auth_run ParseDuration dummyHash pr) (\<lambda>_ _. True) ?A"
      unfolding auth_run_def Let_def if_not_P [OF ne] if_not_P [OF False]
      by (rule ensures_and_then [OF ensures_or_error [OF ensures_given]], rule ensures_conj,
          rule ensures_with_database, rule ensures_listen)
        (use False in auto)
    then show ?thesis by (simp add: ensures_def)
  qed (simp add: auth_run_def Let_def)
qed

section \<open>Programs that do serve\<close>

definition demo_process :: process where
  "demo_process =
     \<lparr>pr_getenv = (\<lambda>key. if key = JWT_SECRET then replicate 32 (CHR ''x'') else ''''),
      pr_db = \<lparr>db_ParseConfig = (\<lambda>dsn. Inr \<lparr>pc_target = dsn, pc_MaxConns = 4, pc_MinConns = 0, pc_MaxConnLifetime = 0,
                 pc_MaxConnIdleTime = 0, pc_HealthCheckPeriod = 0\<rparr>),
               db_New = (\<lambda>_. None), db_Ping = (\<lambda>n. if n = 0 then Some ''refused'' else None), db_Done = (\<lambda>_. None),
               db_Source = (\<lambda>_. None), db_Migrator = (\<lambda>_. None), db_Up = Some ErrNoChange\<rparr>,
      pr_cluster = \<lparr>cl_Dial = (\<lambda>_. Inr ()), cl_Controller = (\<lambda>_. Inr ''c:9092''), cl_CreateTopics = (\<lambda>_ _. Inr ())\<rparr>,
      pr_polls = (\<lambda>_. \<lparr>po_ctx = None, po_dial = Inr (), po_read = Inr SagaTopics, po_took = 0, po_late = 0\<rparr>),
      pr_clock = 0, pr_redis = None, pr_listen = None\<rparr>"

lemma demo_Connect:
  "(Connect (pr_db demo_process) dsn :: (db_error, pool_config, 'api) boot) =
     (Inr \<lparr>pc_target = dsn, pc_MaxConns = 20, pc_MinConns = 2, pc_MaxConnLifetime = 3600 * Second,
        pc_MaxConnIdleTime = 1800 * Second, pc_HealthCheckPeriod = 60 * Second\<rparr>,
      [Acquired Pool, Did Pinged, Did Pinged])"
proof -
  have one: "(ping_loop (pr_db demo_process) (Suc 0) e :: (db_error, unit, 'api) boot) = (Inr (), [Did Pinged])" for e
    by (subst ping_loop.simps) (simp add: demo_process_def)
  have "(ping_loop (pr_db demo_process) 0 e :: (db_error, unit, 'api) boot) = (Inr (), [Did Pinged, Did Pinged])" for e
  proof -
    have "db_Ping (pr_db demo_process) 0 = Some ''refused''" "db_Done (pr_db demo_process) 0 = None"
      by (simp_all add: demo_process_def)
    then show ?thesis by (subst ping_loop.simps) (simp add: one and_then_def did_def)
  qed
  then show ?thesis by (simp add: Connect_def) (simp add: demo_process_def pool_limits_def)
qed

text \<open>A start with a second ping and an up-to-date schema: the orders service serves and shuts down in order.\<close>

lemma demo_orders_run:
  "fst (orders_run demo_process) = Inr ()
   \<and> Did (Listening (http_server_at '':8083'') ''http://localhost:8082'') \<in> set (snd (orders_run demo_process))"
proof -
  have up: "sees_all topics \<lparr>po_ctx = None, po_dial = Inr (), po_read = Inr topics, po_took = 0, po_late = 0\<rparr>" for topics
    by (simp add: sees_all_def)
  have w: "WaitForTopics brokers SagaTopics timeout (pr_polls demo_process) (pr_clock demo_process)
      = (Inr (), \<lparr>w_now = 0, w_polls = 1, w_open = 0, w_lastErr = None\<rparr>)" if "brokers \<noteq> []" "0 < timeout" for brokers timeout
    using that up unfolding WaitForTopics_def
    by (subst wait_loop.simps) (simp add: demo_process_def poll_once_cases time_add_def)
  have b: "Split (CHR '','') ''localhost:9092'' = [''localhost:9092'']" by simp
  have e: "getenv_or (pr_getenv demo_process) key fallback = fallback" if "key \<noteq> JWT_SECRET" for key fallback
    using that by (simp add: getenv_or_def demo_process_def)
  have m: "Migrate (pr_db demo_process) dsn dir = (Inr (), [Acquired Migrator, Did Migrated, Released Migrator])" for dsn dir
    by (simp add: Migrate_def demo_process_def holding_resource_def did_def)
  have t: "EnsureTopics (pr_cluster demo_process) [''localhost:9092''] topics n k =
      (Inr (), [Acquired (Broker ''localhost:9092''), Acquired (Broker ''c:9092''),
        Did (Created ''c:9092'' (topic_configs topics n k)), Released (Broker ''c:9092''), Released (Broker ''localhost:9092'')])"
    for topics n k by (simp add: EnsureTopics_def demo_process_def holding_resource_def did_def)
  have l: "pr_listen demo_process = None" by (simp add: demo_process_def)
  show ?thesis
    by (simp add: orders_run_def with_database_def with_topics_def demo_Connect m t w b e JWT_SECRET_def l boot_defs
        ListenAndServe_def Let_def)
qed

end
