(* ===== verification/Logging.thy ===== *)
theory Logging
  imports Prelude
begin

text \<open>
  The shared logger (\<open>pkg/logging/logging.go\<close>): levels, and the handler that puts the correlation identifier
  of the context on every record.  The JSON handler of \<open>log/slog\<close> is modelled as far as it is used: it keeps
  the attributes it was given and the groups that were opened, and writes a line of attributes, each under
  the groups that were open when it was added.
\<close>

datatype Level = LevelDebug | LevelInfo | LevelWarn | LevelError

definition level_rank :: "Level \<Rightarrow> nat" where
  "level_rank l = (case l of LevelDebug \<Rightarrow> 0 | LevelInfo \<Rightarrow> 1 | LevelWarn \<Rightarrow> 2 | LevelError \<Rightarrow> 3)"

text \<open>Levels are ordered as the integers they are in \<open>slog\<close>.\<close>

instantiation Level :: linorder
begin

definition less_eq_Level :: "Level \<Rightarrow> Level \<Rightarrow> bool" where
  "less_eq_Level l m \<longleftrightarrow> level_rank l \<le> level_rank m"

definition less_Level :: "Level \<Rightarrow> Level \<Rightarrow> bool" where
  "less_Level l m \<longleftrightarrow> level_rank l < level_rank m"

instance
proof
  fix l m :: Level
  assume "l \<le> m" and "m \<le> l"
  then show "l = m" by (cases l; cases m) (simp_all add: less_eq_Level_def level_rank_def)
qed (auto simp: less_eq_Level_def less_Level_def)

end

definition ParseLevel :: "string \<Rightarrow> Level" where
  "ParseLevel s =
     (if s = ''debug'' \<or> s = ''DEBUG'' then LevelDebug
      else if s = ''warn'' \<or> s = ''WARN'' then LevelWarn
      else if s = ''error'' \<or> s = ''ERROR'' then LevelError
      else LevelInfo)"

type_synonym attr = "string \<times> string"

record JSONHandler =
  jh_level :: Level
  jh_attrs :: "(string list \<times> attr) list"
  jh_groups :: "string list"

record log_record =
  lr_level :: Level
  lr_message :: string
  lr_attrs :: "attr list"

definition JSON_Handle :: "JSONHandler \<Rightarrow> log_record \<Rightarrow> (string list \<times> attr) list" where
  "JSON_Handle h r = jh_attrs h @ map (Pair (jh_groups h)) (lr_attrs r)"

definition JSON_WithAttrs :: "JSONHandler \<Rightarrow> attr list \<Rightarrow> JSONHandler" where
  "JSON_WithAttrs h as = h\<lparr>jh_attrs := jh_attrs h @ map (Pair (jh_groups h)) as\<rparr>"

definition JSON_WithGroup :: "JSONHandler \<Rightarrow> string \<Rightarrow> JSONHandler" where
  "JSON_WithGroup h name = h\<lparr>jh_groups := jh_groups h @ [name]\<rparr>"

section \<open>The correlation handler\<close>

record correlationHandler = inner :: JSONHandler

text \<open>\<open>cid\<close> is what \<open>correlation.FromContext\<close> returns, empty when the context has none.\<close>

definition Handler_Enabled :: "correlationHandler \<Rightarrow> Level \<Rightarrow> bool" where
  "Handler_Enabled h l \<longleftrightarrow> jh_level (inner h) \<le> l"

definition Handler_Handle :: "correlationHandler \<Rightarrow> string \<Rightarrow> log_record \<Rightarrow> (string list \<times> attr) list" where
  "Handler_Handle h cid r =
     (let r' = (if cid \<noteq> '''' then r\<lparr>lr_attrs := lr_attrs r @ [(''correlation_id'', cid)]\<rparr> else r)
      in JSON_Handle (inner h) r')"

definition Handler_WithAttrs :: "correlationHandler \<Rightarrow> attr list \<Rightarrow> correlationHandler" where
  "Handler_WithAttrs h as = \<lparr>inner = JSON_WithAttrs (inner h) as\<rparr>"

definition Handler_WithGroup :: "correlationHandler \<Rightarrow> string \<Rightarrow> correlationHandler" where
  "Handler_WithGroup h name = \<lparr>inner = JSON_WithGroup (inner h) name\<rparr>"

definition NewLogger :: "string \<Rightarrow> Level \<Rightarrow> correlationHandler" where
  "NewLogger service level =
     Handler_WithAttrs \<lparr>inner = \<lparr>jh_level = level, jh_attrs = [], jh_groups = []\<rparr>\<rparr> [(''service'', service)]"

text \<open>\<open>slog.Logger\<close> hands a record to its handler only at an enabled level.\<close>

definition Log :: "correlationHandler \<Rightarrow> string \<Rightarrow> log_record \<Rightarrow> (string list \<times> attr) list option" where
  "Log h cid r = (if Handler_Enabled h (lr_level r) then Some (Handler_Handle h cid r) else None)"

text \<open>What call sites derive from a service's logger, by \<open>With\<close> and \<open>WithGroup\<close>.\<close>

inductive derived :: "correlationHandler \<Rightarrow> correlationHandler \<Rightarrow> bool" for base where
  derived_base: "derived base base"
| derived_attrs: "derived base h \<Longrightarrow> derived base (Handler_WithAttrs h as)"
| derived_group: "derived base h \<Longrightarrow> derived base (Handler_WithGroup h name)"

lemma derived_keeps:
  "derived base h \<Longrightarrow> jh_level (inner h) = jh_level (inner base)
    \<and> set (jh_attrs (inner base)) \<subseteq> set (jh_attrs (inner h))"
  by (induction rule: derived.induct)
    (auto simp: Handler_WithAttrs_def Handler_WithGroup_def JSON_WithAttrs_def JSON_WithGroup_def)

text \<open>
  Every line of a service carries the service's name and, when the context has one, the correlation
  identifier, at the top level unless a call site has opened a group.  The level of the configuration is in
  force for every derived logger; a misspelt level is \<open>LevelInfo\<close>, so that errors are always logged.
\<close>

lemma every_line_is_traceable:
  assumes "derived (NewLogger service (ParseLevel s)) h" and "Log h cid r = Some line"
  shows "([], ''service'', service) \<in> set line
    \<and> (cid \<noteq> '''' \<longrightarrow> (jh_groups (inner h), ''correlation_id'', cid) \<in> set line)"
  using derived_keeps [OF assms(1)] assms(2)
  by (auto simp: Log_def Handler_Handle_def JSON_Handle_def NewLogger_def Handler_WithAttrs_def JSON_WithAttrs_def
      Let_def split: if_splits)

lemma errors_are_logged:
  assumes "derived (NewLogger service (ParseLevel s)) h" and "lr_level r = LevelError"
  shows "Log h cid r \<noteq> None"
  using derived_keeps [OF assms(1)] assms(2)
  by (auto simp: Log_def Handler_Enabled_def less_eq_Level_def level_rank_def split: Level.splits)

end
