(* ===== verification/Spec2Isabelle.thy ===== *)
theory Spec2Isabelle
  imports TokenBucket SlidingWindowCounter SagaGaps GatewayGaps AuthDemo ConsumerDemo RedisLogDemo StartupProps Logging
begin

text \<open>
  \<^bold>\<open>The program.\<close>  An e-commerce back end in Go: a gateway (\<open>gateway/\<close>) in front of four services
  (\<open>services/auth\<close>, \<open>catalog\<close>, \<open>orders\<close>, \<open>payment\<close>), a rate-limiting library (\<open>ratelimiter/\<close>) and
  shared packages (\<open>pkg/\<close>).  Clients reach the services only through the gateway, which validates their
  token once and forwards its subject in the header \<open>X-User-ID\<close>.  An order is created by the orders
  service, which reserves its lines at the catalog over HTTP and publishes \<open>OrderCreated\<close>; the payment
  service charges it and publishes \<open>PaymentSucceeded\<close> or \<open>PaymentFailed\<close>; the orders service then
  commits or releases the reservations and settles the order.  Each service owns its database.

  \<^bold>\<open>Theories and sources.\<close>

  \<^item> \<open>Prelude\<close>: Go's 64-bit integers with their wrap-around, results of fallible functions, shared
    lemmas.  \<open>Float64\<close>: binary64 arithmetic as correctly rounded rational arithmetic.  \<open>Programs\<close>:
    handlers as sequences of calls, rely and guarantee, systems of interleaved programs.  \<open>Postgres\<close>:
    round trips that can be lost, transactions, the errors the code tells apart.
  \<^item> \<open>Limiter\<close>, \<open>TokenBucket\<close>, \<open>SlidingWindowLog\<close>, \<open>SlidingWindowCounter\<close>: package \<open>ratelimiter\<close> and its
    \<open>algorithms/\<close>.  A mutex serialises the calls, so \<open>Allow\<close> is a function of state, instant and key.
  \<^item> \<open>Redis\<close>: what the limiters of \<open>ratelimiter/redis\<close> share (\<open>redis.go\<close>, the constructors), and the keys
    of a server.  \<open>RedisBucket\<close>, \<open>RedisLog\<close>, \<open>RedisCounter\<close>: the three limiters (\<open>limiters.go\<close>), each with its
    Lua script, in the arithmetic the script runs in.  \<open>RedisFleet\<close> and \<open>RedisCeiling\<close>: the log shared by any
    number of processes, and its exact ceiling.  \<open>RedisDemo\<close>, \<open>RedisLogDemo\<close>: concrete configurations, and
    the ones that escape a ceiling.
  \<^item> \<open>Httpx\<close>: \<open>pkg/httpx\<close>, strings and JSON values.  \<open>Http\<close>: what is used of \<open>net/http\<close>.
    \<open>Correlation\<close>, \<open>Metrics\<close>, \<open>Logging\<close>: the packages of these names.
  \<^item> \<open>GatewayAuth\<close>, \<open>GatewayLimit\<close>, \<open>GatewayRouter\<close>: \<open>gateway/middleware\<close> and \<open>gateway/router\<close>.
    Middleware are functions from handlers to handlers, composed in the order of \<open>router.New\<close>; the state
    holds the limiter, the requests handed to services, metrics and log.  \<open>GatewayProps\<close>,
    \<open>GatewayServe\<close>, \<open>GatewayClaims\<close>, \<open>GatewayTrace\<close>, \<open>GatewayGaps\<close>: their properties; \<open>GatewayDemo\<close>: a
    concrete gateway.
  \<^item> \<open>AuthStore\<close>, \<open>AuthAPI\<close>: \<open>services/auth\<close>, store and handlers.  \<open>AuthProps\<close>: accounts, sign-in, and the
    way of a token from the auth service through the gateway; \<open>AuthDemo\<close>: a concrete account.
  \<^item> \<open>CatalogStore\<close>, \<open>CatalogStock\<close>, \<open>CatalogProps\<close>, \<open>CatalogAPI\<close>: \<open>services/catalog\<close>, store and handlers.
  \<^item> \<open>OrdersStore\<close>, \<open>OrdersProps\<close>, \<open>OrdersAPI\<close>: \<open>services/orders\<close>, store, handlers, saga coordinator.
  \<^item> \<open>PaymentStore\<close>, \<open>PaymentAPI\<close>: \<open>services/payment\<close>.  \<open>Events\<close>: \<open>pkg/events/events.go\<close>.
  \<^item> \<open>Consumer\<close>, \<open>ConsumerProps\<close>, \<open>ConsumerDemo\<close>: the consumer of \<open>pkg/events/kafka.go\<close>.  The Kafka client is a
    record of operations with a contract for one partition; a run is a sequence of sessions, each followed
    for a number of turns, and a crash is a session that ends early.
  \<^item> \<open>Boot\<close>, \<open>Topics\<close>, \<open>Dbx\<close>, \<open>Startup\<close>: \<open>pkg/events/topics.go\<close>, \<open>pkg/dbx\<close> and \<open>run\<close> of the five \<open>main.go\<close>
    files, as steps that return a value or an error and a trace of what was acquired, done and released.
    \<open>StartupProps\<close>: what holds when a program begins to serve.
  \<^item> \<open>World\<close>: the databases and topics together, the catalog client of \<open>services/orders\<close> and \<open>Publish\<close>.
    \<open>SagaCalls\<close> to \<open>SagaSystem\<close>: the invariant of the distributed saga; \<open>SagaProgress\<close>, \<open>Scenario\<close>:
    undisturbed deliveries end the saga; \<open>SagaGaps\<close>: what the saga does not guarantee.

  \<^bold>\<open>Interfaces.\<close>  The locale \<open>limiter\<close> is the contract of \<open>Limiter.Allow\<close> and is interpreted by the
  in-memory algorithms and by the token bucket and the counter in Redis; \<open>evolving_store\<close> gives a store's invariant along any sequence of its
  operations and is interpreted by each store; \<open>rely_guarantee\<close> lifts safe programs to systems and is
  interpreted by the saga.

  \<^bold>\<open>What is assumed.\<close>  A transaction is atomic (row locks), one statement reads one state.  A round
  trip runs, is refused, or runs and loses its answer, at any point.  Identifiers drawn at random are
  new.  A topic delivers any message it was given, any number of times, in any order.  ASCII letters
  are the only ones whose case is changed.  Floating-point products and sums are not fused.  The Redis
  client evaluates a script at most once per call; a script is atomic and reads the server's clock.

  \<^bold>\<open>Parameters.\<close>  Code that is not in the repository: chi (\<open>chi_contract\<close> states its documented
  matching), the JWT library, the Prometheus exposition, the services as the gateway sees them, the
  payment processor, bcrypt and the mail-address parser, the Kafka client, the connection pool and the
  migration library, \<open>time.ParseDuration\<close>, the UUID type of the database (\<open>uuid_type\<close>).

  \<^bold>\<open>Bounds.\<close>  The loops over time and attempts (\<open>wait_loop\<close>, \<open>ping_loop\<close>) are total functions with a measure:
  the time left, the attempts left.  A consumer's session is given a number of turns; its properties hold
  for every number.  The scripts' theorems hold for Unix time from 1970 to 2286 (token bucket) or 2049 (log
  and counter), limits up to \<open>10 ^ 14\<close> and windows up to \<open>2 ^ 61\<close> nanoseconds; outside, the texts and numbers
  of the scripts are no longer exact.

  \<^bold>\<open>Not modelled.\<close>  The SQL of the migrations, log lines of the services, the scanner of \<open>encoding/json\<close>
  (JSON is its values), bodies and query strings passing through the gateway, how long a shutdown lets
  requests finish, and the counter's script at windows of less than a millisecond, where it divides by
  zero.
\<close>

end
